(* ===== verification/Prelude.thy ===== *)
theory Prelude
  imports Complex_Main "HOL-Library.Sublist"
begin

text \<open>
  Shared vocabulary of the development: the short-circuiting loops that Python's
  \<open>all\<close>, \<open>any\<close> and \<open>for ... break\<close> perform over predicates that may raise, a state-and-exception
  computation type for the handlers that touch counters, and the string operations
  (\<open>split\<close>, decimal printing) the components use.
\<close>

named_theorems loop_simps \<open>characteristic equations of the short-circuiting loops\<close>
named_theorems run_simps \<open>unfolding rules of the state-and-exception computations\<close>

section \<open>Loops over predicates that may raise\<close>

text \<open>
  A predicate of type \<open>'a \<Rightarrow> bool option\<close> raises where it returns \<open>None\<close>.  \<open>all_m\<close> and \<open>any_m\<close> stop at
  the first element that decides the result, so a later element that would raise is never
  reached, as in Python.
\<close>

fun all_m :: "('a \<Rightarrow> bool option) \<Rightarrow> 'a list \<Rightarrow> bool option" where
  "all_m f [] = Some True"
| "all_m f (x # xs) =
     (case f x of None \<Rightarrow> None | Some b \<Rightarrow> if b then all_m f xs else Some False)"

fun any_m :: "('a \<Rightarrow> bool option) \<Rightarrow> 'a list \<Rightarrow> bool option" where
  "any_m f [] = Some False"
| "any_m f (x # xs) =
     (case f x of None \<Rightarrow> None | Some b \<Rightarrow> if b then Some True else any_m f xs)"

lemma all_m_cong [fundef_cong]:
  "xs = ys \<Longrightarrow> (\<And>x. x \<in> set ys \<Longrightarrow> f x = g x) \<Longrightarrow> all_m f xs = all_m g ys"
  by (induction xs arbitrary: ys) (auto split: option.splits)

lemma any_m_cong [fundef_cong]:
  "xs = ys \<Longrightarrow> (\<And>x. x \<in> set ys \<Longrightarrow> f x = g x) \<Longrightarrow> any_m f xs = any_m g ys"
  by (induction xs arbitrary: ys) (auto split: option.splits)

lemma all_m_pure [loop_simps]:
  "(\<And>x. x \<in> set xs \<Longrightarrow> f x = Some (p x)) \<Longrightarrow> all_m f xs = Some (\<forall>x\<in>set xs. p x)"
  by (induction xs) auto

lemma any_m_pure [loop_simps]:
  "(\<And>x. x \<in> set xs \<Longrightarrow> f x = Some (p x)) \<Longrightarrow> any_m f xs = Some (\<exists>x\<in>set xs. p x)"
  by (induction xs) auto

lemma any_m_TrueD: "any_m f xs = Some True \<Longrightarrow> \<exists>x\<in>set xs. f x = Some True"
  by (induction xs) (auto split: option.splits if_splits)

lemma any_m_FalseD: "any_m f xs = Some False \<Longrightarrow> x \<in> set xs \<Longrightarrow> f x = Some False"
  by (induction xs) (auto split: option.splits if_splits)

lemma all_m_TrueD: "all_m f xs = Some True \<Longrightarrow> x \<in> set xs \<Longrightarrow> f x = Some True"
  by (induction xs) (auto split: option.splits if_splits)

lemma any_m_filter:
  assumes "\<And>x. x \<in> set xs \<Longrightarrow> \<not> p x \<Longrightarrow> f x = Some False"
  shows "any_m f (filter p xs) = any_m f xs"
  using assms by (induction xs) (auto split: option.splits)

lemma any_m_single: "any_m f [x] = f x"
  by (simp split: option.splits)

section \<open>Mapping an operation that may raise over a list\<close>

text \<open>\<open>[f(x) for x in xs]\<close>: the first exception ends the comprehension.\<close>

fun map_e :: "('a \<Rightarrow> 'e + 'b) \<Rightarrow> 'a list \<Rightarrow> 'e + 'b list" where
  "map_e f [] = Inr []"
| "map_e f (x # xs) =
     (case f x of
        Inl e \<Rightarrow> Inl e
      | Inr y \<Rightarrow> (case map_e f xs of Inl e \<Rightarrow> Inl e | Inr ys \<Rightarrow> Inr (y # ys)))"

lemma map_e_cong [fundef_cong]:
  "xs = ys \<Longrightarrow> (\<And>x. x \<in> set ys \<Longrightarrow> f x = g x) \<Longrightarrow> map_e f xs = map_e g ys"
  by (induction xs arbitrary: ys) (auto split: sum.splits)

lemma map_e_pure [loop_simps]:
  "(\<And>x. x \<in> set xs \<Longrightarrow> f x = Inr (g x)) \<Longrightarrow> map_e f xs = Inr (map g xs)"
  by (induction xs) auto

lemma map_e_total:
  "(\<And>x. x \<in> set xs \<Longrightarrow> \<exists>y. f x = Inr y \<and> R x y) \<Longrightarrow> \<exists>ys. map_e f xs = Inr ys \<and> list_all2 R xs ys"
proof (induction xs)
  case (Cons x xs)
  then obtain y ys where "f x = Inr y" "R x y" "map_e f xs = Inr ys" "list_all2 R xs ys"
    by fastforce
  then show ?case by simp
qed simp

lemma map_e_InrD: "map_e f xs = Inr ys \<Longrightarrow> y \<in> set ys \<Longrightarrow> \<exists>x\<in>set xs. f x = Inr y"
  by (induction xs arbitrary: ys) (auto split: sum.splits)

lemma list_all2_bex: "list_all2 (\<lambda>x y. p x = q y) xs ys \<Longrightarrow> (\<exists>y\<in>set ys. q y) \<longleftrightarrow> (\<exists>x\<in>set xs. p x)"
  by (induction rule: list_all2_induct) auto

lemma list_all2_ball: "list_all2 (\<lambda>x y. p x = q y) xs ys \<Longrightarrow> (\<forall>y\<in>set ys. q y) \<longleftrightarrow> (\<forall>x\<in>set xs. p x)"
  by (induction rule: list_all2_induct) auto

text \<open>Sequencing of fallible steps without state.\<close>

fun bind_e :: "'e + 'a \<Rightarrow> ('a \<Rightarrow> 'e + 'b) \<Rightarrow> 'e + 'b" where
  "bind_e (Inl e) k = Inl e"
| "bind_e (Inr x) k = k x"

lemma bind_e_cong [fundef_cong]:
  "m = n \<Longrightarrow> (\<And>x. n = Inr x \<Longrightarrow> f x = g x) \<Longrightarrow> bind_e m f = bind_e n g"
  by (cases n) auto

lemma bind_e_InrE:
  assumes "bind_e m k = Inr y"
  obtains x where "m = Inr x" "k x = Inr y"
  using assms by (cases m) auto

section \<open>State and exceptions\<close>

text \<open>
  A computation that reads and writes a world \<open>'w\<close> and may raise \<open>'e\<close>.  A raise keeps the writes
  made before it, as a Python exception does.
\<close>

type_synonym ('w, 'e, 'a) run = "'w \<Rightarrow> ('e + 'a) \<times> 'w"

definition ret :: "'a \<Rightarrow> ('w, 'e, 'a) run" where
  "ret x = (\<lambda>w. (Inr x, w))"

definition throw :: "'e \<Rightarrow> ('w, 'e, 'a) run" where
  "throw e = (\<lambda>w. (Inl e, w))"

definition bind_r :: "('w, 'e, 'a) run \<Rightarrow> ('a \<Rightarrow> ('w, 'e, 'b) run) \<Rightarrow> ('w, 'e, 'b) run" where
  "bind_r m k = (\<lambda>w. case m w of (Inl e, w') \<Rightarrow> (Inl e, w') | (Inr x, w') \<Rightarrow> k x w')"

definition lift_r :: "'e + 'a \<Rightarrow> ('w, 'e, 'a) run" where
  "lift_r r = (\<lambda>w. (r, w))"

text \<open>The loop \<open>for x in xs: if not f(x): return False\<close>, then \<open>return True\<close>; and its dual.\<close>

fun all_r :: "('a \<Rightarrow> ('w, 'e, bool) run) \<Rightarrow> 'a list \<Rightarrow> ('w, 'e, bool) run" where
  "all_r f [] w = (Inr True, w)"
| "all_r f (x # xs) w =
     (case f x w of
        (Inl e, w') \<Rightarrow> (Inl e, w')
      | (Inr b, w') \<Rightarrow> if b then all_r f xs w' else (Inr False, w'))"

fun any_r :: "('a \<Rightarrow> ('w, 'e, bool) run) \<Rightarrow> 'a list \<Rightarrow> ('w, 'e, bool) run" where
  "any_r f [] w = (Inr False, w)"
| "any_r f (x # xs) w =
     (case f x w of
        (Inl e, w') \<Rightarrow> (Inl e, w')
      | (Inr b, w') \<Rightarrow> if b then (Inr True, w') else any_r f xs w')"

lemma all_r_cong [fundef_cong]:
  "xs = ys \<Longrightarrow> w = v \<Longrightarrow> (\<And>x u. x \<in> set ys \<Longrightarrow> f x u = g x u) \<Longrightarrow> all_r f xs w = all_r g ys v"
  by (induction xs arbitrary: ys w v) (auto split: prod.splits sum.splits)

lemma any_r_cong [fundef_cong]:
  "xs = ys \<Longrightarrow> w = v \<Longrightarrow> (\<And>x u. x \<in> set ys \<Longrightarrow> f x u = g x u) \<Longrightarrow> any_r f xs w = any_r g ys v"
  by (induction xs arbitrary: ys w v) (auto split: prod.splits sum.splits)

lemma all_r_pure [loop_simps]:
  "(\<And>x u. x \<in> set xs \<Longrightarrow> f x u = (Inr (p x), u)) \<Longrightarrow> all_r f xs w = (Inr (\<forall>x\<in>set xs. p x), w)"
  by (induction xs arbitrary: w) auto

lemma any_r_pure [loop_simps]:
  "(\<And>x u. x \<in> set xs \<Longrightarrow> f x u = (Inr (p x), u)) \<Longrightarrow> any_r f xs w = (Inr (\<exists>x\<in>set xs. p x), w)"
  by (induction xs arbitrary: w) auto

lemmas run_defs [run_simps] = ret_def throw_def bind_r_def lift_r_def

section \<open>Strings\<close>

text \<open>\<open>s.split(c)\<close> for a one-character separator.\<close>

fun split_on :: "char \<Rightarrow> string \<Rightarrow> string list" where
  "split_on c [] = [[]]"
| "split_on c (x # xs) =
     (if x = c then [] # split_on c xs
      else (case split_on c xs of [] \<Rightarrow> [[x]] | y # ys \<Rightarrow> (x # y) # ys))"

lemma split_on_not_Nil [simp]: "split_on c s \<noteq> []"
  by (induction s) (auto split: list.splits)

text \<open>\<open>str(n)\<close> of a non-negative integer.\<close>

definition digit :: "nat \<Rightarrow> char" where
  "digit n = char_of (48 + n)"

fun nat_str :: "nat \<Rightarrow> string" where
  "nat_str n = (if n < 10 then [digit n] else nat_str (n div 10) @ [digit (n mod 10)])"

declare nat_str.simps [simp del]

definition int_str :: "int \<Rightarrow> string" where
  "int_str i = (if i < 0 then ''-'' @ nat_str (nat (- i)) else nat_str (nat i))"

definition is_digit :: "char \<Rightarrow> bool" where
  "is_digit c \<longleftrightarrow> 48 \<le> (of_char c :: nat) \<and> (of_char c :: nat) \<le> 57"

definition digit_val :: "char \<Rightarrow> nat" where
  "digit_val c = of_char c - 48"

lemma of_char_digit [simp]: "n < 10 \<Longrightarrow> (of_char (digit n) :: nat) = 48 + n"
  by (simp add: digit_def)

lemma is_digit_digit [simp]: "n < 10 \<Longrightarrow> is_digit (digit n)"
  by (simp add: is_digit_def)

lemma digit_val_digit [simp]: "n < 10 \<Longrightarrow> digit_val (digit n) = n"
  by (simp add: digit_val_def)

lemma nat_str_digits: "c \<in> set (nat_str n) \<Longrightarrow> is_digit c"
proof (induction n rule: nat_str.induct)
  case (1 n)
  then show ?case by (subst (asm) nat_str.simps) (auto split: if_splits)
qed

lemma nat_str_not_Nil [simp]: "nat_str n \<noteq> []"
  by (subst nat_str.simps) simp

text \<open>Reading the digits back: decimal printing is injective.\<close>

definition digits_val :: "string \<Rightarrow> nat" where
  "digits_val s = foldl (\<lambda>n c. 10 * n + digit_val c) 0 s"

lemma digits_val_nat_str [simp]: "digits_val (nat_str n) = n"
proof (induction n rule: nat_str.induct)
  case (1 n)
  then show ?case
    by (subst nat_str.simps) (auto simp: digits_val_def)
qed

lemma nat_str_inject [simp]: "nat_str m = nat_str n \<longleftrightarrow> m = n"
  by (metis digits_val_nat_str)

lemma colon_not_int_str: "CHR '':'' \<notin> set (int_str i)"
proof -
  have "\<not> is_digit (CHR '':'')" by (simp add: is_digit_def)
  then have "CHR '':'' \<notin> set (nat_str n)" for n using nat_str_digits by blast
  then show ?thesis by (simp add: int_str_def)
qed

lemma int_str_inject [simp]: "int_str i = int_str j \<longleftrightarrow> i = j"
proof
  have minus: "''-'' @ x \<noteq> nat_str n" for x n
  proof
    assume "''-'' @ x = nat_str n"
    then have "CHR ''-'' \<in> set (nat_str n)" by (metis append_Cons list.set_intros(1))
    then show False using nat_str_digits [of "CHR ''-''" n] by (simp add: is_digit_def)
  qed
  assume "int_str i = int_str j"
  then show "i = j" using minus minus [symmetric] by (auto simp: int_str_def split: if_splits)
qed simp

text \<open>A separator that does not occur in the last part splits a text in one way.\<close>

lemma last_sep_inject:
  assumes "a @ c # b = a' @ c # b'" "c \<notin> set b" "c \<notin> set b'"
  shows "a = a' \<and> b = b'"
proof -
  have "takeWhile (\<lambda>x. x \<noteq> c) (rev (u @ c # v)) = rev v" if "c \<notin> set v" for u v
    using that takeWhile_append2 [of "rev v" "\<lambda>x. x \<noteq> c" "c # rev u"] by auto
  then have "rev b = rev b'" using assms by metis
  then show ?thesis using assms(1) by simp
qed

section \<open>Association lists as Python dictionaries\<close>

text \<open>\<open>d.get(k)\<close> and \<open>k in d\<close> on a dictionary literal kept in insertion order.\<close>

abbreviation dget :: "('k \<times> 'v) list \<Rightarrow> 'k \<Rightarrow> 'v option" where
  "dget d k \<equiv> map_of d k"

definition dget_or :: "('k \<times> 'v) list \<Rightarrow> 'k \<Rightarrow> 'v \<Rightarrow> 'v" where
  "dget_or d k v = (case map_of d k of None \<Rightarrow> v | Some x \<Rightarrow> x)"

text \<open>\<open>d[k] = v\<close>: overwrite in place, or append at the end.\<close>

fun dset :: "'k \<Rightarrow> 'v \<Rightarrow> ('k \<times> 'v) list \<Rightarrow> ('k \<times> 'v) list" where
  "dset k v [] = [(k, v)]"
| "dset k v (p # ps) = (if fst p = k then (k, v) # ps else p # dset k v ps)"

lemma map_of_dset [simp]: "map_of (dset k v d) = (map_of d)(k \<mapsto> v)"
  by (induction d) auto

lemma fst_set_dset [simp]: "fst ` set (dset k v d) = insert k (fst ` set d)"
  by (induction d) auto

lemma set_dset_subset: "set (dset k v d) \<subseteq> insert (k, v) (set d)"
  by (induction d) auto

lemma distinct_dset [simp]: "distinct (map fst d) \<Longrightarrow> distinct (map fst (dset k v d))"
proof (induction d)
  case (Cons p d)
  then show ?case by (cases p) (auto simp: image_iff)
qed simp

end
