(* ===== verification/Py_Values.thy ===== *)
theory Py_Values
  imports Prelude "HOL-Library.List_Lexorder" "HOL-Library.Char_ord"
begin

text \<open>
  The Python values the modelled code handles: JSON-shaped values (policy condition configs,
  grant rows, request bodies), document field values, IEEE floats with their partial order,
  truthiness, equality and \<open>int()\<close>.  The text-level services of the Python runtime that the code
  applies to operator-supplied strings (\<open>re\<close>, \<open>float()\<close>, \<open>str()\<close>) are the fields of the record
  \<open>pylib\<close>, so every theorem holds for each of their behaviours.
\<close>

section \<open>Exceptions\<close>

datatype py_exn =
    IndexError | KeyError | TypeError | ValueError | AttributeError | ReError | RuntimeError
  | HttpError nat | IamError | AccessDeniedError | RateLimitExceededError | QuotaExceededError
  | TableNotFoundError | LookupError

section \<open>Floats\<close>

text \<open>A float is finite, an infinity or not a number; comparisons with the latter are false.\<close>

datatype pyfloat = Fin rat | PInf | NInf | NaN

fun flt :: "pyfloat \<Rightarrow> pyfloat \<Rightarrow> bool" where
  "flt NaN _ = False"
| "flt _ NaN = False"
| "flt NInf y = (y \<noteq> NInf)"
| "flt _ NInf = False"
| "flt PInf _ = False"
| "flt (Fin _) PInf = True"
| "flt (Fin a) (Fin b) = (a < b)"

definition feq :: "pyfloat \<Rightarrow> pyfloat \<Rightarrow> bool" where
  "feq a b \<longleftrightarrow> a = b \<and> a \<noteq> NaN"

lemma flt_irrefl [simp]: "\<not> flt a a"
  by (cases a) auto

lemma flt_trans: "flt a b \<Longrightarrow> flt b c \<Longrightarrow> flt a c"
  by (cases a; cases b; cases c) auto

lemma flt_total: "a \<noteq> NaN \<Longrightarrow> b \<noteq> NaN \<Longrightarrow> flt a b \<or> a = b \<or> flt b a"
  by (cases a; cases b) auto

section \<open>JSON values\<close>

datatype scalar = SNone | SBool bool | SInt int | SFloat pyfloat | SStr string

datatype json = JScalar scalar | JList "json list" | JObj "(string \<times> json) list"

abbreviation JNone :: json where "JNone \<equiv> JScalar SNone"
abbreviation JBool :: "bool \<Rightarrow> json" where "JBool b \<equiv> JScalar (SBool b)"
abbreviation JInt :: "int \<Rightarrow> json" where "JInt i \<equiv> JScalar (SInt i)"
abbreviation JStr :: "string \<Rightarrow> json" where "JStr s \<equiv> JScalar (SStr s)"

type_synonym dict = "(string \<times> json) list"

text \<open>\<open>bool(x)\<close>.\<close>

fun truthy :: "json \<Rightarrow> bool" where
  "truthy (JScalar SNone) = False"
| "truthy (JScalar (SBool b)) = b"
| "truthy (JScalar (SInt i)) = (i \<noteq> 0)"
| "truthy (JScalar (SFloat f)) = (f \<noteq> Fin 0)"
| "truthy (JScalar (SStr s)) = (s \<noteq> [])"
| "truthy (JList xs) = (xs \<noteq> [])"
| "truthy (JObj kvs) = (kvs \<noteq> [])"

text \<open>\<open>d.get(k)\<close>, with a missing key read as \<open>None\<close>, and \<open>d.get(k, v)\<close>.\<close>

definition jget :: "dict \<Rightarrow> string \<Rightarrow> json" where
  "jget d k = (case map_of d k of None \<Rightarrow> JNone | Some v \<Rightarrow> v)"

abbreviation jget_or :: "dict \<Rightarrow> string \<Rightarrow> json \<Rightarrow> json" where
  "jget_or d k v \<equiv> dget_or d k v"

text \<open>Numeric reading of a scalar: booleans are the integers 0 and 1.\<close>

fun num_of :: "scalar \<Rightarrow> pyfloat option" where
  "num_of (SBool b) = Some (Fin (if b then 1 else 0))"
| "num_of (SInt i) = Some (Fin (of_int i))"
| "num_of (SFloat f) = Some f"
| "num_of _ = None"

text \<open>\<open>==\<close> on scalars and on JSON values.\<close>

fun scalar_eq :: "scalar \<Rightarrow> scalar \<Rightarrow> bool" where
  "scalar_eq SNone y = (y = SNone)"
| "scalar_eq (SStr s) y = (y = SStr s)"
| "scalar_eq x y = (case (num_of x, num_of y) of (Some a, Some b) \<Rightarrow> feq a b | _ \<Rightarrow> False)"

fun json_eq :: "json \<Rightarrow> json \<Rightarrow> bool" where
  "json_eq (JScalar x) (JScalar y) = scalar_eq x y"
| "json_eq (JList xs) (JList ys) = list_all2 json_eq xs ys"
| "json_eq (JObj kvs) (JObj kws) =
     (length kvs = length kws \<and>
      list_all (\<lambda>kv. case map_of kws (fst kv) of None \<Rightarrow> False | Some w \<Rightarrow> json_eq (snd kv) w) kvs)"
| "json_eq _ _ = False"

text \<open>\<open>x in xs\<close> for a list.\<close>

definition json_in :: "json \<Rightarrow> json list \<Rightarrow> bool" where
  "json_in x xs = list_ex (json_eq x) xs"

section \<open>Documents\<close>

text \<open>
  A document of the access plane maps field names to scalars or to arrays of scalars;
  \<open>document.get(f)\<close> reads a missing field as \<open>None\<close>.
\<close>

datatype dval = DScalar scalar | DList "scalar list"

type_synonym doc = "string \<Rightarrow> dval option"

definition doc_get :: "doc \<Rightarrow> string \<Rightarrow> dval" where
  "doc_get d f = (case d f of None \<Rightarrow> DScalar SNone | Some v \<Rightarrow> v)"

fun dval_json :: "dval \<Rightarrow> json" where
  "dval_json (DScalar s) = JScalar s"
| "dval_json (DList xs) = JList (map JScalar xs)"

section \<open>Runtime services applied to text\<close>

text \<open>
  The three matchers return \<open>None\<close> where \<open>re\<close> raises \<open>re.error\<close> (an invalid pattern);
  \<open>lib_float\<close> returns \<open>None\<close> where \<open>float()\<close> raises, \<open>lib_int\<close> is \<open>int()\<close> with its exceptions.
\<close>

record pylib =
  re_match :: "string \<Rightarrow> string \<Rightarrow> bool option"
  re_search :: "string \<Rightarrow> string \<Rightarrow> bool option"
  re_fullmatch :: "string \<Rightarrow> string \<Rightarrow> bool option"
  lib_float :: "json \<Rightarrow> pyfloat option"
  lib_int :: "json \<Rightarrow> py_exn + int"
  lib_str :: "json \<Rightarrow> string"

text \<open>
  A concrete library: patterns are literal text or the wildcard \<open>.*\<close>, numbers are read from
  numeric values and from decimal digits.  It instantiates the parameter in the examples.
\<close>

definition plain_lib :: pylib where
  "plain_lib = \<lparr>
     re_match = (\<lambda>p s. Some (p = ''.*'' \<or> prefix p s)),
     re_search = (\<lambda>p s. Some (p = ''.*'' \<or> sublist p s)),
     re_fullmatch = (\<lambda>p s. Some (p = ''.*'' \<or> p = s)),
     lib_float = (\<lambda>j. case j of
        JScalar (SStr s) \<Rightarrow>
          if s = ''nan'' then Some NaN
          else if s \<noteq> [] \<and> list_all is_digit s then Some (Fin (of_nat (digits_val s))) else None
      | JScalar x \<Rightarrow> num_of x
      | _ \<Rightarrow> None),
     lib_int = (\<lambda>j. case j of
        JScalar (SInt i) \<Rightarrow> Inr i
      | JScalar (SBool b) \<Rightarrow> Inr (if b then 1 else 0)
      | JScalar (SStr s) \<Rightarrow>
          if s \<noteq> [] \<and> list_all is_digit s then Inr (int (digits_val s)) else Inl ValueError
      | JScalar (SFloat (Fin r)) \<Rightarrow> Inr (if r < 0 then - \<lfloor>- r\<rfloor> else \<lfloor>r\<rfloor>)
      | JScalar (SFloat _) \<Rightarrow> Inl ValueError
      | _ \<Rightarrow> Inl TypeError),
     lib_str = (\<lambda>j. case j of
        JScalar (SStr s) \<Rightarrow> s
      | JScalar (SInt i) \<Rightarrow> int_str i
      | JScalar (SBool b) \<Rightarrow> (if b then ''True'' else ''False'')
      | JScalar SNone \<Rightarrow> ''None''
      | _ \<Rightarrow> ''?'')\<rparr>"

section \<open>Size facts for recursion over nested configurations\<close>

lemma size_map_of [termination_simp]:
  "map_of kvs k = Some v \<Longrightarrow> size v < size (JObj kvs)"
  by (induction kvs) (auto split: if_splits)

lemma size_jget:
  "jget d k = v \<Longrightarrow> v \<noteq> JNone \<Longrightarrow> size v < size (JObj d)"
  by (auto simp: jget_def split: option.splits dest: size_map_of)

lemma size_jlist_mem: "x \<in> set xs \<Longrightarrow> size x < size (JList xs)"
  by (induction xs) auto

end
