(* ===== verification/Access_Filter.thy ===== *)
theory Access_Filter
  imports Py_Values
begin

text \<open>
  The neutral read scope of \<open>models/protocols/access_filter.py\<close>: field and range predicates, clauses
  (conjunctions), and the filter with its allow side, its deny side and the exclusion-union of
  complete sub-filters.  \<open>admits\<close> is the reference semantics every storage driver mirrors.  An
  index into \<open>bounds\<close> that is out of range raises, so \<open>matches\<close> and \<open>admits\<close> return \<open>bool option\<close>; the
  contract on \<open>bounds\<close> is \<open>wf_pred\<close>.
\<close>

section \<open>Predicates and clauses\<close>

datatype predicate =
    FieldPredicate (fp_field: string) (fp_vals: "string list")
  | RangePredicate (rp_field: string) (rp_op: string) (rp_bounds: "string list") (rp_kind: string)

datatype clause = AccessClause (predicates: "predicate list")

text \<open>\<open>FieldPredicate.matches\<close>: membership for a scalar, non-empty intersection for an array.\<close>

fun scalar_in :: "scalar \<Rightarrow> string list \<Rightarrow> bool" where
  "scalar_in (SStr s) vs = (s \<in> set vs)"
| "scalar_in _ vs = False"

lemma scalar_in_iff: "scalar_in x vs \<longleftrightarrow> (\<exists>v\<in>set vs. x = SStr v)"
  by (cases x) auto

definition field_matches :: "string \<Rightarrow> string list \<Rightarrow> doc \<Rightarrow> bool" where
  "field_matches f vs d =
     (case doc_get d f of
        DList xs \<Rightarrow> list_ex (\<lambda>v. scalar_in v vs) xs
      | DScalar s \<Rightarrow> scalar_in s vs)"

text \<open>The nested \<open>_cmp\<close>: numeric when both sides parse, lexicographic otherwise.\<close>

definition range_cmp :: "pylib \<Rightarrow> string \<Rightarrow> string \<Rightarrow> int" where
  "range_cmp L a b =
     (case (lib_float L (JStr a), lib_float L (JStr b)) of
        (Some fa, Some fb) \<Rightarrow> of_bool (flt fb fa) - of_bool (flt fa fb)
      | _ \<Rightarrow> of_bool (b < a) - of_bool (a < b))"

text \<open>\<open>xs[i]\<close> of a tuple, \<open>None\<close> where Python raises \<open>IndexError\<close>.\<close>

definition tuple_get :: "'a list \<Rightarrow> nat \<Rightarrow> 'a option" where
  "tuple_get xs i = (if i < length xs then Some (xs ! i) else None)"

text \<open>\<open>RangePredicate.matches\<close>.\<close>

definition range_matches :: "pylib \<Rightarrow> string \<Rightarrow> string \<Rightarrow> string list \<Rightarrow> doc \<Rightarrow> bool option" where
  "range_matches L f opr bounds d =
     (case doc_get d f of
        DScalar SNone \<Rightarrow> Some False
      | v \<Rightarrow>
        (let s = lib_str L (dval_json v) in
         if opr = ''lte'' then
           map_option (\<lambda>b. range_cmp L s b \<le> 0) (tuple_get bounds 0)
         else if opr = ''gte'' then
           map_option (\<lambda>b. 0 \<le> range_cmp L s b) (tuple_get bounds 0)
         else if opr = ''between'' then
           (case tuple_get bounds 0 of
              None \<Rightarrow> None
            | Some lo \<Rightarrow>
                if 0 \<le> range_cmp L s lo
                then map_option (\<lambda>hi. range_cmp L s hi \<le> 0) (tuple_get bounds 1)
                else Some False)
         else Some False))"

lemma range_matches_scalar:
  assumes "doc_get d f = DScalar x" "x \<noteq> SNone"
  shows "range_matches L f ''lte'' [b] d = Some (range_cmp L (lib_str L (JScalar x)) b \<le> 0)"
    and "range_matches L f ''gte'' [b] d = Some (0 \<le> range_cmp L (lib_str L (JScalar x)) b)"
    and "range_matches L f ''between'' [b, h] d =
           Some (0 \<le> range_cmp L (lib_str L (JScalar x)) b \<and> range_cmp L (lib_str L (JScalar x)) h \<le> 0)"
    and "opr \<notin> {''lte'', ''gte'', ''between''} \<Longrightarrow> range_matches L f opr bs d = Some False"
  using assms by (cases x; simp add: range_matches_def tuple_get_def Let_def)+

fun pred_matches :: "pylib \<Rightarrow> predicate \<Rightarrow> doc \<Rightarrow> bool option" where
  "pred_matches L (FieldPredicate f vs) d = Some (field_matches f vs d)"
| "pred_matches L (RangePredicate f opr bounds kind) d = range_matches L f opr bounds d"

definition clause_matches :: "pylib \<Rightarrow> clause \<Rightarrow> doc \<Rightarrow> bool option" where
  "clause_matches L c d = all_m (\<lambda>p. pred_matches L p d) (predicates c)"

section \<open>The filter\<close>

datatype access_filter =
  AccessFilter (deny_all: bool) (allow_all: bool) (allow: "clause list") (deny: "clause list")
    (uncompilable: bool) (union_subs: "access_filter list")

definition deny_everything :: "bool \<Rightarrow> access_filter" where
  "deny_everything unc = AccessFilter True False [] [] unc []"

definition allow_everything :: access_filter where
  "allow_everything = AccessFilter False True [] [] False []"

definition from_clauses :: "clause list \<Rightarrow> clause list \<Rightarrow> bool \<Rightarrow> access_filter" where
  "from_clauses al de unc =
     (if al = [] then deny_everything unc else AccessFilter False False al de unc [])"

fun set_uncompilable :: "access_filter \<Rightarrow> access_filter" where
  "set_uncompilable (AccessFilter da aa al de unc un) = AccessFilter da aa al de True un"

definition union_of :: "access_filter list \<Rightarrow> access_filter" where
  "union_of subs =
     (let any_unc = list_ex uncompilable subs;
          live = filter (\<lambda>s. \<not> deny_all s) subs
      in case live of
           [] \<Rightarrow> deny_everything any_unc
         | [sub] \<Rightarrow> if any_unc \<and> \<not> uncompilable sub then set_uncompilable sub else sub
         | _ \<Rightarrow> AccessFilter False False [] [] any_unc live)"

definition is_unconditional :: "access_filter \<Rightarrow> bool" where
  "is_unconditional f \<longleftrightarrow>
     allow_all f \<and> \<not> deny_all f \<and> deny f = [] \<and> union_subs f = []"

fun admits :: "pylib \<Rightarrow> access_filter \<Rightarrow> doc \<Rightarrow> bool option" where
  "admits L (AccessFilter da aa al de unc un) d =
     (if da then Some False
      else if un \<noteq> [] then any_m (\<lambda>s. admits L s d) un
      else case any_m (\<lambda>c. clause_matches L c d) de of
             None \<Rightarrow> None
           | Some b \<Rightarrow>
               if b then Some False
               else if aa then Some True
               else any_m (\<lambda>c. clause_matches L c d) al)"

section \<open>Well-formed filters never raise\<close>

fun wf_pred :: "predicate \<Rightarrow> bool" where
  "wf_pred (FieldPredicate f vs) = True"
| "wf_pred (RangePredicate f opr bounds kind) =
     ((opr \<in> {''lte'', ''gte''} \<longrightarrow> length bounds = 1) \<and>
      (opr = ''between'' \<longrightarrow> length bounds = 2))"

definition wf_clause :: "clause \<Rightarrow> bool" where
  "wf_clause c \<longleftrightarrow> list_all wf_pred (predicates c)"

fun wf_filter :: "access_filter \<Rightarrow> bool" where
  "wf_filter (AccessFilter da aa al de unc un) =
     (list_all wf_clause al \<and> list_all wf_clause de \<and> list_all wf_filter un)"

text \<open>The truth value of a predicate, a clause and a filter where nothing raises.\<close>

definition pred_holds :: "pylib \<Rightarrow> predicate \<Rightarrow> doc \<Rightarrow> bool" where
  "pred_holds L p d \<longleftrightarrow> pred_matches L p d = Some True"

definition clause_holds :: "pylib \<Rightarrow> clause \<Rightarrow> doc \<Rightarrow> bool" where
  "clause_holds L c d \<longleftrightarrow> (\<forall>p\<in>set (predicates c). pred_holds L p d)"

text \<open>The formula of the module documentation.\<close>

fun visible :: "pylib \<Rightarrow> access_filter \<Rightarrow> doc \<Rightarrow> bool" where
  "visible L (AccessFilter da aa al de unc un) d \<longleftrightarrow>
     \<not> da \<and>
     (if un \<noteq> [] then list_ex (\<lambda>s. visible L s d) un
      else (aa \<or> list_ex (\<lambda>c. clause_holds L c d) al) \<and> \<not> list_ex (\<lambda>c. clause_holds L c d) de)"

lemma range_matches_wf:
  assumes "wf_pred (RangePredicate f opr bs k)"
  shows "\<exists>b. range_matches L f opr bs d = Some b"
  using assms
  by (auto simp: range_matches_def tuple_get_def Let_def split: dval.splits scalar.splits)

lemma pred_matches_wf:
  assumes "wf_pred p"
  shows "pred_matches L p d = Some (pred_holds L p d)"
proof (cases p)
  case (FieldPredicate f vs)
  then show ?thesis by (simp add: pred_holds_def)
next
  case (RangePredicate f opr bs k)
  then show ?thesis
    using range_matches_wf [of f opr bs k L d] assms by (auto simp: pred_holds_def)
qed

lemma clause_matches_wf: "wf_clause c \<Longrightarrow> clause_matches L c d = Some (clause_holds L c d)"
  unfolding clause_matches_def clause_holds_def
  by (rule all_m_pure) (auto simp: wf_clause_def list_all_iff pred_matches_wf)

lemma any_clause_wf:
  "list_all wf_clause cs \<Longrightarrow>
   any_m (\<lambda>c. clause_matches L c d) cs = Some (list_ex (\<lambda>c. clause_holds L c d) cs)"
  by (subst any_m_pure [where p = "\<lambda>c. clause_holds L c d"])
     (auto simp: list_all_iff list_ex_iff clause_matches_wf)

lemma admits_visible: "wf_filter f \<Longrightarrow> admits L f d = Some (visible L f d)"
proof (induction f rule: wf_filter.induct)
  case (1 da aa al de unc un)
  then have "un \<noteq> [] \<Longrightarrow> any_m (\<lambda>s. admits L s d) un = Some (list_ex (\<lambda>s. visible L s d) un)"
    by (subst any_m_pure [where p = "\<lambda>s. visible L s d"]) (auto simp: list_all_iff list_ex_iff)
  with 1 show ?case
    by (auto simp: any_clause_wf)
qed

section \<open>Deny precedence, fail-closed constructors and the exclusion-union\<close>

lemma wf_deny_everything [simp]: "wf_filter (deny_everything u)"
  by (simp add: deny_everything_def)

lemma visible_deny_everything [simp]: "\<not> visible L (deny_everything u) d"
  by (simp add: deny_everything_def)

lemma deny_all_not_visible: "deny_all f \<Longrightarrow> \<not> visible L f d"
  by (cases f) simp

lemma admits_deny_all: "deny_all f \<Longrightarrow> admits L f d = Some False"
  by (cases f) simp

lemma admits_set_uncompilable [simp]: "admits L (set_uncompilable f) d = admits L f d"
  by (cases f) simp

lemma visible_set_uncompilable [simp]: "visible L (set_uncompilable f) d = visible L f d"
  by (cases f) simp

lemma wf_set_uncompilable [simp]: "wf_filter (set_uncompilable f) = wf_filter f"
  by (cases f) simp

lemma wf_union_of: "list_all wf_filter subs \<Longrightarrow> wf_filter (union_of subs)"
  by (auto simp: union_of_def Let_def list_all_iff filter_eq_Cons_iff split: list.splits
      dest: arg_cong [where f = set])

lemma visible_union_of: "visible L (union_of subs) d \<longleftrightarrow> (\<exists>s\<in>set subs. visible L s d)"
proof -
  let ?live = "filter (\<lambda>s. \<not> deny_all s) subs"
  have "(\<exists>s\<in>set subs. visible L s d) \<longleftrightarrow> (\<exists>s\<in>set ?live. visible L s d)"
    by (auto dest: deny_all_not_visible)
  also have "\<dots> \<longleftrightarrow> visible L (union_of subs) d"
    by (cases ?live rule: list.exhaust; cases "tl ?live")
       (auto simp: union_of_def Let_def list_ex_iff)
  finally show ?thesis by simp
qed

text \<open>
  The exclusion-union is exactly the disjunction of its sub-filters: for every list of
  sub-filters and every document, \<open>admits\<close> of \<open>union_of\<close> is the short-circuiting \<open>any\<close> over the
  sub-filters' own \<open>admits\<close>.  Dropping the \<open>deny_everything\<close> branches, unwrapping a lone survivor and
  moving the \<open>uncompilable\<close> flag onto it change no decision (exceptions included), so one
  collection's deny clauses never reach another sub-filter.
\<close>

theorem union_of_admits_any:
  "admits L (union_of subs) d = any_m (\<lambda>s. admits L s d) subs"
proof -
  let ?live = "filter (\<lambda>s. \<not> deny_all s) subs"
  have "any_m (\<lambda>s. admits L s d) ?live = any_m (\<lambda>s. admits L s d) subs"
    by (rule any_m_filter) (simp add: admits_deny_all)
  moreover have "admits L (union_of subs) d = any_m (\<lambda>s. admits L s d) ?live"
    by (auto simp: union_of_def Let_def any_m_single deny_everything_def split: list.splits option.splits)
  ultimately show ?thesis by simp
qed

text \<open>
  On well-formed filters (\<open>bounds\<close> of the arity the range operator needs, which the compilers
  enforce) \<open>admits\<close> never raises and computes the documented formula: not \<open>deny_all\<close>, and either
  some union branch is visible, or no deny clause holds and the allow side (\<open>allow_all\<close> or one
  allow clause) does.  Deny clauses have precedence over every allow clause.
\<close>

theorem admits_wf_formula:
  assumes "wf_filter f"
  shows "admits L f d = Some (visible L f d)"
  using assms by (rule admits_visible)

theorem admits_wf_formula_witness:
  "wf_filter (AccessFilter False True [] [AccessClause [RangePredicate ''_attrs.age'' ''gte'' [''18''] ''numeric'']] False [])
   \<and> admits plain_lib (AccessFilter False True [] [AccessClause [RangePredicate ''_attrs.age'' ''gte'' [''18''] ''numeric'']] False [])
       [''_attrs.age'' \<mapsto> DScalar (SInt 20)] = Some False"
proof -
  let ?f = "AccessFilter False True [] [AccessClause [RangePredicate ''_attrs.age'' ''gte'' [''18''] ''numeric'']] False []"
  have wf: "wf_filter ?f" by (simp add: wf_clause_def)
  have "\<not> visible plain_lib ?f [''_attrs.age'' \<mapsto> DScalar (SInt 20)]" by code_simp
  with admits_wf_formula [OF wf, of plain_lib "[''_attrs.age'' \<mapsto> DScalar (SInt 20)]"] wf
  show ?thesis by simp
qed

end
