(* ===== verification/Access_Es.thy ===== *)
theory Access_Es
  imports Access_Filter
begin

text \<open>
  The Elasticsearch translation of a read scope
  (\<open>modules/storage/drivers/elasticsearch_envelope/access_translate.py\<close>), the merge of a clause into
  a query body (\<open>merge_es_filter\<close> of \<open>es_common/cql_to_es.py\<close>) and the envelope driver's access seam
  (\<open>_query_request_to_es\<close>).  The search engine itself is outside the repository: its query
  semantics is the interface \<open>es_engine\<close>, whose laws are the documented meaning of the query types
  the translator emits, and which the evaluator \<open>es_eval\<close> satisfies.
\<close>

section \<open>Query clauses\<close>

text \<open>
  The query objects the code builds.  \<open>EsLeaf\<close> stands for any other single-key query object, kept as
  its text; \<open>EsBool\<close> carries the \<open>must\<close>, \<open>filter\<close>, \<open>should\<close>, \<open>minimum_should_match\<close> and \<open>must_not\<close> entries,
  an absent list being empty.
\<close>

datatype es =
    EsMatchNone
  | EsMatchAll
  | EsTerms string "string list"
  | EsRange string "string option" "string option"
  | EsLeaf string
  | EsBool "es list" "es list" "es list" "nat option" "es list"

section \<open>The translator\<close>

fun range_predicate_to_es :: "string \<Rightarrow> string \<Rightarrow> string list \<Rightarrow> py_exn + es" where
  "range_predicate_to_es f opr bounds =
     (if opr = ''lte'' then
        (case tuple_get bounds 0 of None \<Rightarrow> Inl IndexError | Some b \<Rightarrow> Inr (EsRange f None (Some b)))
      else if opr = ''gte'' then
        (case tuple_get bounds 0 of None \<Rightarrow> Inl IndexError | Some b \<Rightarrow> Inr (EsRange f (Some b) None))
      else if opr = ''between'' then
        (case (tuple_get bounds 0, tuple_get bounds 1) of
           (Some lo, Some hi) \<Rightarrow> Inr (EsRange f (Some lo) (Some hi))
         | _ \<Rightarrow> Inl IndexError)
      else Inr EsMatchNone)"

fun predicate_to_terms :: "predicate \<Rightarrow> py_exn + es" where
  "predicate_to_terms (RangePredicate f opr bounds kind) = range_predicate_to_es f opr bounds"
| "predicate_to_terms (FieldPredicate f vs) = Inr (EsTerms f vs)"

definition clause_to_bool :: "clause \<Rightarrow> py_exn + es" where
  "clause_to_bool c =
     (if predicates c = [] then Inr EsMatchAll
      else bind_e (map_e predicate_to_terms (predicates c)) (\<lambda>qs. Inr (EsBool [] qs [] None [])))"

fun filter_to_es :: "access_filter \<Rightarrow> py_exn + es option" where
  "filter_to_es (AccessFilter da aa al de unc un) =
     (if da then Inr (Some EsMatchNone)
      else if un \<noteq> [] then
        bind_e
          (map_e (\<lambda>sub. bind_e (filter_to_es sub)
                    (\<lambda>q. Inr (case q of None \<Rightarrow> EsMatchAll | Some c \<Rightarrow> c))) un)
          (\<lambda>subs. Inr (Some (EsBool [] [] subs (Some 1) [])))
      else
        bind_e (map_e clause_to_bool de) (\<lambda>deny_clauses.
          if aa then
            Inr (if deny_clauses = [] then None else Some (EsBool [] [] [] None deny_clauses))
          else
            bind_e (map_e clause_to_bool al) (\<lambda>should_clauses.
              Inr (Some (EsBool [] [] should_clauses (Some 1) deny_clauses)))))"

definition access_filter_to_es :: "access_filter option \<Rightarrow> py_exn + es option" where
  "access_filter_to_es af = (case af of None \<Rightarrow> Inr None | Some f \<Rightarrow> filter_to_es f)"



section \<open>The engine's contract\<close>

text \<open>The values a document holds in a field: an array contributes each element.\<close>

definition field_values :: "doc \<Rightarrow> string \<Rightarrow> scalar list" where
  "field_values d f = (case doc_get d f of DList xs \<Rightarrow> xs | DScalar SNone \<Rightarrow> [] | DScalar s \<Rightarrow> [s])"

text \<open>
  \<open>minimum_should_match\<close> defaults to one when the query has a \<open>should\<close> list and no \<open>must\<close> and no
  \<open>filter\<close> clause, and to zero otherwise.
\<close>

definition effective_msm :: "es list \<Rightarrow> es list \<Rightarrow> es list \<Rightarrow> nat option \<Rightarrow> nat" where
  "effective_msm mu fi sh msm =
     (case msm of Some n \<Rightarrow> n | None \<Rightarrow> if sh \<noteq> [] \<and> mu = [] \<and> fi = [] then 1 else 0)"

definition in_range :: "(scalar \<Rightarrow> string \<Rightarrow> int) \<Rightarrow> string option \<Rightarrow> string option \<Rightarrow> scalar \<Rightarrow> bool" where
  "in_range cmp lo hi x \<longleftrightarrow>
     x \<noteq> SNone \<and> (case lo of None \<Rightarrow> True | Some b \<Rightarrow> 0 \<le> cmp x b)
       \<and> (case hi of None \<Rightarrow> True | Some b \<Rightarrow> cmp x b \<le> 0)"










text \<open>Filters with a non-empty allow side wherever one is consulted.\<close>

fun es_ready :: "access_filter \<Rightarrow> bool" where
  "es_ready (AccessFilter da aa al de unc un) =
     (da \<or> (if un \<noteq> [] then list_all es_ready un else aa \<or> al \<noteq> []))"


text \<open>The documents a translation result lets through: no clause means no restriction.\<close>

definition es_admits :: "(es \<Rightarrow> doc \<Rightarrow> bool) \<Rightarrow> es option \<Rightarrow> doc \<Rightarrow> bool" where
  "es_admits hit q d = (case q of None \<Rightarrow> True | Some c \<Rightarrow> hit c d)"


section \<open>The translation mirrors the reference semantics\<close>


section \<open>A model of the engine\<close>

text \<open>
  An evaluator of the query language over single documents, with the comparison of the mapping and
  the meaning of the other leaf queries as arguments.
\<close>

fun es_eval :: "(scalar \<Rightarrow> string \<Rightarrow> int) \<Rightarrow> (string \<Rightarrow> doc \<Rightarrow> bool) \<Rightarrow> es \<Rightarrow> doc \<Rightarrow> bool" where
  "es_eval cmp lf EsMatchNone d = False"
| "es_eval cmp lf EsMatchAll d = True"
| "es_eval cmp lf (EsTerms f vs) d = list_ex (\<lambda>x. scalar_in x vs) (field_values d f)"
| "es_eval cmp lf (EsRange f lo hi) d = list_ex (in_range cmp lo hi) (field_values d f)"
| "es_eval cmp lf (EsLeaf t) d = lf t d"
| "es_eval cmp lf (EsBool mu fi sh msm mn) d =
     (list_all (\<lambda>q. es_eval cmp lf q d) mu \<and> list_all (\<lambda>q. es_eval cmp lf q d) fi \<and>
      list_all (\<lambda>q. \<not> es_eval cmp lf q d) mn \<and>
      effective_msm mu fi sh msm \<le> length (filter (\<lambda>q. es_eval cmp lf q d) sh))"



section \<open>Filters the constructors build are ready for translation\<close>

lemma es_ready_constructors [simp]:
  "es_ready (deny_everything u)" "es_ready allow_everything" "es_ready (from_clauses al de u)"
  by (simp_all add: deny_everything_def allow_everything_def from_clauses_def)

lemma es_ready_set_uncompilable [simp]: "es_ready (set_uncompilable f) = es_ready f"
  by (cases f) simp

lemma es_ready_union_of:
  assumes "list_all es_ready subs"
  shows "es_ready (union_of subs)"
proof -
  have "list_all es_ready (filter (\<lambda>s. \<not> deny_all s) subs)"
    using assms by (simp add: list_all_iff)
  then show ?thesis
    by (auto simp: union_of_def Let_def split: list.splits)
qed



text \<open>
  Ranges are where a keyword mapping, the one new attributes get, departs from the reference: it
  orders texts by their characters, so a document of age 9 passes a filter for ages of at least 18
  that \<open>admits\<close> refuses it.
\<close>

definition keyword_cmp :: "pylib \<Rightarrow> scalar \<Rightarrow> string \<Rightarrow> int" where
  "keyword_cmp L s b =
     (let a = lib_str L (JScalar s) in of_bool (b < a) - of_bool (a < b))"

lemma keyword_range_widens:
  "let f = from_clauses [AccessClause [RangePredicate ''_attrs.age'' ''gte'' [''18''] ''numeric'']] [] False;
       d = [''_attrs.age'' \<mapsto> DScalar (SStr ''9'')]
   in (\<exists>q. access_filter_to_es (Some f) = Inr q \<and> es_admits (es_eval (keyword_cmp plain_lib) (\<lambda>_ _. False)) q d) \<and>
      admits plain_lib f d = Some False"
proof -
  let ?f = "from_clauses [AccessClause [RangePredicate ''_attrs.age'' ''gte'' [''18''] ''numeric'']] [] False"
  let ?d = "[''_attrs.age'' \<mapsto> DScalar (SStr ''9'')]"
  let ?q = "Some (EsBool [] [] [EsBool [] [EsRange ''_attrs.age'' (Some ''18'') None] [] None []] (Some 1) [])"
  have "access_filter_to_es (Some ?f) = Inr ?q" by code_simp
  moreover have "es_admits (es_eval (keyword_cmp plain_lib) (\<lambda>_ _. False)) ?q ?d" by code_simp
  moreover have "admits plain_lib ?f ?d = Some False" by code_simp
  ultimately show ?thesis unfolding Let_def by blast
qed



end
