(* ===== verification/Access_Pg.thy ===== *)
theory Access_Pg
  imports Access_Filter
begin

text \<open>
  The PostgreSQL translation of a read scope (\<open>modules/storage/access_filter_pg.py\<close>), down to the
  exact text of the SQL fragment and its bind parameters, and the sidecar hook that appends it to a
  query (\<open>apply_query_context\<close> of \<open>pg_sidecars/access_envelope.py\<close>).  The fragments are related to an
  abstract syntax of SQL conditions, over which the meaning of the fragment is compared with
  \<open>admits\<close>.
\<close>

section \<open>The translator\<close>

datatype bindval = BindList "string list" | BindStr string

type_synonym binds = "(string \<times> bindval) list"

definition attrs_prefix :: string where
  "attrs_prefix = ''_attrs.''"

definition safe_char :: "char \<Rightarrow> bool" where
  "safe_char c \<longleftrightarrow>
     (let n = (of_char c :: nat) in
      65 \<le> n \<and> n \<le> 90 \<or> 97 \<le> n \<and> n \<le> 122 \<or> 48 \<le> n \<and> n \<le> 57 \<or> n = 95)"

text \<open>\<open>_SAFE_ATTR_KEY_RE.fullmatch\<close> for the pattern \<open>[A-Za-z0-9_]+\<close>.\<close>

definition safe_attr_key :: "string \<Rightarrow> bool" where
  "safe_attr_key k \<longleftrightarrow> k \<noteq> [] \<and> list_all safe_char k"

definition first_class_cols :: "string list" where
  "first_class_cols = [''catalog_id'', ''collection_id'', ''visibility'', ''owner'']"

definition quoted :: "string \<Rightarrow> string" where
  "quoted s = CHR 0x27 # s @ [CHR 0x27]"

definition jsonb_path :: "string \<Rightarrow> string \<Rightarrow> string" where
  "jsonb_path col key = ''('' @ col @ ''->'' @ quoted ''attrs'' @ ''->>'' @ quoted key @ '')''"

definition cast_of :: "string \<Rightarrow> string" where
  "cast_of kind = (if kind = ''timestamp'' then ''TIMESTAMPTZ'' else ''NUMERIC'')"

definition cast_sql :: "string \<Rightarrow> string \<Rightarrow> string" where
  "cast_sql e ty = ''CAST('' @ e @ '' AS '' @ ty @ '')''"

definition range_predicate_to_sql ::
  "string \<Rightarrow> string \<Rightarrow> string list \<Rightarrow> string \<Rightarrow> string \<Rightarrow> binds \<Rightarrow> string \<Rightarrow> string option \<times> binds" where
  "range_predicate_to_sql f opr bounds kind param_prefix params col =
     (if \<not> prefix attrs_prefix f then (None, params)
      else
        let attr_key = drop (length attrs_prefix) f in
        if attr_key = [] \<or> \<not> safe_attr_key attr_key then (None, params)
        else
          let ty = cast_of kind;
              path = cast_sql (jsonb_path col attr_key) ty;
              base = param_prefix @ ''_'' @ attr_key in
          if opr = ''lte'' then
            if length bounds \<noteq> 1 then (None, params)
            else (let p = base @ ''_lte'' in
                  (Some (path @ '' <= '' @ cast_sql ('':'' @ p) ty),
                   dset p (BindStr (bounds ! 0)) params))
          else if opr = ''gte'' then
            if length bounds \<noteq> 1 then (None, params)
            else (let p = base @ ''_gte'' in
                  (Some (path @ '' >= '' @ cast_sql ('':'' @ p) ty),
                   dset p (BindStr (bounds ! 0)) params))
          else if opr = ''between'' then
            if length bounds \<noteq> 2 then (None, params)
            else (let p_lo = base @ ''_lo''; p_hi = base @ ''_hi'' in
                  (Some (path @ '' BETWEEN '' @ cast_sql ('':'' @ p_lo) ty @ '' AND ''
                         @ cast_sql ('':'' @ p_hi) ty),
                   dset p_hi (BindStr (bounds ! 1)) (dset p_lo (BindStr (bounds ! 0)) params)))
          else (None, params))"

fun field_predicate_to_sql ::
  "predicate \<Rightarrow> string \<Rightarrow> binds \<Rightarrow> string \<Rightarrow> string option \<times> binds" where
  "field_predicate_to_sql (RangePredicate f opr bounds kind) param_prefix params col =
     range_predicate_to_sql f opr bounds kind param_prefix params col"
| "field_predicate_to_sql (FieldPredicate f vs) param_prefix params col =
     (if f \<in> set first_class_cols then (None, params)
      else if prefix attrs_prefix f then
        (let attr_key = drop (length attrs_prefix) f in
         if attr_key = [] \<or> vs = [] then (None, params)
         else if \<not> safe_attr_key attr_key then (None, params)
         else (let p_name = param_prefix @ ''_'' @ attr_key in
               (Some (jsonb_path col attr_key @ '' = ANY(:'' @ p_name @ '')''),
                dset p_name (BindList vs) params)))
      else (None, params))"

definition param_prefix_of :: "nat \<Rightarrow> nat \<Rightarrow> string" where
  "param_prefix_of idx j = ''af_'' @ nat_str idx @ ''_'' @ nat_str j"

text \<open>\<open>sep.join(parts)\<close>.\<close>

fun join_with :: "string \<Rightarrow> string list \<Rightarrow> string" where
  "join_with sep [] = []"
| "join_with sep [x] = x"
| "join_with sep (x # xs) = x @ sep @ join_with sep xs"

definition cons_opt :: "'a option \<Rightarrow> 'a list \<Rightarrow> 'a list" where
  "cons_opt x xs = (case x of None \<Rightarrow> xs | Some y \<Rightarrow> y # xs)"

text \<open>The loop over the predicates of a clause, collecting the fragments and the bind parameters.\<close>

fun clause_parts :: "string \<Rightarrow> nat \<Rightarrow> nat \<Rightarrow> predicate list \<Rightarrow> binds \<Rightarrow> string list \<times> binds" where
  "clause_parts col idx j [] params = ([], params)"
| "clause_parts col idx j (p # ps) params =
     (let (sql, params1) = field_predicate_to_sql p (param_prefix_of idx j) params col;
          (parts, params2) = clause_parts col idx (Suc j) ps params1
      in (cons_opt sql parts, params2))"

definition joined :: "string \<Rightarrow> string list \<Rightarrow> string option" where
  "joined sep parts =
     (case parts of [] \<Rightarrow> None | [p] \<Rightarrow> Some p | _ \<Rightarrow> Some (''('' @ join_with sep parts @ '')''))"

definition clause_to_sql :: "clause \<Rightarrow> nat \<Rightarrow> binds \<Rightarrow> string \<Rightarrow> string option \<times> binds" where
  "clause_to_sql c idx params col =
     (let (parts, params') = clause_parts col idx 0 (predicates c) params
      in (joined '' AND '' parts, params'))"

fun or_parts :: "string \<Rightarrow> nat \<Rightarrow> clause list \<Rightarrow> binds \<Rightarrow> string list \<times> binds" where
  "or_parts col i [] params = ([], params)"
| "or_parts col i (c # cs) params =
     (let (sql, params1) = clause_to_sql c i params col;
          (parts, params2) = or_parts col (Suc i) cs params1
      in (cons_opt sql parts, params2))"

definition access_filter_to_pg_clause :: "access_filter option \<Rightarrow> string \<Rightarrow> string option \<times> binds" where
  "access_filter_to_pg_clause af col =
     (case af of
        None \<Rightarrow> (None, [])
      | Some f \<Rightarrow>
          if deny_all f then (Some ''FALSE'', [])
          else if allow_all f \<and> allow f = [] then (None, [])
          else if \<not> allow_all f \<and> allow f = [] then (Some ''FALSE'', [])
          else
            (let (parts, params) = or_parts col 0 (allow f) []
             in case joined '' OR '' parts of None \<Rightarrow> (None, []) | Some s \<Rightarrow> (Some s, params)))"

text \<open>
  The sidecar hook: the query context is its list of conditions and its parameters.
\<close>

definition sidecar_alias :: string where
  "sidecar_alias = ''ae''"

definition apply_query_context ::
  "string \<Rightarrow> access_filter option \<Rightarrow> string list \<times> binds \<Rightarrow> string list \<times> binds" where
  "apply_query_context column_name af ctx =
     (let col_ref = sidecar_alias @ ''.'' @ column_name in
      case af of
        None \<Rightarrow> (fst ctx @ [''FALSE''], snd ctx)
      | Some f \<Rightarrow>
          (case access_filter_to_pg_clause (Some f) col_ref of
             (None, _) \<Rightarrow> ctx
           | (Some clause, params) \<Rightarrow>
               (fst ctx @ [clause], fold (\<lambda>(k, v). dset k v) params (snd ctx))))"

section \<open>Conditions as abstract syntax\<close>

datatype sqlx =
    SqlAny string string
  | SqlLe string string string
  | SqlGe string string string
  | SqlBetween string string string string
  | SqlAnd "sqlx list"
  | SqlOr "sqlx list"

fun render :: "string \<Rightarrow> sqlx \<Rightarrow> string" where
  "render col (SqlAny k p) = jsonb_path col k @ '' = ANY(:'' @ p @ '')''"
| "render col (SqlLe k ty p) = cast_sql (jsonb_path col k) ty @ '' <= '' @ cast_sql ('':'' @ p) ty"
| "render col (SqlGe k ty p) = cast_sql (jsonb_path col k) ty @ '' >= '' @ cast_sql ('':'' @ p) ty"
| "render col (SqlBetween k ty lo hi) =
     cast_sql (jsonb_path col k) ty @ '' BETWEEN '' @ cast_sql ('':'' @ lo) ty @ '' AND ''
       @ cast_sql ('':'' @ hi) ty"
| "render col (SqlAnd xs) = ''('' @ join_with '' AND '' (map (render col) xs) @ '')''"
| "render col (SqlOr xs) = ''('' @ join_with '' OR '' (map (render col) xs) @ '')''"

text \<open>
  Meaning of a condition on a row: \<open>env\<close> gives the bound parameters, \<open>cmp ty text bound\<close> the order of the
  type the two sides are cast to, and the row's envelope is read from the document's \<open>_attrs\<close>
  fields.  A missing key is SQL NULL, on which every comparison fails.
\<close>

definition attr_text :: "pylib \<Rightarrow> doc \<Rightarrow> string \<Rightarrow> string option" where
  "attr_text L d k =
     (case doc_get d (attrs_prefix @ k) of
        DScalar SNone \<Rightarrow> None
      | v \<Rightarrow> Some (lib_str L (dval_json v)))"

definition cmp_holds ::
  "(int \<Rightarrow> bool) \<Rightarrow> (string \<Rightarrow> string \<Rightarrow> string \<Rightarrow> int) \<Rightarrow> (string \<Rightarrow> bindval option) \<Rightarrow> string option \<Rightarrow> string \<Rightarrow> string \<Rightarrow> bool" where
  "cmp_holds r cmp env t ty p =
     (case (t, env p) of (Some x, Some (BindStr b)) \<Rightarrow> r (cmp ty x b) | _ \<Rightarrow> False)"

fun sql_eval ::
  "(string \<Rightarrow> string \<Rightarrow> string \<Rightarrow> int) \<Rightarrow> pylib \<Rightarrow> (string \<Rightarrow> bindval option) \<Rightarrow> doc \<Rightarrow> sqlx \<Rightarrow> bool" where
  "sql_eval cmp L env d (SqlAny k p) =
     (case (attr_text L d k, env p) of (Some t, Some (BindList vs)) \<Rightarrow> t \<in> set vs | _ \<Rightarrow> False)"
| "sql_eval cmp L env d (SqlLe k ty p) = cmp_holds (\<lambda>c. c \<le> 0) cmp env (attr_text L d k) ty p"
| "sql_eval cmp L env d (SqlGe k ty p) = cmp_holds (\<lambda>c. 0 \<le> c) cmp env (attr_text L d k) ty p"
| "sql_eval cmp L env d (SqlBetween k ty lo hi) =
     (cmp_holds (\<lambda>c. 0 \<le> c) cmp env (attr_text L d k) ty lo \<and>
      cmp_holds (\<lambda>c. c \<le> 0) cmp env (attr_text L d k) ty hi)"
| "sql_eval cmp L env d (SqlAnd xs) = list_all (sql_eval cmp L env d) xs"
| "sql_eval cmp L env d (SqlOr xs) = list_ex (sql_eval cmp L env d) xs"

text \<open>The condition and the parameters of one predicate under its prefix.\<close>

definition attr_key_of :: "string \<Rightarrow> string" where
  "attr_key_of f = drop (length attrs_prefix) f"

definition keyed :: "string \<Rightarrow> bool" where
  "keyed f \<longleftrightarrow> prefix attrs_prefix f \<and> safe_attr_key (attr_key_of f)"

fun pg_pred :: "predicate \<Rightarrow> bool" where
  "pg_pred (FieldPredicate f vs) = (keyed f \<and> vs \<noteq> [])"
| "pg_pred (RangePredicate f opr bs k) =
     (keyed f \<and> (opr \<in> {''lte'', ''gte''} \<and> length bs = 1 \<or> opr = ''between'' \<and> length bs = 2))"

fun pred_sql :: "string \<Rightarrow> predicate \<Rightarrow> sqlx" where
  "pred_sql pre (FieldPredicate f vs) = SqlAny (attr_key_of f) (pre @ ''_'' @ attr_key_of f)"
| "pred_sql pre (RangePredicate f opr bs k) =
     (let b = pre @ ''_'' @ attr_key_of f in
      if opr = ''lte'' then SqlLe (attr_key_of f) (cast_of k) (b @ ''_lte'')
      else if opr = ''gte'' then SqlGe (attr_key_of f) (cast_of k) (b @ ''_gte'')
      else SqlBetween (attr_key_of f) (cast_of k) (b @ ''_lo'') (b @ ''_hi''))"

fun pred_binds :: "string \<Rightarrow> predicate \<Rightarrow> binds" where
  "pred_binds pre (FieldPredicate f vs) = [(pre @ ''_'' @ attr_key_of f, BindList vs)]"
| "pred_binds pre (RangePredicate f opr bs k) =
     (let b = pre @ ''_'' @ attr_key_of f in
      if opr = ''lte'' then [(b @ ''_lte'', BindStr (bs ! 0))]
      else if opr = ''gte'' then [(b @ ''_gte'', BindStr (bs ! 0))]
      else [(b @ ''_lo'', BindStr (bs ! 0)), (b @ ''_hi'', BindStr (bs ! 1))])"

abbreviation bind_all :: "binds \<Rightarrow> binds \<Rightarrow> binds" where
  "bind_all bs params \<equiv> fold (\<lambda>(k, v). dset k v) bs params"

lemma keyed_not_first_class: "keyed f \<Longrightarrow> f \<notin> set first_class_cols"
  by (auto simp: keyed_def attrs_prefix_def first_class_cols_def)

lemma keyed_nonempty: "keyed f \<Longrightarrow> attr_key_of f \<noteq> []"
  by (simp add: keyed_def safe_attr_key_def)

lemma keyed_field: "keyed f \<Longrightarrow> attrs_prefix @ attr_key_of f = f"
  by (auto simp: keyed_def attr_key_of_def prefix_def)

text \<open>Every translatable predicate yields the rendering of its condition and adds its parameters.\<close>

lemma field_predicate_to_sql_keyed:
  assumes "pg_pred p"
  shows "field_predicate_to_sql p pre params col =
           (Some (render col (pred_sql pre p)), bind_all (pred_binds pre p) params)"
proof (cases p)
  case (FieldPredicate f vs)
  with assms show ?thesis
    using keyed_not_first_class [of f] keyed_nonempty [of f]
    by (simp add: attr_key_of_def keyed_def Let_def)
next
  case (RangePredicate f opr bs k)
  with assms have "keyed f" by simp
  with RangePredicate assms show ?thesis
    using keyed_nonempty [of f]
    by (auto simp: range_predicate_to_sql_def attr_key_of_def keyed_def Let_def)
qed

text \<open>A predicate that is not translatable contributes neither text nor parameters.\<close>

lemma field_predicate_to_sql_skipped:
  "\<not> pg_pred p \<Longrightarrow> field_predicate_to_sql p pre params col = (None, params)"
  by (cases p)
     (auto simp: range_predicate_to_sql_def attr_key_of_def keyed_def Let_def safe_attr_key_def)

section \<open>The loops collect conditions and parameters\<close>

fun clause_sqls :: "nat \<Rightarrow> nat \<Rightarrow> predicate list \<Rightarrow> sqlx list" where
  "clause_sqls idx j [] = []"
| "clause_sqls idx j (p # ps) =
     (if pg_pred p then [pred_sql (param_prefix_of idx j) p] else []) @ clause_sqls idx (Suc j) ps"

fun clause_binds :: "nat \<Rightarrow> nat \<Rightarrow> predicate list \<Rightarrow> binds" where
  "clause_binds idx j [] = []"
| "clause_binds idx j (p # ps) =
     (if pg_pred p then pred_binds (param_prefix_of idx j) p else []) @ clause_binds idx (Suc j) ps"

definition join_sql :: "(sqlx list \<Rightarrow> sqlx) \<Rightarrow> sqlx list \<Rightarrow> sqlx option" where
  "join_sql op xs = (case xs of [] \<Rightarrow> None | [x] \<Rightarrow> Some x | _ \<Rightarrow> Some (op xs))"

fun allow_sqls :: "nat \<Rightarrow> clause list \<Rightarrow> sqlx list" where
  "allow_sqls i [] = []"
| "allow_sqls i (c # cs) =
     cons_opt (join_sql SqlAnd (clause_sqls i 0 (predicates c))) (allow_sqls (Suc i) cs)"

fun allow_binds :: "nat \<Rightarrow> clause list \<Rightarrow> binds" where
  "allow_binds i [] = []"
| "allow_binds i (c # cs) = clause_binds i 0 (predicates c) @ allow_binds (Suc i) cs"

lemma join_sql_None: "join_sql op xs = None \<longleftrightarrow> xs = []"
  by (simp add: join_sql_def split: list.splits)

lemma clause_parts_render:
  "clause_parts col idx j ps params =
     (map (render col) (clause_sqls idx j ps), bind_all (clause_binds idx j ps) params)"
  by (induction ps arbitrary: j params)
     (auto simp: cons_opt_def field_predicate_to_sql_keyed field_predicate_to_sql_skipped)

lemma joined_render:
  "joined '' AND '' (map (render col) xs) = map_option (render col) (join_sql SqlAnd xs)"
  "joined '' OR '' (map (render col) xs) = map_option (render col) (join_sql SqlOr xs)"
  by (auto simp: joined_def join_sql_def split: list.splits)

lemma or_parts_render:
  "or_parts col i cs params =
     (map (render col) (allow_sqls i cs), bind_all (allow_binds i cs) params)"
  by (induction cs arbitrary: i params)
     (auto simp: clause_to_sql_def clause_parts_render joined_render cons_opt_def split: option.splits)

lemma sql_eval_join:
  "join_sql SqlAnd xs = Some x \<Longrightarrow> sql_eval cmp L env d x = list_all (sql_eval cmp L env d) xs"
  "join_sql SqlOr xs = Some x \<Longrightarrow> sql_eval cmp L env d x = list_ex (sql_eval cmp L env d) xs"
  by (auto simp: join_sql_def split: list.splits)

section \<open>Parameter names\<close>

text \<open>
  The prefix of a predicate is recovered from a parameter name, so predicates of different
  clauses or positions never bind the same name.
\<close>

lemma digits_sep_inject:
  assumes "a @ CHR ''_'' # r = b @ CHR ''_'' # s"
    and "\<And>c. c \<in> set a \<Longrightarrow> is_digit c" "\<And>c. c \<in> set b \<Longrightarrow> is_digit c"
  shows "a = b \<and> r = s"
proof -
  have nd: "\<not> is_digit CHR ''_''" by (simp add: is_digit_def)
  show ?thesis
    using assms
  proof (induction a arbitrary: b)
    case Nil
    then show ?case using nd by (cases b) auto
  next
    case (Cons x a)
    then show ?case using nd by (cases b) auto
  qed
qed

lemma param_prefix_inject:
  assumes "param_prefix_of i j @ CHR ''_'' # r = param_prefix_of i' j' @ CHR ''_'' # r'"
  shows "i = i' \<and> j = j'"
proof -
  have "nat_str i @ CHR ''_'' # (nat_str j @ CHR ''_'' # r) =
        nat_str i' @ CHR ''_'' # (nat_str j' @ CHR ''_'' # r')"
    using assms by (simp add: param_prefix_of_def)
  then have "nat_str i = nat_str i'" "nat_str j @ CHR ''_'' # r = nat_str j' @ CHR ''_'' # r'"
    using digits_sep_inject nat_str_digits by metis+
  moreover from this(2) have "nat_str j = nat_str j'"
    using digits_sep_inject nat_str_digits by metis
  ultimately show ?thesis by simp
qed

lemma pred_binds_name: "(k, v) \<in> set (pred_binds pre p) \<Longrightarrow> \<exists>r. k = pre @ CHR ''_'' # r"
  by (cases p) (auto simp: Let_def split: if_splits)

lemma pred_binds_functional:
  "(k, v) \<in> set (pred_binds pre p) \<Longrightarrow> (k, v') \<in> set (pred_binds pre p) \<Longrightarrow> v = v'"
  by (cases p) (auto simp: Let_def split: if_splits)

lemma clause_binds_mem:
  "(k, v) \<in> set (clause_binds i j ps) \<Longrightarrow>
   \<exists>n<length ps. (k, v) \<in> set (pred_binds (param_prefix_of i (j + n)) (ps ! n))"
proof (induction ps arbitrary: j)
  case (Cons p ps)
  then consider "(k, v) \<in> set (pred_binds (param_prefix_of i j) p)"
    | "(k, v) \<in> set (clause_binds i (Suc j) ps)" by (auto split: if_splits)
  then show ?case
  proof cases
    case 2
    from Cons.IH [OF this] obtain n where "n < length ps"
      "(k, v) \<in> set (pred_binds (param_prefix_of i (Suc j + n)) (ps ! n))" by blast
    then show ?thesis by (intro exI [of _ "Suc n"]) simp
  qed auto
qed simp

lemma allow_binds_mem:
  "(k, v) \<in> set (allow_binds i cs) \<Longrightarrow>
   \<exists>m<length cs. \<exists>n<length (predicates (cs ! m)).
     (k, v) \<in> set (pred_binds (param_prefix_of (i + m) n) (predicates (cs ! m) ! n))"
proof (induction cs arbitrary: i)
  case (Cons c cs)
  then consider "(k, v) \<in> set (clause_binds i 0 (predicates c))"
    | "(k, v) \<in> set (allow_binds (Suc i) cs)" by auto
  then show ?case
  proof cases
    case 1
    from clause_binds_mem [OF this] show ?thesis by (intro exI [of _ 0]) simp
  next
    case 2
    from Cons.IH [OF this] obtain m where "m < length cs" "\<exists>n<length (predicates (cs ! m)).
     (k, v) \<in> set (pred_binds (param_prefix_of (Suc i + m) n) (predicates (cs ! m) ! n))" by blast
    then show ?thesis by (intro exI [of _ "Suc m"]) simp
  qed
qed simp

lemma allow_binds_functional:
  assumes "(k, v) \<in> set (allow_binds i cs)" "(k, v') \<in> set (allow_binds i cs)"
  shows "v = v'"
proof -
  obtain m n where 1: "(k, v) \<in> set (pred_binds (param_prefix_of (i + m) n) (predicates (cs ! m) ! n))"
    using allow_binds_mem [OF assms(1)] by blast
  obtain m' n' where 2: "(k, v') \<in> set (pred_binds (param_prefix_of (i + m') n') (predicates (cs ! m') ! n'))"
    using allow_binds_mem [OF assms(2)] by blast
  have "m = m' \<and> n = n'"
    using pred_binds_name [OF 1] pred_binds_name [OF 2]
    by (auto dest: param_prefix_inject)
  with 1 2 show ?thesis by (blast intro: pred_binds_functional)
qed

lemma map_of_bind_all:
  assumes "(k, v) \<in> set bs" "\<And>v'. (k, v') \<in> set bs \<Longrightarrow> v' = v"
  shows "map_of (bind_all bs params) k = Some v"
proof -
  have "map_of (bind_all bs params) k =
          (if k \<in> fst ` set bs then Some v else map_of params k)"
    using assms(2) by (induction bs arbitrary: params) force+
  with assms(1) show ?thesis by force
qed

section \<open>Meaning of the fragment\<close>

text \<open>
  The database reads the envelope field as the reference does: a field predicate sees a string (or
  nothing), a range predicate sees one value that the cast orders as \<open>_cmp\<close> does.
\<close>

fun pg_agrees :: "(string \<Rightarrow> string \<Rightarrow> string \<Rightarrow> int) \<Rightarrow> pylib \<Rightarrow> doc \<Rightarrow> predicate \<Rightarrow> bool" where
  "pg_agrees cmp L d (FieldPredicate f vs) =
     (case doc_get d f of
        DScalar SNone \<Rightarrow> True | DScalar (SStr s) \<Rightarrow> lib_str L (JStr s) = s | _ \<Rightarrow> False)"
| "pg_agrees cmp L d (RangePredicate f opr bounds kind) =
     (case doc_get d f of
        DList xs \<Rightarrow> False
      | DScalar s \<Rightarrow>
          s = SNone \<or>
          list_all (\<lambda>b. let t = lib_str L (JScalar s); c = cmp (cast_of kind) t b in
                        (c \<le> 0) = (range_cmp L t b \<le> 0) \<and> (0 \<le> c) = (0 \<le> range_cmp L t b)) bounds)"

text \<open>The part of the allow side that lives in the envelope.\<close>

definition pg_view :: "clause list \<Rightarrow> clause list" where
  "pg_view cs =
     filter (\<lambda>c. predicates c \<noteq> []) (map (\<lambda>c. AccessClause (filter pg_pred (predicates c))) cs)"

lemma attr_text_scalar:
  assumes "keyed f" "doc_get d f = DScalar x"
  shows "attr_text L d (attr_key_of f) = (if x = SNone then None else Some (lib_str L (JScalar x)))"
  using assms by (cases x) (simp_all add: attr_text_def keyed_field)

lemma pred_sql_eval:
  assumes "pg_pred p" "pg_agrees cmp L d p"
    and env: "\<And>k v. (k, v) \<in> set (pred_binds pre p) \<Longrightarrow> env k = Some v"
  shows "sql_eval cmp L env d (pred_sql pre p) = pred_holds L p d"
proof (cases p)
  case (FieldPredicate f vs)
  with assms(1,2) obtain x where x: "keyed f" "doc_get d f = DScalar x"
    "x = SNone \<or> (\<exists>s. x = SStr s \<and> lib_str L (JStr s) = s)"
    by (auto split: dval.splits scalar.splits)
  with FieldPredicate env [of "pre @ ''_'' @ attr_key_of f" "BindList vs"] show ?thesis
    by (auto simp: attr_text_scalar [OF x(1,2)] pred_holds_def field_matches_def)
next
  case (RangePredicate f opr bs kind)
  with assms(1,2) obtain x where x: "keyed f" "doc_get d f = DScalar x"
    and agree: "x = SNone \<or> (\<forall>b\<in>set bs. let t = lib_str L (JScalar x); c = cmp (cast_of kind) t b in
                        (c \<le> 0) = (range_cmp L t b \<le> 0) \<and> (0 \<le> c) = (0 \<le> range_cmp L t b))"
    by (auto simp: list_all_iff split: dval.splits)
  note atx = attr_text_scalar [OF x, of L]
  have bs: "opr \<in> {''lte'', ''gte''} \<and> (\<exists>b. bs = [b]) \<or> opr = ''between'' \<and> (\<exists>lo hi. bs = [lo, hi])"
    using assms(1) RangePredicate by (auto simp: length_Suc_conv numeral_2_eq_2)
  show ?thesis
  proof (cases "x = SNone")
    case True
    with RangePredicate bs x show ?thesis
      by (auto simp: cmp_holds_def atx pred_holds_def range_matches_def)
  next
    case False
    with RangePredicate bs env agree show ?thesis
      by (auto simp: cmp_holds_def atx pred_holds_def Let_def range_matches_scalar [OF x(2) False])
  qed
qed

lemma clause_sqls_eval:
  assumes "list_all (\<lambda>p. pg_pred p \<longrightarrow> pg_agrees cmp L d p) ps"
    and "\<And>k v. (k, v) \<in> set (clause_binds i j ps) \<Longrightarrow> env k = Some v"
  shows "list_all (sql_eval cmp L env d) (clause_sqls i j ps) \<longleftrightarrow>
         (\<forall>p\<in>set (filter pg_pred ps). pred_holds L p d)"
  using assms
  by (induction ps arbitrary: j) (simp_all add: pred_sql_eval)

lemma clause_sqls_Nil: "clause_sqls i j ps = [] \<longleftrightarrow> filter pg_pred ps = []"
  by (induction ps arbitrary: j) auto

lemma allow_sqls_eval:
  assumes "list_all (\<lambda>c. list_all (\<lambda>p. pg_pred p \<longrightarrow> pg_agrees cmp L d p) (predicates c)) cs"
    and "\<And>k v. (k, v) \<in> set (allow_binds i cs) \<Longrightarrow> env k = Some v"
  shows "list_ex (sql_eval cmp L env d) (allow_sqls i cs) \<longleftrightarrow>
         (\<exists>c\<in>set (pg_view cs). clause_holds L c d)"
  using assms
proof (induction cs arbitrary: i)
  case (Cons c cs)
  let ?xs = "clause_sqls i 0 (predicates c)"
  have ev: "list_all (sql_eval cmp L env d) ?xs \<longleftrightarrow>
             (\<forall>p\<in>set (filter pg_pred (predicates c)). pred_holds L p d)"
    using Cons.prems by (intro clause_sqls_eval) auto
  have IH: "list_ex (sql_eval cmp L env d) (allow_sqls (Suc i) cs) \<longleftrightarrow>
              (\<exists>c\<in>set (pg_view cs). clause_holds L c d)"
    using Cons.prems by (intro Cons.IH) auto
  show ?case
  proof (cases "join_sql SqlAnd ?xs")
    case None
    then have "filter pg_pred (predicates c) = []"
      by (simp add: join_sql_def clause_sqls_Nil split: list.splits)
    with None IH show ?thesis by (simp add: cons_opt_def pg_view_def)
  next
    case (Some x)
    then have "filter pg_pred (predicates c) \<noteq> []"
      by (auto simp: join_sql_def clause_sqls_Nil [of i 0, symmetric])
    with Some IH ev show ?thesis
      by (simp add: cons_opt_def pg_view_def clause_holds_def sql_eval_join)
  qed
qed (simp add: pg_view_def)

lemma allow_sqls_Nil: "allow_sqls i cs = [] \<longleftrightarrow> pg_view cs = []"
proof (induction cs arbitrary: i)
  case (Cons c cs)
  then show ?case
    using clause_sqls_Nil [of i 0 "predicates c"]
    by (auto simp: cons_opt_def pg_view_def join_sql_def split: list.splits)
qed (simp add: pg_view_def)

text \<open>Every key spliced into the text is safe and every placeholder has a parameter.\<close>

fun sql_safe :: "(string \<Rightarrow> bindval option) \<Rightarrow> sqlx \<Rightarrow> bool" where
  "sql_safe env (SqlAny k p) = (safe_attr_key k \<and> env p \<noteq> None)"
| "sql_safe env (SqlLe k ty p) = (safe_attr_key k \<and> env p \<noteq> None)"
| "sql_safe env (SqlGe k ty p) = (safe_attr_key k \<and> env p \<noteq> None)"
| "sql_safe env (SqlBetween k ty lo hi) = (safe_attr_key k \<and> env lo \<noteq> None \<and> env hi \<noteq> None)"
| "sql_safe env (SqlAnd xs) = list_all (sql_safe env) xs"
| "sql_safe env (SqlOr xs) = list_all (sql_safe env) xs"

lemma pred_sql_safe:
  assumes "pg_pred p" "\<And>k v. (k, v) \<in> set (pred_binds pre p) \<Longrightarrow> env k = Some v"
  shows "sql_safe env (pred_sql pre p)"
  using assms by (cases p) (auto simp: keyed_def Let_def)

lemma clause_sqls_safe:
  "(\<And>k v. (k, v) \<in> set (clause_binds i j ps) \<Longrightarrow> env k = Some v) \<Longrightarrow>
   list_all (sql_safe env) (clause_sqls i j ps)"
  by (induction ps arbitrary: j) (simp_all add: pred_sql_safe)

lemma join_sql_safe:
  "list_all (sql_safe env) xs \<Longrightarrow> join_sql SqlAnd xs = Some x \<Longrightarrow> sql_safe env x"
  "list_all (sql_safe env) xs \<Longrightarrow> join_sql SqlOr xs = Some x \<Longrightarrow> sql_safe env x"
  by (auto simp: join_sql_def split: list.splits)

lemma allow_sqls_safe:
  "(\<And>k v. (k, v) \<in> set (allow_binds i cs) \<Longrightarrow> env k = Some v) \<Longrightarrow>
   list_all (sql_safe env) (allow_sqls i cs)"
proof (induction cs arbitrary: i)
  case (Cons c cs)
  then have "list_all (sql_safe env) (clause_sqls i 0 (predicates c))"
    by (intro clause_sqls_safe) auto
  with Cons show ?case
    by (auto simp: cons_opt_def split: option.splits dest: join_sql_safe)
qed simp

lemma pg_clause_shape:
  assumes "\<not> deny_all f" "allow f \<noteq> []"
  shows "access_filter_to_pg_clause (Some f) col =
    (case join_sql SqlOr (allow_sqls 0 (allow f)) of
       None \<Rightarrow> (None, []) | Some x \<Rightarrow> (Some (render col x), bind_all (allow_binds 0 (allow f)) []))"
  using assms
  by (simp add: access_filter_to_pg_clause_def or_parts_render joined_render split: option.splits)

lemma allow_binds_env:
  "(k, v) \<in> set (allow_binds i cs) \<Longrightarrow> map_of (bind_all (allow_binds i cs) params) k = Some v"
  by (rule map_of_bind_all) (auto dest: allow_binds_functional)

text \<open>
  What the SQL fragment of a filter with allow clauses selects, in every case: either no
  predicate of the allow side is an envelope predicate and there is no fragment, or the fragment is
  the text of a condition in which every spliced key matches \<open>[A-Za-z0-9_]+\<close> and every placeholder is
  bound (predicates of different clauses never share a parameter), and the condition selects
  exactly the documents that satisfy the envelope part of some allow clause.
\<close>

theorem pg_clause_meaning:
  assumes "\<not> deny_all f" "allow f \<noteq> []"
    and "list_all (\<lambda>c. list_all (\<lambda>p. pg_pred p \<longrightarrow> pg_agrees cmp L d p) (predicates c)) (allow f)"
  shows "case access_filter_to_pg_clause (Some f) col of
      (None, params) \<Rightarrow> pg_view (allow f) = [] \<and> params = []
    | (Some s, params) \<Rightarrow>
        \<exists>x. s = render col x \<and> sql_safe (map_of params) x \<and>
            (sql_eval cmp L (map_of params) d x \<longleftrightarrow> (\<exists>c\<in>set (pg_view (allow f)). clause_holds L c d))"
proof (cases "join_sql SqlOr (allow_sqls 0 (allow f))")
  case None
  then show ?thesis
    using assms(1,2) allow_sqls_Nil [of 0 "allow f"]
    by (simp add: pg_clause_shape join_sql_def split: list.splits)
next
  case (Some x)
  let ?env = "map_of (bind_all (allow_binds 0 (allow f)) [])"
  have "sql_safe ?env x"
    by (rule join_sql_safe(2) [OF _ Some]) (intro allow_sqls_safe allow_binds_env)
  moreover have "sql_eval cmp L ?env d x \<longleftrightarrow> (\<exists>c\<in>set (pg_view (allow f)). clause_holds L c d)"
    unfolding sql_eval_join(2) [OF Some]
    by (rule allow_sqls_eval [OF assms(3)]) (rule allow_binds_env)
  ultimately show ?thesis
    using assms(1,2) Some by (auto simp: pg_clause_shape)
qed

text \<open>The cast order that reads text the way the reference comparison does.\<close>

definition lib_pg_cmp :: "pylib \<Rightarrow> string \<Rightarrow> string \<Rightarrow> string \<Rightarrow> int" where
  "lib_pg_cmp L ty t b = range_cmp L t b"

definition pg_example :: access_filter where
  "pg_example = from_clauses
     [AccessClause [FieldPredicate ''owner'' [''u1''], FieldPredicate ''_attrs.dept'' [''hr'', ''it'']],
      AccessClause [RangePredicate ''_attrs.age'' ''between'' [''10'', ''20''] ''numeric'']] [] False"

theorem pg_clause_meaning_witness:
  "case access_filter_to_pg_clause (Some pg_example) ''ae.env'' of
      (None, params) \<Rightarrow> pg_view (allow pg_example) = [] \<and> params = []
    | (Some s, params) \<Rightarrow>
        \<exists>x. s = render ''ae.env'' x \<and> sql_safe (map_of params) x \<and>
            (sql_eval (lib_pg_cmp plain_lib) plain_lib (map_of params) [''_attrs.age'' \<mapsto> DScalar (SInt 15)] x
             \<longleftrightarrow> (\<exists>c\<in>set (pg_view (allow pg_example)). clause_holds plain_lib c [''_attrs.age'' \<mapsto> DScalar (SInt 15)]))"
  by (rule pg_clause_meaning; code_simp)

lemma pg_pred_wf: "pg_pred p \<Longrightarrow> wf_pred p"
  by (cases p) auto

lemma pg_view_pure:
  assumes "list_all (\<lambda>c. predicates c \<noteq> [] \<and> list_all pg_pred (predicates c)) cs"
  shows "pg_view cs = cs"
  using assms by (induction cs) (auto simp: pg_view_def list_all_iff filter_id_conv intro!: clause.expand)

text \<open>
  On a filter whose allow clauses constrain envelope attributes only and that has no deny
  clause and no union, the SQL fragment mirrors \<open>admits\<close>: it selects exactly the documents the
  reference admits.
\<close>

theorem pg_clause_mirror:
  assumes "f = AccessFilter False False al [] unc []" "al \<noteq> []"
    and "list_all (\<lambda>c. predicates c \<noteq> [] \<and> list_all pg_pred (predicates c)) al"
    and "list_all (\<lambda>c. list_all (pg_agrees cmp L d) (predicates c)) al"
  shows "\<exists>x params. access_filter_to_pg_clause (Some f) col = (Some (render col x), params) \<and>
           (sql_eval cmp L (map_of params) d x \<longleftrightarrow> admits L f d = Some True)"
proof -
  obtain x where x: "join_sql SqlOr (allow_sqls 0 al) = Some x"
    using assms(2,3) allow_sqls_Nil [of 0 al] pg_view_pure [of al]
      join_sql_None [of SqlOr "allow_sqls 0 al"] by auto
  let ?env = "map_of (bind_all (allow_binds 0 al) [])"
  have "wf_filter f"
    using assms(1,3) by (simp add: list_all_iff wf_clause_def pg_pred_wf)
  moreover have "sql_eval cmp L ?env d x \<longleftrightarrow> (\<exists>c\<in>set (pg_view al). clause_holds L c d)"
    unfolding sql_eval_join(2) [OF x] using assms(4)
    by (intro allow_sqls_eval allow_binds_env) (auto simp: list_all_iff)
  ultimately have "sql_eval cmp L ?env d x \<longleftrightarrow> admits L f d = Some True"
    using assms(1) pg_view_pure [OF assms(3)] by (simp add: any_clause_wf list_ex_iff)
  moreover have "access_filter_to_pg_clause (Some f) col =
      (Some (render col x), bind_all (allow_binds 0 al) [])"
    using x assms(1,2) by (simp add: pg_clause_shape)
  ultimately show ?thesis by blast
qed

theorem pg_clause_mirror_witness:
  "let f = AccessFilter False False [AccessClause [FieldPredicate ''_attrs.dept'' [''hr'']]] [] False [];
       d = [''_attrs.dept'' \<mapsto> DScalar (SStr ''hr'')]
   in \<exists>x params. access_filter_to_pg_clause (Some f) ''c'' = (Some (render ''c'' x), params) \<and>
        (sql_eval (lib_pg_cmp plain_lib) plain_lib (map_of params) d x \<longleftrightarrow> admits plain_lib f d = Some True)"
  unfolding Let_def
  by (rule pg_clause_mirror [OF refl]; code_simp)

text \<open>
  The fragment does not look at the deny side: on a concrete filter with a deny clause on an
  envelope attribute, a document that \<open>admits\<close> excludes is selected by the SQL condition.
\<close>

theorem pg_deny_not_enforced:
  "let f = from_clauses [AccessClause [FieldPredicate ''_attrs.dept'' [''hr'']]]
             [AccessClause [FieldPredicate ''_attrs.level'' [''secret'']]] False;
       d = [''_attrs.dept'' \<mapsto> DScalar (SStr ''hr''), ''_attrs.level'' \<mapsto> DScalar (SStr ''secret'')];
       x = SqlAny ''dept'' ''af_0_0_dept''
   in admits plain_lib f d = Some False \<and>
      access_filter_to_pg_clause (Some f) ''c'' =
        (Some (render ''c'' x), [(''af_0_0_dept'', BindList [''hr''])]) \<and>
      sql_eval (lib_pg_cmp plain_lib) plain_lib (map_of [(''af_0_0_dept'', BindList [''hr''])]) d x"
  by code_simp

end
