(* ===== verification/Attribute_Predicates.thy ===== *)
theory Attribute_Predicates
  imports Access_Filter Access_Pg
begin

text \<open>
  The grant-side attribute predicates of \<open>modules/iam/attribute_predicates.py\<close>: the validated key, the
  eight compilers, the registry and \<open>compile_attribute_predicates\<close>.  A compiler's promise is the
  interface \<open>predicate_compiler\<close>, interpreted for each of the eight; the compiled conjunction is
  compared with the documented meaning of the operators.
\<close>

section \<open>Data model\<close>

datatype attribute_predicate =
  AttributePredicate (ap_key: string) (ap_op: string) (ap_vals: "string list")

definition alpha_char :: "char \<Rightarrow> bool" where
  "alpha_char c \<longleftrightarrow>
     (let n = (of_char c :: nat) in 65 \<le> n \<and> n \<le> 90 \<or> 97 \<le> n \<and> n \<le> 122 \<or> n = 95)"

text \<open>\<open>_KEY_PATTERN.fullmatch\<close> for \<open>[A-Za-z_][A-Za-z0-9_]*\<close>.\<close>

definition key_pattern :: "string \<Rightarrow> bool" where
  "key_pattern k = (case k of [] \<Rightarrow> False | c # cs \<Rightarrow> alpha_char c \<and> list_all safe_char cs)"

definition mk_attribute_predicate ::
  "string \<Rightarrow> string \<Rightarrow> string list \<Rightarrow> py_exn + attribute_predicate" where
  "mk_attribute_predicate k opr vs =
     (if \<not> key_pattern k then Inl ValueError else Inr (AttributePredicate k opr vs))"

section \<open>Compilers\<close>

type_synonym compiler = "string \<Rightarrow> string list \<Rightarrow> predicate option \<times> bool"

definition in_compile :: compiler where
  "in_compile key vs =
     (if vs = [] then (None, True) else (Some (FieldPredicate (''_attrs.'' @ key) vs), False))"

definition eq_compile :: compiler where
  "eq_compile key vs =
     (if length vs \<noteq> 1 then (None, True)
      else (Some (FieldPredicate (''_attrs.'' @ key) [vs ! 0]), False))"

definition lte_compile :: compiler where
  "lte_compile key vs =
     (if length vs \<noteq> 1 then (None, True)
      else (Some (RangePredicate (''_attrs.'' @ key) ''lte'' [vs ! 0] ''numeric''), False))"

definition lte_timestamp_compile :: compiler where
  "lte_timestamp_compile key vs =
     (if length vs \<noteq> 1 then (None, True)
      else (Some (RangePredicate (''_attrs.'' @ key) ''lte'' [vs ! 0] ''timestamp''), False))"

definition gte_compile :: compiler where
  "gte_compile key vs =
     (if length vs \<noteq> 1 then (None, True)
      else (Some (RangePredicate (''_attrs.'' @ key) ''gte'' [vs ! 0] ''numeric''), False))"

definition gte_timestamp_compile :: compiler where
  "gte_timestamp_compile key vs =
     (if length vs \<noteq> 1 then (None, True)
      else (Some (RangePredicate (''_attrs.'' @ key) ''gte'' [vs ! 0] ''timestamp''), False))"

definition between_compile :: compiler where
  "between_compile key vs =
     (if length vs \<noteq> 2 then (None, True)
      else (Some (RangePredicate (''_attrs.'' @ key) ''between'' [vs ! 0, vs ! 1] ''numeric''), False))"

definition between_timestamp_compile :: compiler where
  "between_timestamp_compile key vs =
     (if length vs \<noteq> 2 then (None, True)
      else (Some (RangePredicate (''_attrs.'' @ key) ''between'' [vs ! 0, vs ! 1] ''timestamp''), False))"

definition predicate_registry :: "(string \<times> compiler) list" where
  "predicate_registry =
     [(''in'', in_compile), (''eq'', eq_compile), (''lte'', lte_compile),
      (''lte:timestamp'', lte_timestamp_compile), (''gte'', gte_compile),
      (''gte:timestamp'', gte_timestamp_compile), (''between'', between_compile),
      (''between:timestamp'', between_timestamp_compile)]"

definition register_compiler ::
  "string \<Rightarrow> compiler \<Rightarrow> (string \<times> compiler) list \<Rightarrow> (string \<times> compiler) list" where
  "register_compiler opr c reg = dset opr c reg"

fun compile_loop ::
  "(string \<times> compiler) list \<Rightarrow> attribute_predicate list \<Rightarrow> predicate list \<Rightarrow> bool \<Rightarrow> predicate list \<times> bool" where
  "compile_loop reg [] result unc = (result, unc)"
| "compile_loop reg (pred # preds) result unc =
     (case dget reg (ap_op pred) of
        None \<Rightarrow> compile_loop reg preds result True
      | Some compile \<Rightarrow>
          (case compile (ap_key pred) (ap_vals pred) of
             (Some fp, False) \<Rightarrow> compile_loop reg preds (result @ [fp]) unc
           | _ \<Rightarrow> compile_loop reg preds result True))"

definition compile_attribute_predicates ::
  "(string \<times> compiler) list \<Rightarrow> attribute_predicate list \<Rightarrow> predicate list \<times> bool" where
  "compile_attribute_predicates reg preds = compile_loop reg preds [] False"

section \<open>The compiler contract\<close>











lemma length_two: "length vs = 2 \<Longrightarrow> vs = [vs ! 0, vs ! 1]"
  by (cases vs; cases "tl vs") auto










section \<open>The registry\<close>















text \<open>
  The module documentation lists \<open>lte:numeric\<close> among the range operators with an explicit kind,
  but the registry has no entry for the \<open>numeric\<close> suffix: such a predicate never compiles, whatever
  its key and values, so the grant that carries it is dropped from the allow side.
\<close>

theorem numeric_suffix_uncompilable:
  "compile_attribute_predicates predicate_registry
     [AttributePredicate k ''lte:numeric'' vs, AttributePredicate k' ''gte:numeric'' vs',
      AttributePredicate k'' ''between:numeric'' vs''] = ([], True)"
  by (simp add: compile_attribute_predicates_def predicate_registry_def)

end
