(* ===== verification/Usage_Counter.thy ===== *)
theory Usage_Counter
  imports Py_Values
begin

text \<open>
  The usage counters behind rate limits and lifetime quotas: the window buckets
  (\<open>usage_counter_bucket.py\<close>), the Postgres driver with the meaning of its SQL statements
  (\<open>usage_counter_pg.py\<close>), the Valkey driver with the Lua script and the counting primitives of the
  cache backend (\<open>usage_counter_valkey.py\<close>, \<open>tools/cache_valkey.py\<close>), and the layered composite
  (\<open>usage_counter_layered.py\<close>).  The contract of \<open>UsageCounterProtocol\<close> is the locale \<open>usage_counter\<close>,
  interpreted for the Postgres and the Valkey driver.  Times are whole seconds since the epoch.
\<close>

section \<open>Buckets\<close>

definition bucket_for :: "int option \<Rightarrow> int \<Rightarrow> int" where
  "bucket_for window_seconds now =
     (case window_seconds of
        None \<Rightarrow> 0
      | Some w \<Rightarrow> if w \<le> 0 then 0 else (now div w) * w)"

definition expires_for :: "int \<Rightarrow> int option \<Rightarrow> int option" where
  "expires_for bucket window_seconds =
     (case window_seconds of
        None \<Rightarrow> None
      | Some w \<Rightarrow> if w \<le> 0 then None else Some (bucket + 2 * w))"

lemma bucket_for_bounds:
  assumes "0 < w"
  shows "bucket_for (Some w) now \<le> now" "now < bucket_for (Some w) now + w"
proof -
  have "bucket_for (Some w) now = now - now mod w"
    using assms by (simp add: bucket_for_def minus_mod_eq_div_mult)
  moreover have "0 \<le> now mod w" "now mod w < w" using assms by simp_all
  ultimately show "bucket_for (Some w) now \<le> now" "now < bucket_for (Some w) now + w"
    by linarith+
qed

section \<open>The Postgres driver\<close>

text \<open>The table \<open>usage_counters\<close> under its primary key \<open>(policy_id, principal_key, window_start)\<close>.\<close>

record pg_row =
  row_count :: int
  row_expires :: "int option"
  row_last_seen :: int

type_synonym pg_key = "string \<times> string \<times> int"
type_synonym pg_table = "pg_key \<Rightarrow> pg_row option"

text \<open>\<open>_INCR_AND_RETURN\<close>: insert, or on conflict add to the row.\<close>

definition sql_incr_and_return ::
  "int \<Rightarrow> pg_key \<Rightarrow> int \<Rightarrow> int option \<Rightarrow> pg_table \<Rightarrow> int \<times> pg_table" where
  "sql_incr_and_return now key amount expires tbl =
     (case tbl key of
        None \<Rightarrow>
          (amount, tbl(key \<mapsto> \<lparr>row_count = amount, row_expires = expires, row_last_seen = now\<rparr>))
      | Some r \<Rightarrow>
          (row_count r + amount,
           tbl(key \<mapsto> \<lparr>row_count = row_count r + amount,
                      row_expires = (case row_expires r of None \<Rightarrow> expires | e \<Rightarrow> e),
                      row_last_seen = now\<rparr>)))"

text \<open>
  \<open>_INCR_IF_BELOW\<close>: the insert branch is guarded by \<open>amount <= limit\<close>, the update branch by
  \<open>count + amount <= limit\<close>; the fallback reads the row as it was.
\<close>

definition sql_incr_if_below ::
  "int \<Rightarrow> pg_key \<Rightarrow> int \<Rightarrow> int \<Rightarrow> int option \<Rightarrow> pg_table \<Rightarrow> (int \<times> bool) \<times> pg_table" where
  "sql_incr_if_below now key amount limit expires tbl =
     (let cas = amount \<le> limit \<and> (case tbl key of None \<Rightarrow> True | Some r \<Rightarrow> row_count r + amount \<le> limit)
      in if cas
         then (let (n, tbl') = sql_incr_and_return now key amount expires tbl in ((n, True), tbl'))
         else ((case tbl key of None \<Rightarrow> 0 | Some r \<Rightarrow> row_count r, False), tbl))"

definition sql_get :: "pg_key \<Rightarrow> pg_table \<Rightarrow> int option" where
  "sql_get key tbl = map_option row_count (tbl key)"

definition sql_reset :: "pg_key \<Rightarrow> pg_table \<Rightarrow> pg_table" where
  "sql_reset key tbl = tbl(key := None)"

definition pg_incr ::
  "int \<Rightarrow> string \<Rightarrow> string \<Rightarrow> int option \<Rightarrow> int \<Rightarrow> (pg_table, py_exn, int) run" where
  "pg_incr now policy_id principal_key window_seconds amount tbl =
     (if amount \<le> 0 then (Inl ValueError, tbl)
      else (let bucket = bucket_for window_seconds now;
                (n, tbl') = sql_incr_and_return now (policy_id, principal_key, bucket) amount
                              (expires_for bucket window_seconds) tbl
            in (Inr n, tbl')))"

definition pg_get :: "int \<Rightarrow> string \<Rightarrow> string \<Rightarrow> int option \<Rightarrow> pg_table \<Rightarrow> int" where
  "pg_get now policy_id principal_key window_seconds tbl =
     (case sql_get (policy_id, principal_key, bucket_for window_seconds now) tbl of
        None \<Rightarrow> 0 | Some n \<Rightarrow> n)"

definition pg_incr_if_below ::
  "int \<Rightarrow> string \<Rightarrow> string \<Rightarrow> int \<Rightarrow> int option \<Rightarrow> int \<Rightarrow> (pg_table, py_exn, int \<times> bool) run" where
  "pg_incr_if_below now policy_id principal_key limit window_seconds amount tbl =
     (if amount \<le> 0 then (Inl ValueError, tbl)
      else (let bucket = bucket_for window_seconds now;
                (r, tbl') = sql_incr_if_below now (policy_id, principal_key, bucket) amount limit
                              (expires_for bucket window_seconds) tbl
            in (Inr r, tbl')))"

definition pg_reset :: "int \<Rightarrow> string \<Rightarrow> string \<Rightarrow> int option \<Rightarrow> pg_table \<Rightarrow> pg_table" where
  "pg_reset now policy_id principal_key window_seconds tbl =
     sql_reset (policy_id, principal_key, bucket_for window_seconds now) tbl"

text \<open>\<open>reap_expired\<close> deletes the rows whose expiry has passed; lifetime rows have none.\<close>

definition pg_reap_expired :: "int \<Rightarrow> pg_table \<Rightarrow> pg_table" where
  "pg_reap_expired now tbl =
     (\<lambda>key. case tbl key of
        None \<Rightarrow> None
      | Some r \<Rightarrow> (case row_expires r of
          Some e \<Rightarrow> if e < now then None else Some r
        | None \<Rightarrow> Some r))"

section \<open>The Valkey driver\<close>

text \<open>The server's keys with the instant (in milliseconds) at which each expires.\<close>

record vk_entry =
  vk_val :: int
  vk_expire :: "int option"

type_synonym vk_store = "string \<Rightarrow> vk_entry option"

definition vk_live :: "int \<Rightarrow> vk_store \<Rightarrow> string \<Rightarrow> vk_entry option" where
  "vk_live now_ms st key =
     (case st key of
        None \<Rightarrow> None
      | Some e \<Rightarrow> (case vk_expire e of
          None \<Rightarrow> Some e
        | Some t \<Rightarrow> if t \<le> now_ms then None else Some e))"

definition vk_incrby :: "int \<Rightarrow> string \<Rightarrow> int \<Rightarrow> vk_store \<Rightarrow> int \<times> vk_store" where
  "vk_incrby now_ms key amount st =
     (case vk_live now_ms st key of
        None \<Rightarrow> (amount, st(key \<mapsto> \<lparr>vk_val = amount, vk_expire = None\<rparr>))
      | Some e \<Rightarrow> (vk_val e + amount, st(key \<mapsto> e\<lparr>vk_val := vk_val e + amount\<rparr>)))"

definition vk_pexpire :: "int \<Rightarrow> string \<Rightarrow> int \<Rightarrow> vk_store \<Rightarrow> vk_store" where
  "vk_pexpire now_ms key ttl_ms st =
     (case vk_live now_ms st key of
        None \<Rightarrow> st
      | Some e \<Rightarrow> st(key \<mapsto> e\<lparr>vk_expire := Some (now_ms + ttl_ms)\<rparr>))"

text \<open>\<open>_INCR_IF_BELOW_SCRIPT\<close>.\<close>

definition vk_script :: "int \<Rightarrow> string \<Rightarrow> int \<Rightarrow> int \<Rightarrow> int \<Rightarrow> vk_store \<Rightarrow> (int \<times> bool) \<times> vk_store" where
  "vk_script now_ms key limit inc ttl_ms st =
     (let cur = (case vk_live now_ms st key of None \<Rightarrow> 0 | Some e \<Rightarrow> vk_val e) in
      if cur + inc > limit then ((cur, False), st)
      else
        (let (nv, st1) = vk_incrby now_ms key inc st;
             st2 = (if ttl_ms > 0 \<and> nv = inc then vk_pexpire now_ms key ttl_ms st1 else st1)
         in ((nv, True), st2)))"

text \<open>\<open>CountingCacheBackend.incr\<close>: the expiry is set on creation only.\<close>

definition vk_backend_incr :: "int \<Rightarrow> string \<Rightarrow> int \<Rightarrow> int option \<Rightarrow> vk_store \<Rightarrow> int \<times> vk_store" where
  "vk_backend_incr now_ms key amount ttl st =
     (let (nv, st1) = vk_incrby now_ms key amount st in
      (nv, case ttl of
             None \<Rightarrow> st1
           | Some t \<Rightarrow> if nv = amount then vk_pexpire now_ms key (t * 1000) st1 else st1))"

definition key_for :: "string \<Rightarrow> string \<Rightarrow> int \<Rightarrow> string" where
  "key_for policy_id principal_key bucket =
     ''uc:'' @ policy_id @ '':'' @ principal_key @ '':'' @ int_str bucket"

definition ttl_seconds :: "int option \<Rightarrow> int \<Rightarrow> int \<Rightarrow> int option" where
  "ttl_seconds window_seconds bucket now =
     (case expires_for bucket window_seconds of
        None \<Rightarrow> None
      | Some expires \<Rightarrow>
          (let ttl = expires - now in
           case window_seconds of
             Some w \<Rightarrow> if ttl < w then Some w else Some (max ttl 0)
           | None \<Rightarrow> Some (max ttl 0)))"

definition vk_incr ::
  "int \<Rightarrow> string \<Rightarrow> string \<Rightarrow> int option \<Rightarrow> int \<Rightarrow> (vk_store, py_exn, int) run" where
  "vk_incr now policy_id principal_key window_seconds amount st =
     (if amount \<le> 0 then (Inl ValueError, st)
      else (let bucket = bucket_for window_seconds now;
                (n, st') = vk_backend_incr (now * 1000) (key_for policy_id principal_key bucket) amount
                             (ttl_seconds window_seconds bucket now) st
            in (Inr n, st')))"

definition vk_get :: "int \<Rightarrow> string \<Rightarrow> string \<Rightarrow> int option \<Rightarrow> vk_store \<Rightarrow> int" where
  "vk_get now policy_id principal_key window_seconds st =
     (case vk_live (now * 1000) st (key_for policy_id principal_key (bucket_for window_seconds now)) of
        None \<Rightarrow> 0 | Some e \<Rightarrow> vk_val e)"

definition vk_incr_if_below ::
  "int \<Rightarrow> string \<Rightarrow> string \<Rightarrow> int \<Rightarrow> int option \<Rightarrow> int \<Rightarrow> (vk_store, py_exn, int \<times> bool) run" where
  "vk_incr_if_below now policy_id principal_key limit window_seconds amount st =
     (if amount \<le> 0 then (Inl ValueError, st)
      else (let bucket = bucket_for window_seconds now;
                ttl_ms = (case ttl_seconds window_seconds bucket now of None \<Rightarrow> 0 | Some t \<Rightarrow> t * 1000);
                (r, st') = vk_script (now * 1000) (key_for policy_id principal_key bucket) limit amount ttl_ms st
            in (Inr r, st')))"

definition vk_reset :: "int \<Rightarrow> string \<Rightarrow> string \<Rightarrow> int option \<Rightarrow> vk_store \<Rightarrow> vk_store" where
  "vk_reset now policy_id principal_key window_seconds st =
     st(key_for policy_id principal_key (bucket_for window_seconds now) := None)"

section \<open>The layered composite\<close>

text \<open>
  State of the composite: the two tiers with a flag that says whether each answers, the buffer of
  deltas awaiting a flush, and the current time.  A tier that does not answer raises.
\<close>

type_synonym delta = "string \<times> string \<times> int option \<times> int"

record layered =
  l_now :: int
  l_vk :: vk_store
  l_vk_up :: bool
  l_pg :: pg_table
  l_pg_up :: bool
  l_buffer :: "delta list"

definition on_vk :: "(int \<Rightarrow> (vk_store, py_exn, 'a) run) \<Rightarrow> (layered, py_exn, 'a) run" where
  "on_vk op s =
     (if l_vk_up s then (case op (l_now s) (l_vk s) of (r, vk') \<Rightarrow> (r, s\<lparr>l_vk := vk'\<rparr>))
      else (Inl RuntimeError, s))"

definition on_pg :: "(int \<Rightarrow> (pg_table, py_exn, 'a) run) \<Rightarrow> (layered, py_exn, 'a) run" where
  "on_pg op s =
     (if l_pg_up s then (case op (l_now s) (l_pg s) of (r, pg') \<Rightarrow> (r, s\<lparr>l_pg := pg'\<rparr>))
      else (Inl RuntimeError, s))"

text \<open>\<open>_record_pg_delta\<close>: lifetime counts are written through, an error there is only logged.\<close>

definition record_pg_delta :: "string \<Rightarrow> string \<Rightarrow> int option \<Rightarrow> int \<Rightarrow> layered \<Rightarrow> layered" where
  "record_pg_delta policy_id principal_key window_seconds amount s =
     (if (case window_seconds of None \<Rightarrow> True | Some w \<Rightarrow> w \<le> 0)
      then snd (on_pg (\<lambda>now. pg_incr now policy_id principal_key window_seconds amount) s)
      else s\<lparr>l_buffer := l_buffer s @ [(policy_id, principal_key, window_seconds, amount)]\<rparr>)"

definition layered_incr ::
  "string \<Rightarrow> string \<Rightarrow> int option \<Rightarrow> int \<Rightarrow> (layered, py_exn, int) run" where
  "layered_incr policy_id principal_key window_seconds amount s =
     (if amount \<le> 0 then (Inl ValueError, s)
      else (case on_vk (\<lambda>now. vk_incr now policy_id principal_key window_seconds amount) s of
              (Inl _, s1) \<Rightarrow> on_pg (\<lambda>now. pg_incr now policy_id principal_key window_seconds amount) s1
            | (Inr n, s1) \<Rightarrow>
                (Inr n, record_pg_delta policy_id principal_key window_seconds amount s1)))"

definition layered_incr_if_below ::
  "string \<Rightarrow> string \<Rightarrow> int \<Rightarrow> int option \<Rightarrow> int \<Rightarrow> (layered, py_exn, int \<times> bool) run" where
  "layered_incr_if_below policy_id principal_key limit window_seconds amount s =
     (if amount \<le> 0 then (Inl ValueError, s)
      else (case on_vk (\<lambda>now. vk_incr_if_below now policy_id principal_key limit window_seconds amount) s of
              (Inl _, s1) \<Rightarrow>
                on_pg (\<lambda>now. pg_incr_if_below now policy_id principal_key limit window_seconds amount) s1
            | (Inr (n, allowed), s1) \<Rightarrow>
                (Inr (n, allowed),
                 if allowed then record_pg_delta policy_id principal_key window_seconds amount s1 else s1)))"

definition layered_get ::
  "string \<Rightarrow> string \<Rightarrow> int option \<Rightarrow> (layered, py_exn, int) run" where
  "layered_get policy_id principal_key window_seconds s =
     (let v = (if l_vk_up s then vk_get (l_now s) policy_id principal_key window_seconds (l_vk s) else 0) in
      if v > 0 then (Inr v, s)
      else if l_pg_up s then (Inr (pg_get (l_now s) policy_id principal_key window_seconds (l_pg s)), s)
      else (Inl RuntimeError, s))"

definition layered_reset :: "string \<Rightarrow> string \<Rightarrow> int option \<Rightarrow> layered \<Rightarrow> layered" where
  "layered_reset policy_id principal_key window_seconds s =
     (let s1 = (if l_vk_up s
                then s\<lparr>l_vk := vk_reset (l_now s) policy_id principal_key window_seconds (l_vk s)\<rparr> else s)
      in if l_pg_up s1
         then s1\<lparr>l_pg := pg_reset (l_now s1) policy_id principal_key window_seconds (l_pg s1)\<rparr> else s1)"

definition layered_reap_expired :: "(layered, py_exn, unit) run" where
  "layered_reap_expired s =
     (if l_pg_up s then (Inr (), s\<lparr>l_pg := pg_reap_expired (l_now s) (l_pg s)\<rparr>)
      else (Inl RuntimeError, s))"

text \<open>\<open>_flush_to_postgres\<close>: collapse the deltas per key, then one increment per distinct key.\<close>

type_synonym merged = "((string \<times> string \<times> int option) \<times> int) list"

fun add_delta :: "delta \<Rightarrow> merged \<Rightarrow> merged" where
  "add_delta (p, k, w, a) merged = dset (p, k, w) (dget_or merged (p, k, w) 0 + a) merged"

definition merge_deltas :: "delta list \<Rightarrow> merged" where
  "merge_deltas deltas = fold add_delta deltas []"

fun flush_one :: "(string \<times> string \<times> int option) \<times> int \<Rightarrow> layered \<Rightarrow> layered" where
  "flush_one ((p, k, w), amount) s = snd (on_pg (\<lambda>now. pg_incr now p k w amount) s)"

definition flush_to_postgres :: "delta list \<Rightarrow> layered \<Rightarrow> layered" where
  "flush_to_postgres deltas s = fold flush_one (merge_deltas deltas) s"

text \<open>One turn of the buffer's flush: swap the buffer out, then write it.\<close>

definition layered_flush :: "layered \<Rightarrow> layered" where
  "layered_flush s = flush_to_postgres (l_buffer s) (s\<lparr>l_buffer := []\<rparr>)"

section \<open>The counter contract\<close>

text \<open>
  \<open>UsageCounterProtocol.incr_if_below\<close>: with a positive amount it answers whether the increment keeps
  the slot at or below the limit, commits it exactly then, returns the slot's value, and touches no
  other slot.  \<open>slot\<close> is the row a call addresses, \<open>cnt\<close> the value stored there.
\<close>

locale usage_counter =
  fixes incr_if_below :: "string \<Rightarrow> string \<Rightarrow> int \<Rightarrow> int option \<Rightarrow> int \<Rightarrow> ('s, py_exn, int \<times> bool) run"
    and slot :: "string \<Rightarrow> string \<Rightarrow> int option \<Rightarrow> 'k"
    and cnt :: "'s \<Rightarrow> 'k \<Rightarrow> int"
    and inv :: "'s \<Rightarrow> bool"
  assumes rejects: "amount \<le> 0 \<Longrightarrow> incr_if_below p k l w amount s = (Inl ValueError, s)"
    and cas: "inv s \<Longrightarrow> 0 < amount \<Longrightarrow>
      \<exists>s'. incr_if_below p k l w amount s =
             (Inr (if cnt s (slot p k w) + amount \<le> l then (cnt s (slot p k w) + amount, True)
                   else (cnt s (slot p k w), False)), s') \<and>
           inv s' \<and>
           cnt s' = (if cnt s (slot p k w) + amount \<le> l
                     then (cnt s)(slot p k w := cnt s (slot p k w) + amount) else cnt s)"

text \<open>Repeating a check-and-increment, counting how often it is allowed.\<close>

fun admit_count :: "('s, py_exn, int \<times> bool) run \<Rightarrow> nat \<Rightarrow> 's \<Rightarrow> nat \<times> 's" where
  "admit_count op 0 s = (0, s)"
| "admit_count op (Suc n) s =
     (case op s of
        (Inr (c, True), s') \<Rightarrow> (case admit_count op n s' of (m, s'') \<Rightarrow> (Suc m, s''))
      | (_, s') \<Rightarrow> admit_count op n s')"

context usage_counter
begin

lemma admits_exactly:
  "inv s \<Longrightarrow>
   fst (admit_count (incr_if_below p k l w 1) n s) = min n (nat (l - cnt s (slot p k w)))"
proof (induction n arbitrary: s)
  case (Suc n)
  obtain s' where s': "incr_if_below p k l w 1 s =
      (Inr (if cnt s (slot p k w) + 1 \<le> l then (cnt s (slot p k w) + 1, True)
            else (cnt s (slot p k w), False)), s')"
    and inv: "inv s'"
    and c: "cnt s' = (if cnt s (slot p k w) + 1 \<le> l
                then (cnt s)(slot p k w := cnt s (slot p k w) + 1) else cnt s)"
    using cas [OF Suc.prems, of 1 p k l w] by auto
  show ?case
  proof (cases "cnt s (slot p k w) + 1 \<le> l")
    case True
    then have "nat (l - cnt s (slot p k w)) = Suc (nat (l - cnt s' (slot p k w)))"
      using c by simp
    with True s' Suc.IH [OF inv] show ?thesis by (simp add: case_prod_beta)
  next
    case False
    with s' c Suc.IH [OF inv] show ?thesis by simp
  qed
qed simp

end

text \<open>The Postgres driver keeps the contract on tables of non-negative counts.\<close>

definition pg_count :: "pg_table \<Rightarrow> pg_key \<Rightarrow> int" where
  "pg_count tbl key = (case tbl key of None \<Rightarrow> 0 | Some r \<Rightarrow> row_count r)"

definition pg_inv :: "pg_table \<Rightarrow> bool" where
  "pg_inv tbl \<longleftrightarrow> (\<forall>key. 0 \<le> pg_count tbl key)"

definition pg_slot :: "int \<Rightarrow> string \<Rightarrow> string \<Rightarrow> int option \<Rightarrow> pg_key" where
  "pg_slot now p k w = (p, k, bucket_for w now)"

lemma pg_count_upd: "pg_count (tbl(key \<mapsto> r)) = (pg_count tbl)(key := row_count r)"
  by (rule ext) (simp add: pg_count_def)

lemma sql_incr_and_return_count:
  assumes "sql_incr_and_return now key a e tbl = (n, tbl')"
  shows "n = pg_count tbl key + a \<and> pg_count tbl' = (pg_count tbl)(key := pg_count tbl key + a)"
proof (cases "tbl key")
  case None
  then have "n = a" "tbl' = tbl(key \<mapsto> \<lparr>row_count = a, row_expires = e, row_last_seen = now\<rparr>)"
    using assms by (auto simp: sql_incr_and_return_def)
  moreover have "pg_count tbl key = 0" using None by (simp add: pg_count_def)
  ultimately show ?thesis by (simp add: pg_count_upd)
next
  case (Some r)
  then obtain x where "n = row_count r + a" "tbl' = tbl(key \<mapsto> x)" "row_count x = row_count r + a"
    using assms by (auto simp: sql_incr_and_return_def)
  moreover have "pg_count tbl key = row_count r" using Some by (simp add: pg_count_def)
  ultimately show ?thesis by (simp add: pg_count_upd)
qed

lemma pg_inv_upd: "pg_inv tbl \<Longrightarrow> 0 \<le> c \<Longrightarrow> pg_count tbl' = (pg_count tbl)(key := c) \<Longrightarrow> pg_inv tbl'"
  unfolding pg_inv_def by (metis fun_upd_apply)

lemma sql_incr_if_below_count:
  assumes "pg_inv tbl" "0 < a"
  shows "\<exists>tbl'. sql_incr_if_below now key a l e tbl =
     ((if pg_count tbl key + a \<le> l then (pg_count tbl key + a, True) else (pg_count tbl key, False)), tbl') \<and>
     pg_inv tbl' \<and>
     pg_count tbl' = (if pg_count tbl key + a \<le> l
        then (pg_count tbl)(key := pg_count tbl key + a) else pg_count tbl)"
proof -
  have nn: "0 \<le> pg_count tbl key" using assms(1) unfolding pg_inv_def by blast
  then have guard: "(a \<le> l \<and> (case tbl key of None \<Rightarrow> True | Some r \<Rightarrow> row_count r + a \<le> l))
      \<longleftrightarrow> pg_count tbl key + a \<le> l"
    by (auto simp: pg_count_def split: option.splits)
  obtain n tbl' where st: "sql_incr_and_return now key a e tbl = (n, tbl')"
    by (cases "sql_incr_and_return now key a e tbl")
  show ?thesis
  proof (cases "pg_count tbl key + a \<le> l")
    case True
    have "pg_inv tbl'"
      using sql_incr_and_return_count [OF st] nn assms(2)
      by (intro pg_inv_upd [OF assms(1), of "pg_count tbl key + a" tbl' key]) simp_all
    with True st guard sql_incr_and_return_count [OF st] show ?thesis
      by (simp add: sql_incr_if_below_def Let_def)
  next
    case False
    then have "\<not> (a \<le> l \<and> (case tbl key of None \<Rightarrow> True | Some r \<Rightarrow> row_count r + a \<le> l))"
      unfolding guard .
    with False assms(1) show ?thesis
      by (auto simp: sql_incr_if_below_def Let_def pg_count_def [of tbl key, symmetric])
  qed
qed

interpretation pgc: usage_counter "pg_incr_if_below now" "pg_slot now" pg_count pg_inv for now
proof (unfold_locales, goal_cases)
  case (2 s amount p k l w)
  then obtain tbl' where "sql_incr_if_below now (pg_slot now p k w) amount l (expires_for (bucket_for w now) w) s =
     ((if pg_count s (pg_slot now p k w) + amount \<le> l then (pg_count s (pg_slot now p k w) + amount, True)
       else (pg_count s (pg_slot now p k w), False)), tbl')"
    "pg_inv tbl'"
    "pg_count tbl' = (if pg_count s (pg_slot now p k w) + amount \<le> l
        then (pg_count s)(pg_slot now p k w := pg_count s (pg_slot now p k w) + amount) else pg_count s)"
    using sql_incr_if_below_count by blast
  with 2 show ?case by (auto simp: pg_incr_if_below_def pg_slot_def Let_def)
qed (simp add: pg_incr_if_below_def)

text \<open>The Valkey driver keeps it on every store.\<close>

definition vk_count :: "int \<Rightarrow> vk_store \<Rightarrow> string \<Rightarrow> int" where
  "vk_count now st key = (case vk_live (now * 1000) st key of None \<Rightarrow> 0 | Some e \<Rightarrow> vk_val e)"

definition vk_slot :: "int \<Rightarrow> string \<Rightarrow> string \<Rightarrow> int option \<Rightarrow> string" where
  "vk_slot now p k w = key_for p k (bucket_for w now)"

lemma vk_count_upd:
  "vk_count now (st(key \<mapsto> e)) =
     (vk_count now st)(key := (case vk_expire e of None \<Rightarrow> vk_val e
        | Some t \<Rightarrow> if t \<le> now * 1000 then 0 else vk_val e))"
  by (rule ext) (simp add: vk_count_def vk_live_def split: option.splits)

lemma vk_live_entry: "vk_live now_ms st key = Some e \<Longrightarrow> st key = Some e \<and> (\<forall>t. vk_expire e = Some t \<longrightarrow> now_ms < t)"
  by (auto simp: vk_live_def split: option.splits if_splits)

lemma vk_incrby_count:
  assumes "vk_incrby (now * 1000) key a st = (n, st')"
  shows "n = vk_count now st key + a \<and> vk_count now st' = (vk_count now st)(key := n) \<and>
         (\<exists>e. vk_live (now * 1000) st' key = Some e \<and> vk_val e = n)"
proof (cases "vk_live (now * 1000) st key")
  case None
  with assms show ?thesis
    by (auto simp: vk_incrby_def vk_count_upd vk_count_def vk_live_def)
next
  case (Some e)
  with assms vk_live_entry [OF Some] show ?thesis
    by (auto simp: vk_incrby_def vk_count_upd vk_count_def vk_live_def split: option.splits)
qed

lemma vk_pexpire_count:
  assumes "0 < t"
  shows "vk_count now (vk_pexpire (now * 1000) key t st) = vk_count now st"
proof (cases "vk_live (now * 1000) st key")
  case (Some e)
  then have "vk_count now st key = vk_val e" by (simp add: vk_count_def)
  with Some assms show ?thesis
    by (simp add: vk_pexpire_def vk_count_upd fun_upd_idem)
qed (simp add: vk_pexpire_def)

lemma vk_script_count:
  "\<exists>st'. vk_script (now * 1000) key l a t st =
     ((if vk_count now st key + a \<le> l then (vk_count now st key + a, True)
       else (vk_count now st key, False)), st') \<and>
     vk_count now st' = (if vk_count now st key + a \<le> l
        then (vk_count now st)(key := vk_count now st key + a) else vk_count now st)"
proof (cases "vk_count now st key + a \<le> l")
  case True
  obtain n st1 where st1: "vk_incrby (now * 1000) key a st = (n, st1)"
    by (cases "vk_incrby (now * 1000) key a st")
  with True vk_incrby_count [OF st1] show ?thesis
    by (simp add: vk_script_def Let_def vk_count_def [of now st key, symmetric] vk_pexpire_count)
next
  case False
  then show ?thesis by (simp add: vk_script_def Let_def vk_count_def)
qed

interpretation vkc: usage_counter "vk_incr_if_below now" "vk_slot now" "vk_count now" "\<lambda>_. True" for now
proof (unfold_locales, goal_cases)
  case (2 s amount p k l w)
  then show ?case
    using vk_script_count [of now "vk_slot now p k w" l amount
        "case ttl_seconds w (bucket_for w now) now of None \<Rightarrow> 0 | Some t \<Rightarrow> t * 1000" s]
    by (elim exE conjE) (simp add: vk_incr_if_below_def vk_slot_def Let_def)
qed (simp add: vk_incr_if_below_def)

section \<open>Windows\<close>

text \<open>
  A run of one-unit requests at the given instants against the Postgres driver, with the instant
  and the answer of each.
\<close>

fun pg_requests ::
  "string \<Rightarrow> string \<Rightarrow> int \<Rightarrow> int option \<Rightarrow> int list \<Rightarrow> pg_table \<Rightarrow> (int \<times> bool) list" where
  "pg_requests p k l w [] tbl = []"
| "pg_requests p k l w (t # ts) tbl =
     (case pg_incr_if_below t p k l w 1 tbl of
        (Inr (c, ok), tbl') \<Rightarrow> (t, ok) # pg_requests p k l w ts tbl'
      | (Inl e, tbl') \<Rightarrow> (t, False) # pg_requests p k l w ts tbl')"

text \<open>
  C34.  The Postgres counter enforces the limit exactly, per window: for every sequence of request
  instants, in any order and spread over any windows, the number of requests allowed whose instant
  falls in bucket \<open>b\<close> is the smaller of the number of requests in that bucket and the room the bucket
  had left.  Requests of other windows neither use up nor free any of it.
\<close>

theorem pg_window_limit_exact:
  assumes "pg_inv tbl"
  shows "length (filter (\<lambda>(t, ok). ok \<and> bucket_for w t = b) (pg_requests p k l w ts tbl)) =
         min (length (filter (\<lambda>t. bucket_for w t = b) ts)) (nat (l - pg_count tbl (p, k, b)))"
  using assms
proof (induction ts arbitrary: tbl)
  case (Cons t ts)
  let ?key = "(p, k, bucket_for w t)"
  obtain tbl' where r: "pg_incr_if_below t p k l w 1 tbl =
      (Inr (if pg_count tbl ?key + 1 \<le> l then (pg_count tbl ?key + 1, True) else (pg_count tbl ?key, False)), tbl')"
    and inv: "pg_inv tbl'"
    and c: "pg_count tbl' = (if pg_count tbl ?key + 1 \<le> l
              then (pg_count tbl)(?key := pg_count tbl ?key + 1) else pg_count tbl)"
    using pgc.cas [OF Cons.prems, of 1 t p k l w] by (auto simp: pg_slot_def)
  show ?case
  proof (cases "pg_count tbl ?key + 1 \<le> l \<and> bucket_for w t = b")
    case True
    then have b: "bucket_for w t = b" and room: "pg_count tbl (p, k, b) + 1 \<le> l" by auto
    have "nat (l - pg_count tbl (p, k, b)) = Suc (nat (l - pg_count tbl' (p, k, b)))"
      using c room by (simp add: b)
    with room r Cons.IH [OF inv] show ?thesis by (simp add: b)
  next
    case False
    then show ?thesis using r c Cons.IH [OF inv] by (auto split: if_splits)
  qed
qed simp

theorem pg_window_limit_exact_witness:
  "length (filter (\<lambda>(t, ok). ok \<and> bucket_for (Some 60) t = 60)
      (pg_requests ''p'' ''u'' 2 (Some 60) [61, 59, 70, 119, 120] Map.empty)) = 2"
proof -
  have inv: "pg_inv Map.empty" by (simp add: pg_inv_def pg_count_def)
  show ?thesis
    using pg_window_limit_exact [OF inv, of "Some 60" 60 "''p''" "''u''" 2 "[61, 59, 70, 119, 120]"]
    by (simp add: bucket_for_def pg_count_def)
qed

text \<open>
  A rate-limit key in Valkey outlives its window: the key created by the first allowed request of
  a window is given an expiry later than every instant of that window, so the counter cannot be
  lost and restarted before the window closes.
\<close>

theorem vk_key_outlives_window:
  assumes "0 < w" "0 < amount" "vk_live (now * 1000) st (vk_slot now p k (Some w)) = None"
    and "vk_incr_if_below now p k l (Some w) amount st = (Inr (c, True), st')"
    and "bucket_for (Some w) later = bucket_for (Some w) now" "now \<le> later"
  shows "\<exists>e. vk_live (later * 1000) st' (vk_slot now p k (Some w)) = Some e \<and> vk_val e = amount"
proof -
  let ?key = "vk_slot now p k (Some w)" and ?b = "bucket_for (Some w) now"
  have ttl: "ttl_seconds (Some w) ?b now = Some (?b + 2 * w - now)"
    using assms(1) bucket_for_bounds [OF assms(1), of now] by (auto simp: ttl_seconds_def expires_for_def)
  have pos: "0 < ?b + 2 * w - now" "later < ?b + 2 * w"
    using assms(1,5) bucket_for_bounds [OF assms(1), of now] bucket_for_bounds [OF assms(1), of later]
    by linarith+
  let ?e = "\<lparr>vk_val = amount, vk_expire = Some (now * 1000 + (?b + 2 * w - now) * 1000)\<rparr>"
  have "vk_script (now * 1000) ?key l amount ((?b + 2 * w - now) * 1000) st = ((c, True), st')"
    using assms(2,4) ttl by (auto simp: vk_incr_if_below_def vk_slot_def Let_def split: prod.splits)
  moreover have "vk_incrby (now * 1000) ?key amount st =
      (amount, st(?key \<mapsto> \<lparr>vk_val = amount, vk_expire = None\<rparr>))"
    using assms(3) by (simp add: vk_incrby_def)
  ultimately have "st' = st(?key \<mapsto> ?e)"
    using assms(3) pos by (auto simp: vk_script_def vk_pexpire_def vk_live_def Let_def split: if_splits)
  with pos show ?thesis by (simp add: vk_live_def)
qed

theorem vk_key_outlives_window_witness:
  "\<exists>e. vk_live (119 * 1000) (snd (vk_incr_if_below 61 ''p'' ''u'' 5 (Some 60) 1 Map.empty))
         (vk_slot 61 ''p'' ''u'' (Some 60)) = Some e \<and> vk_val e = 1"
proof (rule vk_key_outlives_window [where w = 60 and l = 5])
  show "vk_incr_if_below 61 ''p'' ''u'' 5 (Some 60) 1 Map.empty =
      (Inr (1, True), snd (vk_incr_if_below 61 ''p'' ''u'' 5 (Some 60) 1 Map.empty))"
    by (simp add: vk_incr_if_below_def vk_script_def vk_incrby_def vk_live_def Let_def)
qed (simp_all add: vk_live_def bucket_for_def)

section \<open>The write-behind buffer\<close>

text \<open>The units that a list of collapsed deltas, or of raw deltas, assigns to a row at a given instant.\<close>

definition slot_sum :: "int \<Rightarrow> pg_key \<Rightarrow> merged \<Rightarrow> int" where
  "slot_sum now key ms =
     sum_list (map snd (filter (\<lambda>((p, k, w), a). pg_slot now p k w = key) ms))"

definition delta_sum :: "int \<Rightarrow> pg_key \<Rightarrow> delta list \<Rightarrow> int" where
  "delta_sum now key ds =
     sum_list (map (\<lambda>(p, k, w, a). a) (filter (\<lambda>(p, k, w, a). pg_slot now p k w = key) ds))"

lemma slot_sum_dset:
  assumes "distinct (map fst ms)"
  shows "slot_sum now key (dset (p, k, w) (dget_or ms (p, k, w) 0 + a) ms) =
         slot_sum now key ms + (if pg_slot now p k w = key then a else 0)"
  using assms
proof (induction ms)
  case (Cons m ms)
  show ?case
  proof (cases "fst m = (p, k, w)")
    case True
    then show ?thesis by (cases m) (auto simp: slot_sum_def dget_or_def)
  next
    case False
    with Cons show ?thesis by (cases m) (auto simp: slot_sum_def dget_or_def)
  qed
qed (simp add: slot_sum_def dget_or_def)

lemma merge_fold:
  assumes "distinct (map fst ms)" "\<forall>m\<in>set ms. 0 < snd m" "\<forall>d\<in>set ds. 0 < snd (snd (snd d))"
  shows "distinct (map fst (fold add_delta ds ms)) \<and> (\<forall>m\<in>set (fold add_delta ds ms). 0 < snd m) \<and>
         slot_sum now key (fold add_delta ds ms) = slot_sum now key ms + delta_sum now key ds"
  using assms
proof (induction ds arbitrary: ms)
  case (Cons d ds)
  obtain p k w a where d: "d = (p, k, w, a)" by (cases d)
  let ?v = "dget_or ms (p, k, w) 0 + a"
  let ?ms = "dset (p, k, w) ?v ms"
  have "0 < ?v"
    using Cons.prems(2,3) d by (fastforce simp: dget_or_def split: option.splits dest!: map_of_SomeD)
  then have pos: "\<forall>m\<in>set ?ms. 0 < snd m"
    using set_dset_subset [of "(p, k, w)" ?v ms] Cons.prems(2) by auto
  have "distinct (map fst ?ms)" using Cons.prems(1) by simp
  from Cons.IH [OF this pos] Cons.prems(3) d slot_sum_dset [OF Cons.prems(1), of now key p k w a]
  show ?case by (simp add: delta_sum_def)
qed (simp add: delta_sum_def)

lemma flush_one_count:
  assumes "l_pg_up s" "0 < a"
  shows "\<exists>tbl'. flush_one ((p, k, w), a) s = s\<lparr>l_pg := tbl'\<rparr> \<and>
    pg_count tbl' = (pg_count (l_pg s))(pg_slot (l_now s) p k w := pg_count (l_pg s) (pg_slot (l_now s) p k w) + a)"
proof -
  obtain n tbl' where st: "sql_incr_and_return (l_now s) (pg_slot (l_now s) p k w) a
      (expires_for (bucket_for w (l_now s)) w) (l_pg s) = (n, tbl')"
    by (cases "sql_incr_and_return (l_now s) (pg_slot (l_now s) p k w) a
      (expires_for (bucket_for w (l_now s)) w) (l_pg s)")
  then have "flush_one ((p, k, w), a) s = s\<lparr>l_pg := tbl'\<rparr>"
    using assms by (simp add: on_pg_def pg_incr_def pg_slot_def Let_def)
  with sql_incr_and_return_count [OF st] show ?thesis by blast
qed

lemma flush_fold:
  assumes "l_pg_up s" "\<forall>m\<in>set ms. 0 < snd m"
  shows "l_vk (fold flush_one ms s) = l_vk s \<and> l_buffer (fold flush_one ms s) = l_buffer s \<and>
         pg_count (l_pg (fold flush_one ms s)) key = pg_count (l_pg s) key + slot_sum (l_now s) key ms"
  using assms
proof (induction ms arbitrary: s)
  case (Cons m ms)
  obtain p k w a where m: "m = ((p, k, w), a)" by (cases m) auto
  obtain tbl' where tbl': "flush_one m s = s\<lparr>l_pg := tbl'\<rparr>"
    "pg_count tbl' = (pg_count (l_pg s))(pg_slot (l_now s) p k w := pg_count (l_pg s) (pg_slot (l_now s) p k w) + a)"
    using flush_one_count [of s a p k w] Cons.prems m by auto
  from Cons.IH [of "s\<lparr>l_pg := tbl'\<rparr>"] Cons.prems tbl' show ?case
    by (auto simp: slot_sum_def m)
qed (simp add: slot_sum_def)

text \<open>
  A flush of the write-behind buffer conserves the counts: with Postgres answering, every row
  receives exactly the sum of the buffered amounts that address it at the instant of the flush
  (collapsing repeated keys loses nothing), the buffer is emptied, and the Valkey tier is untouched.
\<close>

theorem layered_flush_conserves:
  assumes "l_pg_up s" "list_all (\<lambda>(p, k, w, a). 0 < a) (l_buffer s)"
  shows "l_buffer (layered_flush s) = [] \<and> l_vk (layered_flush s) = l_vk s \<and>
         pg_count (l_pg (layered_flush s)) key =
           pg_count (l_pg s) key + delta_sum (l_now s) key (l_buffer s)"
proof -
  let ?ms = "merge_deltas (l_buffer s)"
  have "\<forall>d\<in>set (l_buffer s). 0 < snd (snd (snd d))"
    using assms(2) by (auto simp: list_all_iff)
  then have ms: "\<forall>m\<in>set ?ms. 0 < snd m" "slot_sum (l_now s) key ?ms = delta_sum (l_now s) key (l_buffer s)"
    using merge_fold [of "[]" "l_buffer s" "l_now s" key]
    by (simp_all add: merge_deltas_def slot_sum_def)
  from flush_fold [of "s\<lparr>l_buffer := []\<rparr>" ?ms key] assms(1) ms show ?thesis
    by (simp add: layered_flush_def flush_to_postgres_def)
qed

definition layered_example :: layered where
  "layered_example = \<lparr>l_now = 61, l_vk = Map.empty, l_vk_up = True, l_pg = Map.empty, l_pg_up = True,
     l_buffer = [(''p'', ''u'', Some 60, 1), (''p'', ''v'', Some 60, 4), (''p'', ''u'', Some 60, 2)]\<rparr>"

theorem layered_flush_conserves_witness:
  "pg_count (l_pg (layered_flush layered_example)) (''p'', ''u'', 60) = 3"
  using layered_flush_conserves [of layered_example "(''p'', ''u'', 60)"]
  by (simp add: layered_example_def delta_sum_def pg_slot_def bucket_for_def pg_count_def)

text \<open>
  Buffered deltas are booked in the wrong window when the flush falls into the next one: a unit
  counted at second 59 of a 60-second window and flushed at second 60 leaves the row of its own
  window empty and appears in the row of the following window.
\<close>

theorem flush_books_next_window:
  "let s = layered_example\<lparr>l_now := 59, l_buffer := []\<rparr>;
       s1 = snd (layered_incr_if_below ''p'' ''u'' 5 (Some 60) 1 s);
       s2 = layered_flush (s1\<lparr>l_now := 60\<rparr>)
   in fst (layered_incr_if_below ''p'' ''u'' 5 (Some 60) 1 s) = Inr (1, True) \<and>
      pg_count (l_pg s2) (''p'', ''u'', 0) = 0 \<and> pg_count (l_pg s2) (''p'', ''u'', 60) = 1"
  by code_simp

text \<open>
  The lifetime cap does not survive a restart of Valkey: with a lifetime limit of one, a request is
  allowed, Valkey restarts empty, and the next request is allowed as well although the durable
  count has already reached the limit; the durable count ends at two.
\<close>

theorem lifetime_cap_lost_on_restart:
  "let s = layered_example\<lparr>l_buffer := []\<rparr>;
       (r1, s1) = layered_incr_if_below ''p'' ''u'' 1 None 1 s;
       s2 = s1\<lparr>l_vk := Map.empty\<rparr>;
       (r2, s3) = layered_incr_if_below ''p'' ''u'' 1 None 1 s2
   in r1 = Inr (1, True) \<and> pg_count (l_pg s2) (''p'', ''u'', 0) = 1 \<and>
      r2 = Inr (1, True) \<and> pg_count (l_pg s3) (''p'', ''u'', 0) = 2"
  by code_simp

text \<open>
  Counter rows do not tell window lengths apart: in the first minute of an hour a 60-second and
  a 3600-second limit of the same policy and principal address the same Postgres row and the same
  Valkey key, so requests checked against one use up the other.
\<close>

theorem windows_share_rows:
  assumes "0 \<le> h" "0 \<le> r" "r < 60"
  shows "pg_slot (3600 * h + r) p k (Some 60) = pg_slot (3600 * h + r) p k (Some 3600) \<and>
         vk_slot (3600 * h + r) p k (Some 60) = vk_slot (3600 * h + r) p k (Some 3600)"
proof -
  have "(3600 * h + r) div 60 = 60 * h" "(3600 * h + r) div 3600 = h"
    using assms by simp_all
  then show ?thesis by (simp add: pg_slot_def vk_slot_def bucket_for_def mult.commute)
qed

theorem windows_share_rows_witness:
  "pg_slot (3600 * 2 + 30) ''p'' ''u'' (Some 60) = pg_slot (3600 * 2 + 30) ''p'' ''u'' (Some 3600) \<and>
   vk_slot (3600 * 2 + 30) ''p'' ''u'' (Some 60) = vk_slot (3600 * 2 + 30) ''p'' ''u'' (Some 3600)"
  by (rule windows_share_rows) simp_all

end
