(* ===== verification/Auth_Policy.thy ===== *)
theory Auth_Policy
  imports Py_Values
begin

text \<open>
  The authorization vocabulary of \<open>models/auth.py\<close>: conditions, policies with their construction-time
  validators, and principals.  A condition's configuration is a JSON dictionary; handlers identify
  a configuration by the identity of its dictionary object, which is the field \<open>caddr\<close> (\<open>None\<close> for a
  dictionary built on the fly).
\<close>

section \<open>Conditions\<close>

record condition =
  ctype :: string
  caddr :: "nat option"
  cconfig :: dict

text \<open>
  \<open>Condition(**c_cfg)\<close>: the argument must be a dictionary with a string \<open>type\<close> and, when present, a
  dictionary \<open>config\<close>; other keys are ignored.  The configuration is copied.
\<close>

definition cond_of_json :: "json \<Rightarrow> py_exn + condition" where
  "cond_of_json j =
     (case j of
        JObj kvs \<Rightarrow>
          (case dget kvs ''type'' of
             Some (JScalar (SStr t)) \<Rightarrow>
               (case dget kvs ''config'' of
                  None \<Rightarrow> Inr \<lparr>ctype = t, caddr = None, cconfig = []\<rparr>
                | Some (JObj cfg) \<Rightarrow> Inr \<lparr>ctype = t, caddr = None, cconfig = cfg\<rparr>
                | Some _ \<Rightarrow> Inl ValueError)
           | _ \<Rightarrow> Inl ValueError)
      | _ \<Rightarrow> Inl TypeError)"

lemma cond_of_json_size:
  "cond_of_json j = Inr c \<Longrightarrow> cconfig c = [] \<or> size (JObj (cconfig c)) < size j"
  by (auto simp: cond_of_json_def split: json.splits option.splits scalar.splits dest: size_map_of)

section \<open>Policies\<close>

datatype effect = ALLOW | DENY

record policy =
  pol_id :: string
  pol_version :: string
  pol_effect :: effect
  pol_priority :: int
  pol_actions :: "string list"
  pol_resources :: "string list"
  pol_conditions :: "condition list"
  pol_partition_key :: "string option"

text \<open>\<open>matches_action\<close> and \<open>matches_resource\<close>: any pattern matches at the start of the string.\<close>

definition matches_action :: "pylib \<Rightarrow> policy \<Rightarrow> string \<Rightarrow> bool" where
  "matches_action L p action = list_ex (\<lambda>pat. re_match L pat action = Some True) (pol_actions p)"

definition matches_resource :: "pylib \<Rightarrow> policy \<Rightarrow> string \<Rightarrow> bool" where
  "matches_resource L p resource = list_ex (\<lambda>pat. re_match L pat resource = Some True) (pol_resources p)"

text \<open>\<open>s.upper()\<close> on ASCII letters.\<close>

definition upper_char :: "char \<Rightarrow> char" where
  "upper_char c =
     (let n = (of_char c :: nat) in if 97 \<le> n \<and> n \<le> 122 then char_of (n - 32) else c)"

definition upper :: "string \<Rightarrow> string" where
  "upper s = map upper_char s"

definition validate_effect :: "string \<Rightarrow> py_exn + effect" where
  "validate_effect v =
     (if upper v = ''ALLOW'' then Inr ALLOW
      else if upper v = ''DENY'' then Inr DENY
      else Inl ValueError)"

definition transform_wildcards :: "string list \<Rightarrow> string list" where
  "transform_wildcards vs = map (\<lambda>item. if item = ''*'' then ''.*'' else item) vs"

text \<open>
  \<open>_REDOS_PATTERN.search\<close>: an opening parenthesis, at least one character, then a quantifier, a
  closing parenthesis and another quantifier, with no line break in between.  \<open>redos_tail\<close> is told
  whether a character has been seen since the parenthesis.
\<close>

definition quantifier :: "char \<Rightarrow> bool" where
  "quantifier c \<longleftrightarrow> c = CHR ''+'' \<or> c = CHR ''*''"

fun redos_tail :: "bool \<Rightarrow> string \<Rightarrow> bool" where
  "redos_tail seen (a # b # c # s) =
     (seen \<and> quantifier a \<and> b = CHR '')'' \<and> quantifier c \<or>
      a \<noteq> CHR 0x0A \<and> redos_tail True (b # c # s))"
| "redos_tail seen _ = False"

fun redos :: "string \<Rightarrow> bool" where
  "redos [] = False"
| "redos (c # s) = (c = CHR ''('' \<and> redos_tail False s \<or> redos s)"

definition validate_regex :: "pylib \<Rightarrow> string list \<Rightarrow> py_exn + string list" where
  "validate_regex L vs =
     (if list_ex (\<lambda>pat. re_match L pat [] = None \<or> redos pat \<or> 512 < length pat) vs
      then Inl ValueError else Inr vs)"

text \<open>The construction of a policy: validators in field order, then the range of \<open>priority\<close>.\<close>

definition mk_policy ::
  "pylib \<Rightarrow> string \<Rightarrow> string \<Rightarrow> int \<Rightarrow> string list \<Rightarrow> string list \<Rightarrow> condition list \<Rightarrow> string option \<Rightarrow> py_exn + policy" where
  "mk_policy L i eff prio acts res conds pkey =
     bind_e (validate_effect eff) (\<lambda>e.
     if \<not> (-1000 \<le> prio \<and> prio \<le> 1000) then Inl ValueError
     else bind_e (validate_regex L (transform_wildcards acts)) (\<lambda>acts'.
          bind_e (validate_regex L (transform_wildcards res)) (\<lambda>res'.
            Inr \<lparr>pol_id = i, pol_version = ''1.0'', pol_effect = e, pol_priority = prio,
                 pol_actions = acts', pol_resources = res', pol_conditions = conds,
                 pol_partition_key = pkey\<rparr>)))"

section \<open>Principals\<close>

record principal =
  pr_id :: string
  pr_provider :: "string option"
  pr_subject_id :: "string option"
  pr_display_name :: "string option"
  pr_roles :: "string list"
  pr_custom_policies :: "policy list"
  pr_attributes :: dict
  pr_is_active :: bool
  pr_valid_until :: "int option"

text \<open>
  \<open>sync_id\<close>: a missing identifier is drawn fresh (the argument \<open>uuid\<close>) and a missing subject is filled
  from the display name.
\<close>

definition sync_id :: "string \<Rightarrow> principal \<Rightarrow> principal" where
  "sync_id uuid p =
     (let p1 = (if pr_id p = [] then p\<lparr>pr_id := uuid\<rparr> else p) in
      case pr_display_name p1 of
        Some n \<Rightarrow>
          if (pr_subject_id p1 = None \<or> pr_subject_id p1 = Some []) \<and> n \<noteq> []
          then p1\<lparr>pr_subject_id := Some n\<rparr> else p1
      | None \<Rightarrow> p1)"

section \<open>What construction guarantees\<close>

text \<open>The patterns of a constructed policy are valid, short and free of nested quantifiers.\<close>

definition wf_policy :: "pylib \<Rightarrow> policy \<Rightarrow> bool" where
  "wf_policy L p \<longleftrightarrow>
     (\<forall>pat\<in>set (pol_actions p) \<union> set (pol_resources p).
        re_match L pat [] \<noteq> None \<and> \<not> redos pat \<and> length pat \<le> 512) \<and>
     -1000 \<le> pol_priority p \<and> pol_priority p \<le> 1000"

lemma mk_policy_wf: "mk_policy L i eff prio acts res conds pkey = Inr p \<Longrightarrow> wf_policy L p"
  by (auto simp: mk_policy_def wf_policy_def validate_regex_def list_ex_iff validate_effect_def
      not_less split: if_splits)

definition nested_quantifier :: "string \<Rightarrow> bool" where
  "nested_quantifier s \<longleftrightarrow>
     (\<exists>u v q r w. s = u @ CHR ''('' # v @ q # CHR '')'' # r # w \<and> v \<noteq> [] \<and>
        CHR 0x0A \<notin> set v \<and> quantifier q \<and> quantifier r)"

lemma redos_tail_iff:
  "redos_tail seen s \<longleftrightarrow>
     (\<exists>v q r w. s = v @ q # CHR '')'' # r # w \<and> (seen \<or> v \<noteq> []) \<and>
        CHR 0x0A \<notin> set v \<and> quantifier q \<and> quantifier r)"
proof (induction seen s rule: redos_tail.induct)
  case (1 seen a b c s)
  show ?case (is "?l \<longleftrightarrow> (\<exists>v q r w. ?P v q r w)")
  proof
    assume ?l
    then consider "seen" "quantifier a" "b = CHR '')''" "quantifier c"
      | v q r w where "a \<noteq> CHR 0x0A" "b # c # s = v @ q # CHR '')'' # r # w" "CHR 0x0A \<notin> set v"
        "quantifier q" "quantifier r"
      using 1 by auto
    then show "\<exists>v q r w. ?P v q r w"
    proof cases
      case 1
      then show ?thesis by (intro exI [of _ "[]"]) auto
    next
      case (2 v q r w)
      then show ?thesis by (intro exI [of _ "a # v"] exI [of _ q] exI [of _ r] exI [of _ w]) auto
    qed
  next
    assume "\<exists>v q r w. ?P v q r w"
    then obtain v q r w where P: "?P v q r w" by blast
    then show ?l
    proof (cases v)
      case (Cons x v')
      with P have "a \<noteq> CHR 0x0A" "b # c # s = v' @ q # CHR '')'' # r # w" "CHR 0x0A \<notin> set v'" by auto
      with P 1 have "redos_tail True (b # c # s)" by blast
      with \<open>a \<noteq> CHR 0x0A\<close> show ?thesis by (simp only: redos_tail.simps) blast
    qed auto
  qed
qed (auto dest!: arg_cong [where f = length])

lemma nested_quantifier_Cons:
  "nested_quantifier (c # s) \<longleftrightarrow> c = CHR ''('' \<and> redos_tail False s \<or> nested_quantifier s"
proof
  assume "nested_quantifier (c # s)"
  then obtain u v q r w where P: "c # s = u @ CHR ''('' # v @ q # CHR '')'' # r # w" "v \<noteq> []"
    "CHR 0x0A \<notin> set v" "quantifier q" "quantifier r"
    unfolding nested_quantifier_def by blast
  show "c = CHR ''('' \<and> redos_tail False s \<or> nested_quantifier s"
  proof (cases u)
    case Nil
    with P show ?thesis unfolding redos_tail_iff by auto
  next
    case (Cons x u')
    with P have "s = u' @ CHR ''('' # v @ q # CHR '')'' # r # w" by simp
    with P(2-) show ?thesis unfolding nested_quantifier_def by blast
  qed
next
  assume "c = CHR ''('' \<and> redos_tail False s \<or> nested_quantifier s"
  then show "nested_quantifier (c # s)"
  proof
    assume "c = CHR ''('' \<and> redos_tail False s"
    then obtain v q r w where "c # s = [] @ CHR ''('' # v @ q # CHR '')'' # r # w" "v \<noteq> []"
      "CHR 0x0A \<notin> set v" "quantifier q" "quantifier r"
      unfolding redos_tail_iff by auto
    then show ?thesis unfolding nested_quantifier_def by blast
  next
    assume "nested_quantifier s"
    then obtain u v q r w where "c # s = (c # u) @ CHR ''('' # v @ q # CHR '')'' # r # w" "v \<noteq> []"
      "CHR 0x0A \<notin> set v" "quantifier q" "quantifier r"
      unfolding nested_quantifier_def by auto
    then show ?thesis unfolding nested_quantifier_def by blast
  qed
qed

lemma redos_iff: "redos s \<longleftrightarrow> nested_quantifier s"
  by (induction s) (simp_all add: nested_quantifier_Cons, simp add: nested_quantifier_def)

text \<open>
  A policy that passes construction has only valid action and resource patterns of at most 512
  characters, none of which contains a group that ends in a quantifier and is itself quantified
  (the shape of exponential backtracking), and a priority between -1000 and 1000; a lone \<open>*\<close> has
  become the pattern that matches everything.
\<close>

theorem mk_policy_patterns_safe:
  assumes "mk_policy L i eff prio acts res conds pkey = Inr p"
  shows "(\<forall>pat\<in>set (pol_actions p) \<union> set (pol_resources p).
            re_match L pat [] \<noteq> None \<and> \<not> nested_quantifier pat \<and> length pat \<le> 512 \<and> pat \<noteq> ''*'') \<and>
         -1000 \<le> pol_priority p \<and> pol_priority p \<le> 1000"
proof -
  have "pol_actions p = transform_wildcards acts" "pol_resources p = transform_wildcards res"
    using assms by (auto simp: mk_policy_def validate_regex_def validate_effect_def split: if_splits)
  then have "pat \<noteq> ''*''" if "pat \<in> set (pol_actions p) \<union> set (pol_resources p)" for pat
    using that by (auto simp: transform_wildcards_def)
  with mk_policy_wf [OF assms] show ?thesis
    unfolding wf_policy_def redos_iff by blast
qed

theorem mk_policy_patterns_safe_witness:
  "\<exists>p. mk_policy plain_lib ''read_all'' ''allow'' 5 [''READ''] [''*''] [] None = Inr p \<and>
       (\<forall>pat\<in>set (pol_actions p) \<union> set (pol_resources p).
            re_match plain_lib pat [] \<noteq> None \<and> \<not> nested_quantifier pat \<and> length pat \<le> 512 \<and> pat \<noteq> ''*'')"
proof -
  let ?p = "\<lparr>pol_id = ''read_all'', pol_version = ''1.0'', pol_effect = ALLOW, pol_priority = 5,
     pol_actions = [''READ''], pol_resources = [''.*''], pol_conditions = [], pol_partition_key = None\<rparr>"
  have p: "mk_policy plain_lib ''read_all'' ''allow'' 5 [''READ''] [''*''] [] None = Inr ?p"
    by code_simp
  from mk_policy_patterns_safe [OF p] p show ?thesis by blast
qed

end
