(* ===== verification/Conditions.thy ===== *)
theory Conditions
  imports Auth_Policy Usage_Counter
begin

text \<open>
  The condition engine of \<open>modules/iam/conditions.py\<close>, \<open>modules/iam/audience_handlers.py\<close> and the
  delegating handler of \<open>modules/iam/filter_inspectors.py\<close>: every built-in handler, the registry and
  the recursive evaluation of nested conditions.  What the handlers call outside these modules is
  the record \<open>cond_env\<close>: the Python runtime, the clock, the counter backend, the membership lookup, the
  audience configurations, the request-filter inspectors registered with the \<open>filter\<close> handler (the
  geospatial one calls third-party geometry and query parsers) and the handlers registered through
  the plugin interface.
\<close>

section \<open>The evaluation context\<close>

text \<open>A request: header lookup, the peer address and the JSON body (\<open>None\<close> where reading it raises).\<close>

record request =
  rq_header :: "string \<Rightarrow> string option"
  rq_host :: "string option"
  rq_json :: "json option"

text \<open>
  \<open>EvaluationContext\<close>.  Of \<open>extras\<close>, the principal object and the map from configuration identity to
  policy id are fields of their own, as are the quota conditions collected from grants
  with the grants already seen; \<open>cx_extras\<close> is the rest.  \<open>cx_fresh\<close> bounds the identities of the
  dictionaries allocated so far.
\<close>

record eval_ctx =
  cx_request :: "request option"
  cx_principal_id :: "string option"
  cx_path :: string
  cx_method :: string
  cx_query :: "(string \<times> string) list"
  cx_requested_ttl :: int
  cx_catalog_id :: "string option"
  cx_principal :: "principal option"
  cx_policy_of_config :: "nat \<Rightarrow> string option"
  cx_extras :: "string \<Rightarrow> json option"
  cx_effect :: "effect option"
  cx_quota :: "condition list"
  cx_quota_seen :: "string list"
  cx_fresh :: nat

record membership =
  ms_platform :: bool
  ms_catalogs :: "string list"
  ms_catalog_roles :: "string \<Rightarrow> string list"

datatype iso_time = Naive int | Aware int

record 'w counter =
  ct_incr_if_below :: "string \<Rightarrow> string \<Rightarrow> int \<Rightarrow> int option \<Rightarrow> ('w, py_exn, int \<times> bool) run"
  ct_get :: "string \<Rightarrow> string \<Rightarrow> int option \<Rightarrow> ('w, py_exn, int) run"

text \<open>
  A \<open>RequestFilterInspector\<close>: whether it applies to the request, and its verdict.
\<close>

record 'w inspector =
  can_inspect :: "eval_ctx option \<Rightarrow> dict \<Rightarrow> py_exn + bool"
  inspect_filter :: "eval_ctx option \<Rightarrow> dict \<Rightarrow> ('w, py_exn, bool) run"

text \<open>
  \<open>en_now\<close> is the clock in microseconds; \<open>en_iso\<close> is \<open>datetime.fromisoformat\<close> (\<open>None\<close> on a malformed
  date); \<open>en_bool\<close> is the lenient reading of a boolean by the model validator; \<open>en_lookup_public\<close> and
  \<open>en_write_anonymous\<close> are the audience configurations, false where one is missing or unreadable.
\<close>

record 'w cond_env =
  en_lib :: pylib
  en_now :: int
  en_iso :: "string \<Rightarrow> iso_time option"
  en_bool :: "json \<Rightarrow> bool option"
  en_sysadmin :: string
  en_counter :: "'w counter option"
  en_membership :: "(string \<Rightarrow> string \<Rightarrow> membership) option"
  en_lookup_public :: "string \<Rightarrow> bool"
  en_write_anonymous :: "string \<Rightarrow> json \<Rightarrow> bool"
  en_inspectors :: "string \<Rightarrow> 'w inspector option"
  en_plugins :: "string \<Rightarrow> (dict \<Rightarrow> eval_ctx option \<Rightarrow> ('w, py_exn, bool) run) option"

section \<open>Helpers\<close>

text \<open>\<open>for x in j\<close>: lists, the keys of a dictionary, the characters of a string.\<close>

definition py_iter :: "json \<Rightarrow> py_exn + json list" where
  "py_iter j =
     (case j of
        JList xs \<Rightarrow> Inr xs
      | JObj kvs \<Rightarrow> Inr (map (JStr \<circ> fst) kvs)
      | JScalar (SStr s) \<Rightarrow> Inr (map (\<lambda>c. JStr [c]) s)
      | _ \<Rightarrow> Inl TypeError)"

definition py_or :: "json \<Rightarrow> json \<Rightarrow> json" where
  "py_or a b = (if truthy a then a else b)"

text \<open>Order comparison of a number with a JSON value; other types raise.\<close>

definition json_num :: "json \<Rightarrow> py_exn + pyfloat" where
  "json_num j =
     (case j of
        JScalar s \<Rightarrow> (case num_of s of Some f \<Rightarrow> Inr f | None \<Rightarrow> Inl TypeError)
      | _ \<Rightarrow> Inl TypeError)"

definition fle :: "pyfloat \<Rightarrow> pyfloat \<Rightarrow> bool" where
  "fle a b \<longleftrightarrow> flt a b \<or> feq a b"

definition safe_regex_matches :: "pylib \<Rightarrow> string \<Rightarrow> string \<Rightarrow> bool \<Rightarrow> bool option" where
  "safe_regex_matches L pattern v fullmatch =
     (if fullmatch then re_fullmatch L pattern v else re_search L pattern v)"

text \<open>\<open>s.strip()\<close> and \<open>s.split(",", 1)[0]\<close>.\<close>

definition is_space :: "char \<Rightarrow> bool" where
  "is_space c \<longleftrightarrow>
     (let n = (of_char c :: nat) in
      9 \<le> n \<and> n \<le> 13 \<or> 28 \<le> n \<and> n \<le> 32 \<or> n = 133 \<or> n = 160)"

definition strip :: "string \<Rightarrow> string" where
  "strip s = rev (dropWhile is_space (rev (dropWhile is_space s)))"

definition client_ip_from_request :: "request option \<Rightarrow> string option" where
  "client_ip_from_request rq =
     (case rq of
        None \<Rightarrow> None
      | Some r \<Rightarrow>
          (let host = (case rq_host r of None \<Rightarrow> None | Some h \<Rightarrow> if h = [] then None else Some h) in
           case rq_header r ''x-forwarded-for'' of
             None \<Rightarrow> host
           | Some xff \<Rightarrow>
               (let first = strip (takeWhile (\<lambda>c. c \<noteq> CHR '','') xff) in
                if xff \<noteq> [] \<and> first \<noteq> [] then Some first else host)))"

text \<open>
  \<open>_policy_id_for\<close>; \<open>None\<close> for a falsy result.  A counter key is text, so a legacy on-config id of
  another type is kept as it is and refused when the counter is called.
\<close>

definition policy_id_for :: "nat option \<Rightarrow> dict \<Rightarrow> eval_ctx \<Rightarrow> json option" where
  "policy_id_for addr config ctx =
     (case (case addr of None \<Rightarrow> None | Some a \<Rightarrow> cx_policy_of_config ctx a) of
        Some pid \<Rightarrow> if pid \<noteq> [] then Some (JStr pid)
                    else (let v = jget config ''_policy_id'' in if truthy v then Some v else None)
      | None \<Rightarrow> (let v = jget config ''_policy_id'' in if truthy v then Some v else None))"

definition principal_key_for :: "json \<Rightarrow> eval_ctx \<Rightarrow> py_exn + string option" where
  "principal_key_for scope ctx =
     (if scope = JStr ''principal'' then Inr (cx_principal_id ctx)
      else if scope = JStr ''role'' then
        Inr (case cx_principal ctx of
               None \<Rightarrow> None
             | Some p \<Rightarrow> (case pr_roles p of [] \<Rightarrow> None | r # _ \<Rightarrow> Some r))
      else if scope = JStr ''client_ip'' then
        Inr (map_option (\<lambda>host. ''ip:'' @ host) (client_ip_from_request (cx_request ctx)))
      else if scope = JStr ''catalog'' then Inr (cx_catalog_id ctx)
      else Inl IamError)"

fun upper_json :: "json \<Rightarrow> py_exn + string" where
  "upper_json (JScalar (SStr s)) = Inr (upper s)"
| "upper_json _ = Inl AttributeError"

definition path_method_matches :: "pylib \<Rightarrow> dict \<Rightarrow> eval_ctx \<Rightarrow> py_exn + bool" where
  "path_method_matches L config ctx =
     (let pattern = jget config ''path_pattern'';
          pattern_ok =
            (if truthy pattern then
               (case pattern of
                  JScalar (SStr p) \<Rightarrow> Inr (safe_regex_matches L p (cx_path ctx) False = Some True)
                | _ \<Rightarrow> Inl TypeError)
             else Inr True)
      in bind_e pattern_ok (\<lambda>ok.
           if \<not> ok then Inr False
           else (let ms = jget config ''methods'' in
                 if truthy ms then
                   bind_e (py_iter ms) (\<lambda>xs.
                   bind_e (map_e upper_json xs) (\<lambda>us. Inr (upper (cx_method ctx) \<in> set us)))
                 else Inr True)))"

section \<open>Counter-backed handlers\<close>

definition rate_limit_eval ::
  "'w cond_env \<Rightarrow> nat option \<Rightarrow> dict \<Rightarrow> eval_ctx \<Rightarrow> ('w, py_exn, bool) run" where
  "rate_limit_eval E addr config ctx =
     bind_r (lift_r (path_method_matches (en_lib E) config ctx)) (\<lambda>matched.
     if \<not> matched then ret True
     else (case policy_id_for addr config ctx of
       None \<Rightarrow> ret True
     | Some policy_id \<Rightarrow>
         bind_r (lift_r (principal_key_for (jget_or config ''scope'' (JStr ''principal'')) ctx)) (\<lambda>key.
         case key of
           None \<Rightarrow> ret True
         | Some principal_key \<Rightarrow>
             (case en_counter E of
                None \<Rightarrow>
                  if jget_or config ''mode'' (JStr ''graceful'') = JStr ''strict''
                  then throw RateLimitExceededError else ret True
              | Some counter \<Rightarrow>
                  bind_r (lift_r (lib_int (en_lib E) (jget_or config ''limit'' (JInt 0)))) (\<lambda>limit.
                  bind_r (lift_r (lib_int (en_lib E) (jget_or config ''window_seconds'' (JInt 60)))) (\<lambda>window.
                  if limit \<le> 0 \<or> window \<le> 0 then ret True
                  else (case policy_id of
                    JScalar (SStr pid) \<Rightarrow>
                      bind_r (ct_incr_if_below counter pid principal_key limit (Some window))
                        (\<lambda>(count, allowed). if allowed then ret True else throw RateLimitExceededError)
                  | _ \<Rightarrow> throw TypeError)))))))"

definition max_count_eval ::
  "'w cond_env \<Rightarrow> nat option \<Rightarrow> dict \<Rightarrow> eval_ctx \<Rightarrow> ('w, py_exn, bool) run" where
  "max_count_eval E addr config ctx =
     bind_r (lift_r (path_method_matches (en_lib E) config ctx)) (\<lambda>matched.
     if \<not> matched then ret True
     else (case policy_id_for addr config ctx of
       None \<Rightarrow> ret True
     | Some policy_id \<Rightarrow>
         bind_r (lift_r (principal_key_for (jget_or config ''scope'' (JStr ''principal'')) ctx)) (\<lambda>key.
         case key of
           None \<Rightarrow> ret True
         | Some principal_key \<Rightarrow>
             (case en_counter E of
                None \<Rightarrow>
                  if jget_or config ''mode'' (JStr ''graceful'') = JStr ''strict''
                  then throw QuotaExceededError else ret True
              | Some counter \<Rightarrow>
                  bind_r (lift_r (lib_int (en_lib E)
                     (jget_or config ''limit'' (jget_or config ''max_count'' (JInt 0))))) (\<lambda>limit.
                  if limit \<le> 0 then ret True
                  else (case policy_id of
                    JScalar (SStr pid) \<Rightarrow>
                      bind_r (ct_incr_if_below counter pid principal_key limit None)
                        (\<lambda>(count, allowed). if allowed then ret True else throw QuotaExceededError)
                  | _ \<Rightarrow> throw TypeError))))))"

text \<open>The \<open>inspect\<close> payloads; a failing counter read is reported as zero.\<close>

definition counter_used ::
  "'w cond_env \<Rightarrow> json option \<Rightarrow> string option \<Rightarrow> int option \<Rightarrow> 'w \<Rightarrow> int \<times> 'w" where
  "counter_used E policy_id principal_key window w =
     (case (en_counter E, policy_id, principal_key) of
        (Some counter, Some (JScalar (SStr pid)), Some key) \<Rightarrow>
          (case ct_get counter pid key window w of (Inr n, w') \<Rightarrow> (n, w') | (Inl _, w') \<Rightarrow> (0, w'))
      | _ \<Rightarrow> (0, w))"

definition inspect_key :: "json option \<Rightarrow> json \<Rightarrow> eval_ctx \<Rightarrow> py_exn + string option" where
  "inspect_key policy_id scope ctx =
     (case policy_id of None \<Rightarrow> Inr None | Some _ \<Rightarrow> principal_key_for scope ctx)"

definition rate_limit_inspect ::
  "'w cond_env \<Rightarrow> nat option \<Rightarrow> dict \<Rightarrow> eval_ctx \<Rightarrow> ('w, py_exn, dict) run" where
  "rate_limit_inspect E addr config ctx =
     (let policy_id = policy_id_for addr config ctx;
          scope = jget_or config ''scope'' (JStr ''principal'') in
      bind_r (lift_r (inspect_key policy_id scope ctx)) (\<lambda>key.
      bind_r (lift_r (lib_int (en_lib E) (jget_or config ''limit'' (JInt 0)))) (\<lambda>limit.
      bind_r (lift_r (lib_int (en_lib E) (jget_or config ''window_seconds'' (JInt 60)))) (\<lambda>window.
      \<lambda>w. (case counter_used E policy_id key (Some window) w of
        (used, w') \<Rightarrow>
          (let now_ts = en_now E div 1000000 in
           (Inr [(''type'', JStr ''rate_limit''), (''scope'', scope), (''limit'', JInt limit),
                 (''used'', JInt used), (''remaining'', JInt (max (limit - used) 0)),
                 (''window_seconds'', JInt window),
                 (''reset_at'', if window > 0 then JInt ((now_ts div window + 1) * window) else JNone)],
            w')))))))"

definition max_count_inspect ::
  "'w cond_env \<Rightarrow> nat option \<Rightarrow> dict \<Rightarrow> eval_ctx \<Rightarrow> ('w, py_exn, dict) run" where
  "max_count_inspect E addr config ctx =
     (let policy_id = policy_id_for addr config ctx;
          scope = jget_or config ''scope'' (JStr ''principal'') in
      bind_r (lift_r (inspect_key policy_id scope ctx)) (\<lambda>key.
      bind_r (lift_r (lib_int (en_lib E)
         (jget_or config ''limit'' (jget_or config ''max_count'' (JInt 0))))) (\<lambda>limit.
      \<lambda>w. (case counter_used E policy_id key None w of
        (used, w') \<Rightarrow>
          (Inr [(''type'', JStr ''max_count''), (''scope'', scope), (''limit'', JInt limit),
                (''used'', JInt used), (''remaining'', JInt (max (limit - used) 0))], w')))))"

section \<open>Stateless handlers\<close>

text \<open>\<open>_field_present\<close>: absent, empty string, empty list and empty dictionary do not count.\<close>

definition field_present :: "dict \<Rightarrow> json \<Rightarrow> bool" where
  "field_present flds key =
     (case key of
        JScalar (SStr k) \<Rightarrow>
          (let v = jget flds k in v \<noteq> JNone \<and> v \<noteq> JStr [] \<and> v \<noteq> JList [] \<and> v \<noteq> JObj [])
      | _ \<Rightarrow> False)"

definition read_body :: "eval_ctx \<Rightarrow> dict option" where
  "read_body ctx =
     (case cx_request ctx of
        None \<Rightarrow> None
      | Some r \<Rightarrow> (case rq_json r of Some (JObj kvs) \<Rightarrow> Some kvs | _ \<Rightarrow> None))"

definition default_lookup_fields :: "json list" where
  "default_lookup_fields = [JStr ''geoid'', JStr ''external_id'']"

definition default_broadening_fields :: "json list" where
  "default_broadening_fields =
     [JStr ''bbox'', JStr ''intersects'', JStr ''datetime'', JStr ''filter'', JStr ''q'']"

definition fields_or :: "dict \<Rightarrow> string \<Rightarrow> json list \<Rightarrow> py_exn + json list" where
  "fields_or config key dflt =
     (let v = jget config key in if truthy v then py_iter v else Inr dflt)"

definition lookup_only_search_eval :: "dict \<Rightarrow> eval_ctx \<Rightarrow> py_exn + bool" where
  "lookup_only_search_eval config ctx =
     bind_e (fields_or config ''lookup_fields'' default_lookup_fields) (\<lambda>lookup_fields.
     bind_e (fields_or config ''broadening_fields'' default_broadening_fields) (\<lambda>broadening_fields.
     let mthd = upper (cx_method ctx);
         flds = (if mthd = ''GET'' then Some (map (\<lambda>(k, v). (k, JStr v)) (cx_query ctx))
                   else if mthd = ''POST'' then read_body ctx
                   else None)
     in Inr (case flds of
               None \<Rightarrow> False
             | Some fs \<Rightarrow>
                 list_ex (field_present fs) lookup_fields \<and>
                 \<not> list_ex (field_present fs) broadening_fields)))"

text \<open>An invalid pattern counts as a match under a DENY policy and as no match otherwise.\<close>

definition effect_aware :: "eval_ctx \<Rightarrow> bool option \<Rightarrow> bool" where
  "effect_aware ctx matched = (case matched of None \<Rightarrow> cx_effect ctx = Some DENY | Some b \<Rightarrow> b)"

definition query_match_eval :: "pylib \<Rightarrow> dict \<Rightarrow> eval_ctx \<Rightarrow> py_exn + bool" where
  "query_match_eval L config ctx =
     (let param_key = jget config ''param''; pattern = jget config ''pattern'' in
      if cx_query ctx = [] then Inr True
      else if \<not> truthy param_key \<or> \<not> truthy pattern then Inr True
      else (case param_key of
              JScalar (SStr k) \<Rightarrow>
                (case dget (cx_query ctx) k of
                   None \<Rightarrow> Inr False
                 | Some v \<Rightarrow>
                     (case pattern of
                        JScalar (SStr p) \<Rightarrow> Inr (effect_aware ctx (safe_regex_matches L p v True))
                      | _ \<Rightarrow> Inl TypeError))
            | JScalar _ \<Rightarrow> Inr False
            | _ \<Rightarrow> Inl TypeError))"

text \<open>\<open>s.replace('Z', '+00:00')\<close>.\<close>

definition replace_Z :: "string \<Rightarrow> string" where
  "replace_Z s = concat (map (\<lambda>c. if c = CHR ''Z'' then ''+00:00'' else [c]) s)"

text \<open>
  Reading an ISO bound and comparing the clock with it: a value that is not a string has no
  \<open>replace\<close>, a malformed date is an \<open>IamError\<close>, and an aware clock cannot be compared with a date
  without offset.  The outcome is whether the clock is before, at or after the bound.
\<close>

definition iso_bound :: "'w cond_env \<Rightarrow> json \<Rightarrow> py_exn + int" where
  "iso_bound E v =
     (case v of
        JScalar (SStr s) \<Rightarrow>
          (case en_iso E (replace_Z s) of
             None \<Rightarrow> Inl IamError
           | Some (Naive _) \<Rightarrow> Inl TypeError
           | Some (Aware t) \<Rightarrow> Inr t)
      | _ \<Rightarrow> Inl AttributeError)"

definition now_hour :: "'w cond_env \<Rightarrow> int" where
  "now_hour E = (en_now E div 3600000000) mod 24"

definition now_weekday :: "'w cond_env \<Rightarrow> int" where
  "now_weekday E = (en_now E div 86400000000 + 3) mod 7"

definition time_window_eval :: "'w cond_env \<Rightarrow> dict \<Rightarrow> py_exn + bool" where
  "time_window_eval E config =
     (let start = jget config ''start''; finish = jget config ''end'';
          hour = Fin (of_int (now_hour E));
          start_ok = (if truthy start
                      then bind_e (iso_bound E start) (\<lambda>t. if en_now E < t then Inl AccessDeniedError else Inr ())
                      else Inr ());
          end_ok = (if truthy finish
                    then bind_e (iso_bound E finish) (\<lambda>t. if t < en_now E then Inl AccessDeniedError else Inr ())
                    else Inr ())
      in bind_e start_ok (\<lambda>_. bind_e end_ok (\<lambda>_.
         if truthy (jget_or config ''weekdays_only'' (JBool False)) \<and> now_weekday E > 4
         then Inl AccessDeniedError
         else bind_e (json_num (jget_or config ''start_hour'' (JInt 0))) (\<lambda>start_h.
              if \<not> fle start_h hour then Inl AccessDeniedError
              else bind_e (json_num (jget_or config ''end_hour'' (JInt 24))) (\<lambda>end_h.
                   if flt hour end_h then Inr True else Inl AccessDeniedError)))))"

definition expiration_eval :: "'w cond_env \<Rightarrow> dict \<Rightarrow> py_exn + bool" where
  "expiration_eval E config =
     (let v = jget config ''expires_at'' in
      if \<not> truthy v then Inr True
      else bind_e (iso_bound E v) (\<lambda>t. if t < en_now E then Inl AccessDeniedError else Inr True))"

definition max_token_ttl_eval :: "dict \<Rightarrow> eval_ctx \<Rightarrow> py_exn + bool" where
  "max_token_ttl_eval config ctx =
     (if cx_requested_ttl ctx \<le> 0 then Inr True
      else bind_e (json_num (jget_or config ''max_ttl_seconds'' (JInt 3600))) (\<lambda>m.
           Inr (\<not> flt m (Fin (of_int (cx_requested_ttl ctx))))))"

text \<open>\<open>AttributeMatchHandler._get_value\<close>; an exception inside reads as a missing value.\<close>

definition opt_json :: "string option \<Rightarrow> json" where
  "opt_json s = (case s of None \<Rightarrow> JNone | Some x \<Rightarrow> JStr x)"

definition get_value :: "json \<Rightarrow> eval_ctx \<Rightarrow> json" where
  "get_value attr ctx =
     (case attr of
        JScalar (SStr path) \<Rightarrow>
          if prefix ''query.'' path then opt_json (dget (cx_query ctx) (drop 6 path))
          else if prefix ''header.'' path then
            (case cx_request ctx of None \<Rightarrow> JNone | Some r \<Rightarrow> opt_json (rq_header r (drop 7 path)))
          else if path = ''path'' then JStr (cx_path ctx)
          else if path = ''method'' then JStr (cx_method ctx)
          else if path = ''principal.id'' then opt_json (cx_principal_id ctx)
          else if prefix ''principal.attributes.'' path then
            (case cx_principal ctx of None \<Rightarrow> JNone | Some p \<Rightarrow> jget (pr_attributes p) (drop 21 path))
          else if prefix ''extras.'' path then
            (case cx_extras ctx (drop 7 path) of None \<Rightarrow> JNone | Some v \<Rightarrow> v)
          else JNone
      | _ \<Rightarrow> JNone)"

definition compare_vals :: "pylib \<Rightarrow> json \<Rightarrow> json \<Rightarrow> json \<Rightarrow> eval_ctx \<Rightarrow> bool" where
  "compare_vals L actual operator expected ctx =
     (if operator = JStr ''eq'' then lib_str L actual = lib_str L expected
      else if operator = JStr ''neq'' then lib_str L actual \<noteq> lib_str L expected
      else if operator = JStr ''contains'' then sublist (lib_str L expected) (lib_str L actual)
      else if operator = JStr ''regex'' then
        effect_aware ctx (safe_regex_matches L (lib_str L expected) (lib_str L actual) False)
      else if operator = JStr ''gt'' then
        (case (lib_float L actual, lib_float L expected) of (Some a, Some e) \<Rightarrow> flt e a | _ \<Rightarrow> False)
      else if operator = JStr ''lt'' then
        (case (lib_float L actual, lib_float L expected) of (Some a, Some e) \<Rightarrow> flt a e | _ \<Rightarrow> False)
      else if operator = JStr ''in'' then
        (case expected of
           JList xs \<Rightarrow> json_in actual xs
         | _ \<Rightarrow> json_in actual (map JStr (split_on CHR '','' (lib_str L expected))))
      else False)"

definition match_eval :: "pylib \<Rightarrow> dict \<Rightarrow> eval_ctx \<Rightarrow> bool" where
  "match_eval L config ctx =
     (let attr_path = jget config ''attribute'' in
      if \<not> truthy attr_path then True
      else (let actual = get_value attr_path ctx in
            if actual = JNone then False
            else compare_vals L actual (jget_or config ''operator'' (JStr ''eq'')) (jget config ''value'') ctx))"

section \<open>Membership handlers\<close>

text \<open>\<open>CatalogAdminConditionConfig\<close> and its validation from a raw configuration.\<close>

record admin_config =
  ac_required_roles :: "string list"
  ac_sysadmin_role :: string
  ac_allow_platform :: bool
  ac_allow_sysadmin :: bool
  ac_allowed_presets :: "string list option"

fun json_str_list :: "json \<Rightarrow> py_exn + string list" where
  "json_str_list (JList xs) =
     map_e (\<lambda>x. case x of JScalar (SStr s) \<Rightarrow> Inr s | _ \<Rightarrow> Inl ValueError) xs"
| "json_str_list _ = Inl ValueError"

definition admin_config_of :: "'w cond_env \<Rightarrow> dict \<Rightarrow> py_exn + admin_config" where
  "admin_config_of E raw =
     bind_e (case dget raw ''required_roles'' of None \<Rightarrow> Inr [] | Some v \<Rightarrow> json_str_list v) (\<lambda>roles.
     bind_e (case dget raw ''sysadmin_role'' of
               None \<Rightarrow> Inr (en_sysadmin E)
             | Some (JScalar (SStr s)) \<Rightarrow> Inr s
             | Some _ \<Rightarrow> Inl ValueError) (\<lambda>sys.
     bind_e (case dget raw ''allow_platform'' of
               None \<Rightarrow> Inr True
             | Some v \<Rightarrow> (case en_bool E v of None \<Rightarrow> Inl ValueError | Some b \<Rightarrow> Inr b)) (\<lambda>plat.
     bind_e (case dget raw ''allow_sysadmin'' of
               None \<Rightarrow> Inr True
             | Some v \<Rightarrow> (case en_bool E v of None \<Rightarrow> Inl ValueError | Some b \<Rightarrow> Inr b)) (\<lambda>asys.
     bind_e (case dget raw ''allowed_preset_names'' of
               None \<Rightarrow> Inr None
             | Some (JScalar SNone) \<Rightarrow> Inr None
             | Some v \<Rightarrow> bind_e (json_str_list v) (\<lambda>ns. Inr (Some ns))) (\<lambda>presets.
     Inr \<lparr>ac_required_roles = roles, ac_sysadmin_role = sys, ac_allow_platform = plat,
          ac_allow_sysadmin = asys, ac_allowed_presets = presets\<rparr>)))))"

text \<open>\<open>_CATALOG_PRESET_PATH_RE.match\<close>: the preset name in \<open>/admin/catalogs/{cat}/presets/{name}\<close>.\<close>

definition preset_of_path :: "string \<Rightarrow> string option" where
  "preset_of_path path =
     (case split_on CHR ''/'' path of
        [e, a, c, cat, p, name] \<Rightarrow>
          if e = [] \<and> a = ''admin'' \<and> c = ''catalogs'' \<and> cat \<noteq> [] \<and> p = ''presets'' \<and> name \<noteq> []
          then Some name else None
      | _ \<Rightarrow> None)"

text \<open>The singular alias is promoted before validation.\<close>

definition promote_role :: "dict \<Rightarrow> dict" where
  "promote_role config =
     (case (dget config ''required_roles'', dget config ''required_role'') of
        (None, Some single) \<Rightarrow>
          dset ''required_roles'' (JList (if truthy single then [single] else []))
            (filter (\<lambda>kv. fst kv \<noteq> ''required_role'') config)
      | _ \<Rightarrow> config)"

definition nonempty :: "string option \<Rightarrow> string option" where
  "nonempty s = (case s of None \<Rightarrow> None | Some x \<Rightarrow> if x = [] then None else Some x)"

definition catalog_admin_eval :: "'w cond_env \<Rightarrow> dict \<Rightarrow> eval_ctx \<Rightarrow> py_exn + bool" where
  "catalog_admin_eval E config ctx =
     (case (nonempty (cx_catalog_id ctx), cx_principal ctx) of
        (Some catalog_id, Some p) \<Rightarrow>
          bind_e (admin_config_of E (promote_role config)) (\<lambda>cfg.
          if ac_allow_sysadmin cfg \<and> ac_sysadmin_role cfg \<in> set (pr_roles p) then Inr True
          else (case (nonempty (pr_provider p), nonempty (pr_subject_id p), en_membership E) of
                  (Some provider, Some subject_id, Some lookup) \<Rightarrow>
                    (let m = lookup provider subject_id in
                     Inr (ac_allow_platform cfg \<and> ms_platform m \<or>
                          list_ex (\<lambda>r. r \<in> set (ms_catalog_roles m catalog_id)) (ac_required_roles cfg) \<and>
                          (case (ac_allowed_presets cfg, preset_of_path (cx_path ctx)) of
                             (Some allowed, Some name) \<Rightarrow> name \<in> set allowed
                           | _ \<Rightarrow> True)))
                | _ \<Rightarrow> Inr False))
      | _ \<Rightarrow> Inr False)"

definition catalog_membership_eval :: "'w cond_env \<Rightarrow> dict \<Rightarrow> eval_ctx \<Rightarrow> bool" where
  "catalog_membership_eval E config ctx =
     (case (nonempty (cx_catalog_id ctx), cx_principal ctx) of
        (Some catalog_id, Some p) \<Rightarrow>
          (let sysadmin_role = lib_str (en_lib E) (jget_or config ''sysadmin_role'' (JStr (en_sysadmin E))) in
           if truthy (jget_or config ''allow_sysadmin'' (JBool True)) \<and> sysadmin_role \<in> set (pr_roles p)
           then True
           else (case (nonempty (pr_provider p), nonempty (pr_subject_id p), en_membership E) of
                   (Some provider, Some subject_id, Some lookup) \<Rightarrow>
                     (let m = lookup provider subject_id in
                      truthy (jget_or config ''allow_platform'' (JBool True)) \<and> ms_platform m \<or>
                      catalog_id \<in> set (ms_catalogs m))
                 | _ \<Rightarrow> False))
      | _ \<Rightarrow> False)"

definition read_action :: "eval_ctx \<Rightarrow> string option" where
  "read_action ctx =
     (case read_body ctx of
        None \<Rightarrow> None
      | Some body \<Rightarrow> (case jget body ''action'' of JScalar (SStr a) \<Rightarrow> nonempty (Some a) | _ \<Rightarrow> None))"

definition request_action_privilege_eval :: "'w cond_env \<Rightarrow> dict \<Rightarrow> eval_ctx \<Rightarrow> py_exn + bool" where
  "request_action_privilege_eval E config ctx =
     (if upper (cx_method ctx) \<noteq> ''POST'' then Inr False
      else bind_e (fields_or config ''gated_actions'' []) (\<lambda>gated_actions.
        if gated_actions = [] then Inr False
        else (case read_action ctx of
          None \<Rightarrow> Inr False
        | Some action \<Rightarrow>
            if \<not> json_in (JStr action) gated_actions then Inr False
            else (case cx_principal ctx of
              None \<Rightarrow> Inr False
            | Some p \<Rightarrow>
                (let L = en_lib E;
                     sysadmin_role = lib_str L (jget_or config ''sysadmin_role'' (JStr (en_sysadmin E)));
                     required_role = lib_str L (jget_or config ''required_role'' (JStr []))
                 in if truthy (jget_or config ''allow_sysadmin'' (JBool True)) \<and> sysadmin_role \<in> set (pr_roles p)
                    then Inr False
                    else if required_role \<noteq> [] \<and> required_role \<in> set (pr_roles p) then Inr False
                    else Inr True)))))"

section \<open>Audience handlers\<close>

text \<open>
  \<open>_COLLECTION_PATH_RE.search\<close>: the leftmost \<open>/catalogs/{cat}/collections/{col}\<close> in a path, over its
  segments after the first slash.
\<close>

fun find_collection :: "string list \<Rightarrow> string option" where
  "find_collection (a # b # c # d # segs) =
     (if a = ''catalogs'' \<and> b \<noteq> [] \<and> c = ''collections'' \<and> d \<noteq> [] then Some d
      else find_collection (b # c # d # segs))"
| "find_collection _ = None"

definition resolve_collection_id :: "eval_ctx \<Rightarrow> json" where
  "resolve_collection_id ctx =
     (let col = (case cx_extras ctx ''collection_id'' of None \<Rightarrow> JNone | Some v \<Rightarrow> v) in
      if truthy col then col
      else opt_json (find_collection (tl (split_on CHR ''/'' (cx_path ctx)))))"

definition catalog_lookup_audience_eval :: "'w cond_env \<Rightarrow> eval_ctx \<Rightarrow> bool" where
  "catalog_lookup_audience_eval E ctx =
     (case nonempty (cx_catalog_id ctx) of None \<Rightarrow> False | Some c \<Rightarrow> en_lookup_public E c)"

definition collection_write_audience_eval :: "'w cond_env \<Rightarrow> eval_ctx \<Rightarrow> bool" where
  "collection_write_audience_eval E ctx =
     (case nonempty (cx_catalog_id ctx) of
        None \<Rightarrow> False
      | Some c \<Rightarrow>
          (let col = resolve_collection_id ctx in truthy col \<and> en_write_anonymous E c col))"

section \<open>Request filters\<close>

text \<open>
  \<open>FilterConditionHandler.evaluate\<close>: the inspector named by the configuration decides; a missing or
  unregistered one reads as a match under a DENY policy and as no match otherwise.  An identifier that
  is not hashable cannot be looked up.
\<close>

definition deny_effect :: "eval_ctx option \<Rightarrow> py_exn + bool" where
  "deny_effect ctx = (case ctx of None \<Rightarrow> Inl AttributeError | Some cx \<Rightarrow> Inr (cx_effect cx = Some DENY))"

definition filter_eval :: "'w cond_env \<Rightarrow> dict \<Rightarrow> eval_ctx option \<Rightarrow> ('w, py_exn, bool) run" where
  "filter_eval E config ctx =
     (let inspector_id = jget config ''inspector'' in
      if \<not> truthy inspector_id then lift_r (deny_effect ctx)
      else (case inspector_id of
              JScalar (SStr i) \<Rightarrow>
                (case en_inspectors E i of
                   None \<Rightarrow> lift_r (deny_effect ctx)
                 | Some inspector \<Rightarrow>
                     bind_r (lift_r (can_inspect inspector ctx config)) (\<lambda>applies.
                       if \<not> applies then ret True else inspect_filter inspector ctx config))
            | JScalar _ \<Rightarrow> lift_r (deny_effect ctx)
            | _ \<Rightarrow> throw TypeError))"

section \<open>The registry\<close>

definition builtin_types :: "string list" where
  "builtin_types =
     [''rate_limit'', ''max_count'', ''lookup_only_search'', ''query_match'', ''time_window'',
      ''expiration'', ''time_expiration'', ''max_token_ttl'', ''match'', ''and'', ''or'', ''not'',
      ''catalog_membership_required'', ''catalog_admin_required'', ''request_action_privilege'',
      ''catalog_lookup_public_allowed'', ''collection_write_anonymous_allowed'', ''filter'']"

definition known_types :: "'w cond_env \<Rightarrow> string \<Rightarrow> bool" where
  "known_types E t \<longleftrightarrow> t \<in> set builtin_types \<or> en_plugins E t \<noteq> None"

text \<open>
  The handlers that do not recurse.  A plugin registered under a built-in name replaces it.
\<close>

definition leaf_eval :: "'w cond_env \<Rightarrow> eval_ctx \<Rightarrow> condition \<Rightarrow> ('w, py_exn, bool) run" where
  "leaf_eval E ctx c =
     (let t = ctype c; cfg = cconfig c; L = en_lib E in
      if t = ''rate_limit'' then rate_limit_eval E (caddr c) cfg ctx
      else if t = ''max_count'' then max_count_eval E (caddr c) cfg ctx
      else if t = ''lookup_only_search'' then lift_r (lookup_only_search_eval cfg ctx)
      else if t = ''query_match'' then lift_r (query_match_eval L cfg ctx)
      else if t = ''time_window'' then lift_r (time_window_eval E cfg)
      else if t = ''expiration'' \<or> t = ''time_expiration'' then lift_r (expiration_eval E cfg)
      else if t = ''max_token_ttl'' then lift_r (max_token_ttl_eval cfg ctx)
      else if t = ''match'' then ret (match_eval L cfg ctx)
      else if t = ''catalog_membership_required'' then ret (catalog_membership_eval E cfg ctx)
      else if t = ''catalog_admin_required'' then lift_r (catalog_admin_eval E cfg ctx)
      else if t = ''request_action_privilege'' then lift_r (request_action_privilege_eval E cfg ctx)
      else if t = ''catalog_lookup_public_allowed'' then ret (catalog_lookup_audience_eval E ctx)
      else if t = ''collection_write_anonymous_allowed'' then ret (collection_write_audience_eval E ctx)
      else ret False)"

text \<open>
  The same handlers when the caller passes no context object: every attribute read on it raises
  \<open>AttributeError\<close>, except in the \<open>match\<close> handler, which reads any failure as a missing value, and in
  the time handlers, which never touch it.
\<close>

definition leaf_eval_none :: "'w cond_env \<Rightarrow> condition \<Rightarrow> py_exn + bool" where
  "leaf_eval_none E c =
     (let t = ctype c; cfg = cconfig c in
      if t = ''time_window'' then time_window_eval E cfg
      else if t = ''expiration'' \<or> t = ''time_expiration'' then expiration_eval E cfg
      else if t = ''match'' then Inr (\<not> truthy (jget cfg ''attribute''))
      else if t = ''lookup_only_search'' then
        bind_e (fields_or cfg ''lookup_fields'' default_lookup_fields) (\<lambda>_.
        bind_e (fields_or cfg ''broadening_fields'' default_broadening_fields) (\<lambda>_. Inl AttributeError))
      else if t \<in> set builtin_types then Inl AttributeError
      else Inr False)"

text \<open>Iterating over a nested list of condition configurations never leaves its parent dictionary.\<close>

lemma py_iter_size: "py_iter j = Inr xs \<Longrightarrow> x \<in> set xs \<Longrightarrow> size x \<le> size j"
proof -
  assume "py_iter j = Inr xs" "x \<in> set xs"
  then show ?thesis
  proof (cases j)
    case (JList ys)
    with \<open>py_iter j = Inr xs\<close> \<open>x \<in> set xs\<close> show ?thesis
      using size_jlist_mem [of x xs] by (simp add: py_iter_def)
  next
    case (JObj kvs)
    with \<open>py_iter j = Inr xs\<close> \<open>x \<in> set xs\<close> show ?thesis by (auto simp: py_iter_def)
  next
    case (JScalar s)
    with \<open>py_iter j = Inr xs\<close> \<open>x \<in> set xs\<close> show ?thesis
      by (auto simp: py_iter_def split: scalar.splits)
  qed
qed

lemma nested_size:
  assumes "py_iter (jget_or d k (JList [])) = Inr xs" "x \<in> set xs" "cond_of_json x = Inr c"
  shows "size (JObj (cconfig c)) < size (JObj d)"
proof -
  obtain v where v: "dget d k = Some v" "py_iter v = Inr xs"
    using assms(1,2) by (auto simp: dget_or_def py_iter_def split: option.splits)
  then have "size v < size (JObj d)" using size_map_of by blast
  moreover have "size x \<le> size v" using py_iter_size v(2) assms(2) by blast
  moreover have "size (JObj (cconfig c)) \<le> size x"
    using cond_of_json_size [OF assms(3)] assms(3) by (auto simp: cond_of_json_def split: json.splits)
  ultimately show ?thesis by linarith
qed

lemma nested_size_not:
  assumes "truthy (jget d k)" "cond_of_json (jget d k) = Inr c"
  shows "size (JObj (cconfig c)) < size (JObj d)"
proof -
  have "jget d k \<noteq> JNone" using assms(1) by auto
  then have "size (jget d k) < size (JObj d)" using size_jget by blast
  moreover have "size (JObj (cconfig c)) \<le> size (jget d k)"
    using cond_of_json_size [OF assms(2)] assms(2) by (auto simp: cond_of_json_def split: json.splits)
  ultimately show ?thesis by linarith
qed

text \<open>
  \<open>evaluate_condition\<close>: the registered handler of the condition's type, where the logical handlers
  evaluate the conditions nested in their configuration.
\<close>

function eval_condition :: "'w cond_env \<Rightarrow> eval_ctx option \<Rightarrow> condition \<Rightarrow> ('w, py_exn, bool) run" where
  "eval_condition E ctx c w =
     (case en_plugins E (ctype c) of
        Some handler \<Rightarrow> handler (cconfig c) ctx w
      | None \<Rightarrow>
          if ctype c = ''and'' then
            (case py_iter (jget_or (cconfig c) ''conditions'' (JList [])) of
               Inl e \<Rightarrow> (Inl e, w)
             | Inr xs \<Rightarrow>
                 all_r (\<lambda>j u. case cond_of_json j of
                          Inl e \<Rightarrow> (Inl e, u) | Inr c' \<Rightarrow> eval_condition E ctx c' u) xs w)
          else if ctype c = ''or'' then
            if \<not> truthy (jget_or (cconfig c) ''conditions'' (JList [])) then (Inr True, w)
            else (case py_iter (jget_or (cconfig c) ''conditions'' (JList [])) of
               Inl e \<Rightarrow> (Inl e, w)
             | Inr xs \<Rightarrow>
                 any_r (\<lambda>j u. case cond_of_json j of
                          Inl e \<Rightarrow> (Inl e, u) | Inr c' \<Rightarrow> eval_condition E ctx c' u) xs w)
          else if ctype c = ''not'' then
            if \<not> truthy (jget (cconfig c) ''condition'') then (Inr True, w)
            else (case cond_of_json (jget (cconfig c) ''condition'') of
               Inl e \<Rightarrow> (Inl e, w)
             | Inr c' \<Rightarrow>
                 (case eval_condition E ctx c' w of
                    (Inl e, w') \<Rightarrow> (Inl e, w') | (Inr b, w') \<Rightarrow> (Inr (\<not> b), w')))
          else if ctype c = ''filter'' then filter_eval E (cconfig c) ctx w
          else (case ctx of None \<Rightarrow> (leaf_eval_none E c, w) | Some cx \<Rightarrow> leaf_eval E cx c w))"
  by pat_completeness auto

termination
  by (relation "measure (\<lambda>(E, ctx, c, w). size (JObj (cconfig c)))")
     (auto dest: nested_size nested_size_not simp del: json.size)

declare eval_condition.simps [simp del]

definition evaluate_all :: "'w cond_env \<Rightarrow> eval_ctx option \<Rightarrow> condition list \<Rightarrow> ('w, py_exn, bool) run" where
  "evaluate_all E ctx conds w = all_r (eval_condition E ctx) conds w"

text \<open>\<open>inspect_all\<close>: the payloads of the handlers that have one.\<close>

definition inspect_one :: "'w cond_env \<Rightarrow> eval_ctx \<Rightarrow> condition \<Rightarrow> ('w, py_exn, dict option) run" where
  "inspect_one E ctx c =
     (let t = ctype c; cfg = cconfig c in
      if en_plugins E t \<noteq> None then ret None
      else if t = ''rate_limit'' then bind_r (rate_limit_inspect E (caddr c) cfg ctx) (\<lambda>d. ret (Some d))
      else if t = ''max_count'' then bind_r (max_count_inspect E (caddr c) cfg ctx) (\<lambda>d. ret (Some d))
      else if t = ''expiration'' \<or> t = ''time_expiration'' then
        ret (Some [(''type'', JStr ''expiration''), (''expires_at'', jget cfg ''expires_at'')])
      else if t = ''filter'' then
        ret (Some [(''type'', JStr ''filter''), (''inspector'', jget cfg ''inspector'')])
      else ret None)"

fun inspect_all :: "'w cond_env \<Rightarrow> eval_ctx \<Rightarrow> condition list \<Rightarrow> ('w, py_exn, dict list) run" where
  "inspect_all E ctx [] w = (Inr [], w)"
| "inspect_all E ctx (c # cs) w =
     bind_r (inspect_one E ctx c) (\<lambda>d.
     bind_r (inspect_all E ctx cs) (\<lambda>ds.
       ret (case d of None \<Rightarrow> ds | Some x \<Rightarrow> x # ds))) w"

section \<open>Unknown types and logical structure\<close>

text \<open>
  A condition whose type has no registered handler denies the match and does nothing else,
  at the top level and nested alike: evaluation returns \<open>False\<close> and leaves the counters untouched.
\<close>

theorem unknown_condition_denies:
  assumes "\<not> known_types E (ctype c)"
  shows "eval_condition E ctx c w = (Inr False, w) \<and> evaluate_all E ctx (c # cs) w = (Inr False, w)"
proof -
  have "eval_condition E ctx c w = (Inr False, w)"
    using assms
    by (subst eval_condition.simps) (auto simp: known_types_def builtin_types_def leaf_eval_def leaf_eval_none_def ret_def split: option.splits)
  then show ?thesis by (simp add: evaluate_all_def)
qed

definition plain_ctx :: eval_ctx where
  "plain_ctx = \<lparr>cx_request = None, cx_principal_id = Some ''u'', cx_path = ''/x'', cx_method = ''GET'',
     cx_query = [], cx_requested_ttl = 0, cx_catalog_id = Some ''c'', cx_principal = None,
     cx_policy_of_config = (\<lambda>a. if a = 7 then Some ''pol'' else None), cx_extras = (\<lambda>_. None), cx_effect = None,
     cx_quota = [], cx_quota_seen = [], cx_fresh = 100\<rparr>"

definition plain_env :: "'w counter option \<Rightarrow> int \<Rightarrow> 'w cond_env" where
  "plain_env ct now = \<lparr>en_lib = plain_lib, en_now = now,
     en_iso = (\<lambda>s. if s = ''2030-01-01'' then Some (Naive 1893456000000000)
                  else if s = ''2030-01-01+00:00'' then Some (Aware 1893456000000000) else None),
     en_bool = (\<lambda>j. case j of JScalar (SBool b) \<Rightarrow> Some b | _ \<Rightarrow> None), en_sysadmin = ''sysadmin'',
     en_counter = ct, en_membership = None, en_lookup_public = (\<lambda>_. False),
     en_write_anonymous = (\<lambda>_ _. False), en_inspectors = (\<lambda>_. None), en_plugins = (\<lambda>_. None)\<rparr>"

theorem unknown_condition_denies_witness:
  "eval_condition (plain_env None 0) (Some plain_ctx) \<lparr>ctype = ''rate_limt'', caddr = None, cconfig = []\<rparr> (3::nat) = (Inr False, 3)
   \<and> evaluate_all (plain_env None 0) (Some plain_ctx) [\<lparr>ctype = ''rate_limt'', caddr = None, cconfig = []\<rparr>] (3::nat) = (Inr False, 3)"
  by (rule unknown_condition_denies) (simp add: known_types_def builtin_types_def plain_env_def)

text \<open>Boolean combinations of conditions, and the configuration that encodes them.\<close>

datatype formula = FLeaf string dict | FAnd "formula list" | FOr "formula list" | FNot formula

fun formula_cond :: "formula \<Rightarrow> condition" and formula_json :: "formula \<Rightarrow> json" where
  "formula_cond (FLeaf t cfg) = \<lparr>ctype = t, caddr = None, cconfig = cfg\<rparr>"
| "formula_cond (FAnd fs) = \<lparr>ctype = ''and'', caddr = None, cconfig = [(''conditions'', JList (map formula_json fs))]\<rparr>"
| "formula_cond (FOr fs) = \<lparr>ctype = ''or'', caddr = None, cconfig = [(''conditions'', JList (map formula_json fs))]\<rparr>"
| "formula_cond (FNot f) = \<lparr>ctype = ''not'', caddr = None, cconfig = [(''condition'', formula_json f)]\<rparr>"
| "formula_json f = JObj [(''type'', JStr (ctype (formula_cond f))), (''config'', JObj (cconfig (formula_cond f)))]"

fun formula_sem :: "(string \<Rightarrow> dict \<Rightarrow> bool) \<Rightarrow> formula \<Rightarrow> bool" where
  "formula_sem v (FLeaf t cfg) = v t cfg"
| "formula_sem v (FAnd fs) = list_all (formula_sem v) fs"
| "formula_sem v (FOr fs) = (fs = [] \<or> list_ex (formula_sem v) fs)"
| "formula_sem v (FNot f) = (\<not> formula_sem v f)"

fun formula_leaves :: "formula \<Rightarrow> (string \<times> dict) list" where
  "formula_leaves (FLeaf t cfg) = [(t, cfg)]"
| "formula_leaves (FAnd fs) = concat (map formula_leaves fs)"
| "formula_leaves (FOr fs) = concat (map formula_leaves fs)"
| "formula_leaves (FNot f) = formula_leaves f"

lemma cond_of_formula_json: "cond_of_json (formula_json f) = Inr (formula_cond f)"
  by (cases f) (simp_all add: cond_of_json_def)

declare formula_json.simps [simp del]

lemma formula_json_truthy [simp]: "truthy (formula_json f)"
  by (simp add: formula_json.simps)

text \<open>Two loops over nested configurations whose members evaluate without effect.\<close>

lemma all_r_formulas:
  assumes "\<And>f u. f \<in> set fs \<Longrightarrow> eval_condition E ctx (formula_cond f) u = (Inr (p f), u)"
  shows "all_r (\<lambda>j u. case cond_of_json j of Inl e \<Rightarrow> (Inl e, u) | Inr c' \<Rightarrow> eval_condition E ctx c' u)
           (map formula_json fs) w = (Inr (list_all p fs), w)"
  using assms by (induction fs arbitrary: w) (simp_all add: cond_of_formula_json)

lemma any_r_formulas:
  assumes "\<And>f u. f \<in> set fs \<Longrightarrow> eval_condition E ctx (formula_cond f) u = (Inr (p f), u)"
  shows "any_r (\<lambda>j u. case cond_of_json j of Inl e \<Rightarrow> (Inl e, u) | Inr c' \<Rightarrow> eval_condition E ctx c' u)
           (map formula_json fs) w = (Inr (list_ex p fs), w)"
  using assms by (induction fs arbitrary: w) (simp_all add: cond_of_formula_json)

text \<open>
  The logical handlers compute propositional logic: a condition tree encoded as JSON
  configurations, whose leaves evaluate without raising and without touching the counters,
  evaluates to the truth value of the corresponding formula, where \<open>and\<close> of nothing and \<open>or\<close> of
  nothing are true.  Decoding the nested configurations with \<open>Condition(**cfg)\<close> never fails.
\<close>

theorem eval_condition_formula:
  assumes "en_plugins E ''and'' = None" "en_plugins E ''or'' = None" "en_plugins E ''not'' = None"
    and "\<And>t cfg u. (t, cfg) \<in> set (formula_leaves f) \<Longrightarrow>
           eval_condition E ctx \<lparr>ctype = t, caddr = None, cconfig = cfg\<rparr> u = (Inr (v t cfg), u)"
  shows "eval_condition E ctx (formula_cond f) w = (Inr (formula_sem v f), w)"
  using assms(4)
proof (induction f arbitrary: w)
  case (FAnd fs)
  have "eval_condition E ctx (formula_cond g) u = (Inr (formula_sem v g), u)" if "g \<in> set fs" for g u
    by (rule FAnd.IH [OF that], rule FAnd.prems) (use that in auto)
  from all_r_formulas [of fs, OF this] show ?case
    by (subst eval_condition.simps) (simp add: assms(1) dget_or_def py_iter_def)
next
  case (FOr fs)
  have "eval_condition E ctx (formula_cond g) u = (Inr (formula_sem v g), u)" if "g \<in> set fs" for g u
    by (rule FOr.IH [OF that], rule FOr.prems) (use that in auto)
  from any_r_formulas [of fs, OF this] show ?case
    by (subst eval_condition.simps) (simp add: assms(2) dget_or_def py_iter_def)
next
  case (FNot f)
  then have "eval_condition E ctx (formula_cond f) w = (Inr (formula_sem v f), w)" by simp
  then show ?case
    by (subst eval_condition.simps) (simp add: assms(3) jget_def cond_of_formula_json)
qed simp

theorem eval_condition_formula_witness:
  "eval_condition (plain_env None 0) (Some plain_ctx)
     (formula_cond (FOr [FNot (FLeaf ''match'' []),
        FAnd [FLeaf ''match'' [(''attribute'', JStr ''path''), (''value'', JStr ''/x'')]]])) (3::nat)
   = (Inr True, 3)"
proof -
  let ?f = "FOr [FNot (FLeaf ''match'' []), FAnd [FLeaf ''match'' [(''attribute'', JStr ''path''), (''value'', JStr ''/x'')]]]"
  have "eval_condition (plain_env None 0) (Some plain_ctx) (formula_cond ?f) (3::nat) = (Inr (formula_sem (\<lambda>t cfg. True) ?f), 3)"
  proof (rule eval_condition_formula)
    fix t cfg and u :: nat
    assume "(t, cfg) \<in> set (formula_leaves ?f)"
    then consider "t = ''match'' \<and> cfg = []"
      | "t = ''match'' \<and> cfg = [(''attribute'', JStr ''path''), (''value'', JStr ''/x'')]" by auto
    then show "eval_condition (plain_env None 0) (Some plain_ctx) \<lparr>ctype = t, caddr = None, cconfig = cfg\<rparr> u = (Inr True, u)"
      by cases (simp_all add: eval_condition.simps plain_env_def leaf_eval_def match_eval_def get_value_def
          compare_vals_def plain_ctx_def plain_lib_def jget_def dget_or_def ret_def)
  qed (simp_all add: plain_env_def)
  then show ?thesis by simp
qed

section \<open>Counter-backed limits\<close>

text \<open>
  The facts of a request under which the rate-limit handler consults the counter: the gate matches,
  the owning policy and the principal key are known, and limit and window are positive numbers.
\<close>

definition rate_limit_applies ::
  "'w cond_env \<Rightarrow> nat option \<Rightarrow> dict \<Rightarrow> eval_ctx \<Rightarrow> string \<Rightarrow> string \<Rightarrow> int \<Rightarrow> int \<Rightarrow> bool" where
  "rate_limit_applies E addr config ctx pid key limit window \<longleftrightarrow>
     path_method_matches (en_lib E) config ctx = Inr True \<and>
     policy_id_for addr config ctx = Some (JStr pid) \<and>
     principal_key_for (jget_or config ''scope'' (JStr ''principal'')) ctx = Inr (Some key) \<and>
     lib_int (en_lib E) (jget_or config ''limit'' (JInt 0)) = Inr limit \<and> 0 < limit \<and>
     lib_int (en_lib E) (jget_or config ''window_seconds'' (JInt 60)) = Inr window \<and> 0 < window"

text \<open>Then its verdict is the counter's.\<close>

lemma rate_limit_eval_counter:
  assumes "rate_limit_applies E addr config ctx pid key limit window" "en_lib F = en_lib E" "en_counter F = Some c"
    "ct_incr_if_below c pid key limit (Some window) s = (Inr (n, ok), s')"
  shows "rate_limit_eval F addr config ctx s = (if ok then Inr True else Inl RateLimitExceededError, s')"
proof -
  have "\<not> limit \<le> 0" "\<not> window \<le> 0" using assms(1) by (simp_all add: rate_limit_applies_def)
  then show ?thesis using assms by (simp add: rate_limit_applies_def rate_limit_eval_def run_simps)
qed

text \<open>The key under which a request is counted, and a run of requests at given instants.\<close>

definition limit_key :: "dict \<Rightarrow> eval_ctx \<Rightarrow> string option" where
  "limit_key config ctx =
     (case principal_key_for (jget_or config ''scope'' (JStr ''principal'')) ctx of Inr k \<Rightarrow> k | Inl _ \<Rightarrow> None)"

fun answers :: "(int \<Rightarrow> eval_ctx \<Rightarrow> ('w, py_exn, bool) run) \<Rightarrow> (int \<times> eval_ctx) list \<Rightarrow> 'w \<Rightarrow>
    (int \<times> eval_ctx \<times> (py_exn + bool)) list" where
  "answers m [] w = []"
| "answers m ((t, ctx) # qs) w = (case m t ctx w of (r, w') \<Rightarrow> (t, ctx, r) # answers m qs w')"

text \<open>
  A limit per key and window: each admitted request finds the count of its own key and its own
  window below the limit and adds one to it, and touches no other count.
\<close>

locale window_limit =
  fixes evaluate :: "int \<Rightarrow> eval_ctx \<Rightarrow> ('w, py_exn, bool) run"
    and key :: "eval_ctx \<Rightarrow> string option"
    and applies :: "eval_ctx \<Rightarrow> bool"
    and limit window :: int
    and cnt :: "'w \<Rightarrow> string option \<Rightarrow> int \<Rightarrow> int"
    and inv :: "'w \<Rightarrow> bool"
  assumes step: "inv w \<Longrightarrow> applies ctx \<Longrightarrow>
      \<exists>w'. evaluate t ctx w =
             (if cnt w (key ctx) (t div window) < limit then Inr True else Inl RateLimitExceededError, w') \<and>
           inv w' \<and>
           (\<forall>k j. cnt w' k j = cnt w k j +
              (if cnt w (key ctx) (t div window) < limit \<and> k = key ctx \<and> j = t div window then 1 else 0))"
begin

lemma admits_exactly:
  assumes "inv w" "\<forall>(t, ctx) \<in> set qs. applies ctx"
  shows "length (filter (\<lambda>(t, ctx, r). r = Inr True \<and> key ctx = k \<and> t div window = j) (answers evaluate qs w)) =
         min (length (filter (\<lambda>(t, ctx). key ctx = k \<and> t div window = j) qs)) (nat (limit - cnt w k j))"
  using assms
proof (induction qs arbitrary: w)
  case (Cons q qs)
  obtain t ctx where q: "q = (t, ctx)" by (cases q)
  let ?below = "cnt w (key ctx) (t div window) < limit"
  obtain w' where w': "evaluate t ctx w = (if ?below then Inr True else Inl RateLimitExceededError, w')" "inv w'"
    "\<And>k j. cnt w' k j = cnt w k j + (if ?below \<and> k = key ctx \<and> j = t div window then 1 else 0)"
    using step [OF Cons.prems(1), of ctx t] Cons.prems(2) q by auto
  have IH: "length (filter (\<lambda>(t, ctx, r). r = Inr True \<and> key ctx = k \<and> t div window = j) (answers evaluate qs w')) =
      min (length (filter (\<lambda>(t, ctx). key ctx = k \<and> t div window = j) qs)) (nat (limit - cnt w' k j))"
    using Cons.IH [OF w'(2)] Cons.prems(2) by simp
  show ?case
  proof (cases "key ctx = k \<and> t div window = j \<and> ?below")
    case True
    then have "cnt w' k j = cnt w k j + 1" "cnt w k j < limit" using w'(3) [of k j] by auto
    then have "nat (limit - cnt w k j) = Suc (nat (limit - cnt w' k j))" by simp
    with True IH w'(1) show ?thesis by (simp add: q)
  next
    case False
    then have same: "cnt w' k j = cnt w k j" using w'(3) [of k j] by auto
    show ?thesis
    proof (cases "key ctx = k \<and> t div window = j")
      case True
      with False have "nat (limit - cnt w k j) = 0" "\<not> ?below" by auto
      with True IH same w'(1) show ?thesis by (simp add: q)
    next
      case other: False
      with IH same w'(1) show ?thesis by (auto simp: q)
    qed
  qed
qed simp

lemma answers_decided:
  assumes "inv w" "\<forall>(t, ctx) \<in> set qs. applies ctx"
  shows "list_all (\<lambda>(t, ctx, r). r = Inr True \<or> r = Inl RateLimitExceededError) (answers evaluate qs w)"
  using assms
proof (induction qs arbitrary: w)
  case (Cons q qs)
  obtain t ctx where q: "q = (t, ctx)" by (cases q)
  from step [OF Cons.prems(1), of ctx t] Cons.prems(2) q
  obtain w' r where "evaluate t ctx w = (r, w')" "r = Inr True \<or> r = Inl RateLimitExceededError" "inv w'"
    by (auto split: if_splits)
  with Cons.IH [of w'] Cons.prems(2) show ?case by (simp add: q)
qed simp

end

text \<open>Environments served by the Postgres and by the Valkey driver at a given instant.\<close>

definition pg_env :: "int \<Rightarrow> pg_table cond_env \<Rightarrow> pg_table cond_env" where
  "pg_env now E = E\<lparr>en_counter := Some
     \<lparr>ct_incr_if_below = (\<lambda>p k l w. pg_incr_if_below now p k l w 1),
      ct_get = (\<lambda>p k w t. (Inr (pg_get now p k w t), t))\<rparr>\<rparr>"

definition vk_env :: "int \<Rightarrow> vk_store cond_env \<Rightarrow> vk_store cond_env" where
  "vk_env now E = E\<lparr>en_counter := Some
     \<lparr>ct_incr_if_below = (\<lambda>p k l w. vk_incr_if_below now p k l w 1),
      ct_get = (\<lambda>p k w t. (Inr (vk_get now p k w t), t))\<rparr>\<rparr>"

definition limit_applies :: "'w cond_env \<Rightarrow> nat option \<Rightarrow> dict \<Rightarrow> string \<Rightarrow> int \<Rightarrow> int \<Rightarrow> eval_ctx \<Rightarrow> bool" where
  "limit_applies E addr config pid limit window ctx \<longleftrightarrow>
     (\<exists>key. rate_limit_applies E addr config ctx pid key limit window)"

lemma limit_appliesD:
  assumes "limit_applies E addr config pid limit window ctx"
  obtains key where "rate_limit_applies E addr config ctx pid key limit window" "limit_key config ctx = Some key"
    "0 < window"
  using assms by (auto simp: limit_applies_def rate_limit_applies_def limit_key_def)

text \<open>The counts of a policy by key and window, read from the table and from the server's keys.\<close>

definition pg_window :: "string \<Rightarrow> int \<Rightarrow> pg_table \<Rightarrow> string option \<Rightarrow> int \<Rightarrow> int" where
  "pg_window pid window tbl key j = (case key of None \<Rightarrow> 0 | Some k \<Rightarrow> pg_count tbl (pid, k, j * window))"

interpretation pgw: window_limit "\<lambda>t. rate_limit_eval (pg_env t E) addr config" "limit_key config"
  "limit_applies E addr config pid limit window" limit window "pg_window pid window" pg_inv
  for E addr config pid limit window
proof (unfold_locales, goal_cases)
  case (1 w ctx t)
  then obtain key where key: "rate_limit_applies E addr config ctx pid key limit window"
    "limit_key config ctx = Some key" "0 < window" by (auto elim: limit_appliesD)
  have slot: "pg_slot t pid key (Some window) = (pid, key, t div window * window)"
    using key(3) by (simp add: pg_slot_def bucket_for_def)
  obtain w' where w': "pg_incr_if_below t pid key limit (Some window) 1 w =
      (Inr (if pg_window pid window w (Some key) (t div window) + 1 \<le> limit
            then (pg_window pid window w (Some key) (t div window) + 1, True)
            else (pg_window pid window w (Some key) (t div window), False)), w')" "pg_inv w'"
    "pg_count w' = (if pg_window pid window w (Some key) (t div window) + 1 \<le> limit
        then (pg_count w)((pid, key, t div window * window) := pg_window pid window w (Some key) (t div window) + 1)
        else pg_count w)"
    using pgc.cas [OF 1(1), of 1 t pid key limit "Some window"] unfolding slot by (auto simp: pg_window_def)
  have "rate_limit_eval (pg_env t E) addr config ctx w =
      (if pg_window pid window w (Some key) (t div window) < limit then Inr True else Inl RateLimitExceededError, w')"
    using rate_limit_eval_counter [OF key(1), of "pg_env t E"] w'(1) by (auto simp: pg_env_def)
  moreover have "pg_window pid window w' k j = pg_window pid window w k j +
      (if pg_window pid window w (Some key) (t div window) < limit \<and> k = Some key \<and> j = t div window then 1 else 0)"
    for k j
    using key(3) w'(3) by (cases k) (auto simp: pg_window_def)
  ultimately show ?case using w'(2) key(2) by auto
qed

text \<open>
  The server's keys of a policy: distinct for distinct principals and windows, and each given an
  expiry no earlier than the end of its window.
\<close>

lemma key_for_inject: "0 < window \<Longrightarrow>
    key_for pid k (i * window) = key_for pid k' (j * window) \<longleftrightarrow> k = k' \<and> i = j"
proof
  assume w: "0 < window" and "key_for pid k (i * window) = key_for pid k' (j * window)"
  then have "k @ CHR '':'' # int_str (i * window) = k' @ CHR '':'' # int_str (j * window)"
    by (simp add: key_for_def)
  from last_sep_inject [OF this colon_not_int_str colon_not_int_str] w show "k = k' \<and> i = j" by simp
qed simp

definition vk_window :: "string \<Rightarrow> int \<Rightarrow> vk_store \<Rightarrow> string option \<Rightarrow> int \<Rightarrow> int" where
  "vk_window pid window st key j =
     (case key of None \<Rightarrow> 0 | Some k \<Rightarrow>
        (case st (key_for pid k (j * window)) of None \<Rightarrow> 0 | Some e \<Rightarrow> vk_val e))"

definition vk_inv :: "string \<Rightarrow> int \<Rightarrow> vk_store \<Rightarrow> bool" where
  "vk_inv pid window st \<longleftrightarrow> (\<forall>k j e. st (key_for pid k (j * window)) = Some e \<longrightarrow>
     (\<exists>x. vk_expire e = Some x \<and> (j + 1) * window * 1000 \<le> x))"

lemma vk_window_step:
  assumes "0 < window" "vk_inv pid window st"
  shows "\<exists>x. (t div window + 1) * window * 1000 \<le> x \<and>
    vk_incr_if_below t pid k l (Some window) 1 st =
      (if vk_window pid window st (Some k) (t div window) < l
       then (Inr (vk_window pid window st (Some k) (t div window) + 1, True),
             st(key_for pid k (t div window * window) \<mapsto>
                \<lparr>vk_val = vk_window pid window st (Some k) (t div window) + 1, vk_expire = Some x\<rparr>))
       else (Inr (vk_window pid window st (Some k) (t div window), False), st))"
proof -
  let ?j = "t div window" and ?b = "t div window * window"
  let ?key = "key_for pid k ?b" and ?c = "vk_window pid window st (Some k) (t div window)"
  have b: "bucket_for (Some window) t = ?b" using assms(1) by (simp add: bucket_for_def)
  have bounds: "?b \<le> t" "t < ?b + window" using bucket_for_bounds [OF assms(1), of t] b by simp_all
  have ttl: "ttl_seconds (Some window) ?b t = Some (?b + 2 * window - t)"
    using assms(1) bounds by (auto simp: ttl_seconds_def expires_for_def)
  have run: "vk_incr_if_below t pid k l (Some window) 1 st =
      (case vk_script (t * 1000) ?key l 1 ((?b + 2 * window - t) * 1000) st of (r, st') \<Rightarrow> (Inr r, st'))"
    by (simp add: vk_incr_if_below_def b ttl Let_def)
  have win: "(?j + 1) * window * 1000 \<le> (?b + 2 * window) * 1000" using assms(1) by (simp add: algebra_simps)
  show ?thesis
  proof (cases "st ?key")
    case None
    then have "vk_live (t * 1000) st ?key = None" "?c = 0" by (simp_all add: vk_live_def vk_window_def)
    with run bounds assms(1) win show ?thesis
      by (intro exI [of _ "(?b + 2 * window) * 1000"])
        (simp add: vk_script_def vk_incrby_def vk_pexpire_def vk_live_def Let_def algebra_simps)
  next
    case (Some e)
    then obtain x where x: "vk_expire e = Some x" "(?j + 1) * window * 1000 \<le> x"
      using assms(2) unfolding vk_inv_def by blast
    have "t * 1000 < (?j + 1) * window * 1000" using bounds(2) by (simp add: algebra_simps)
    then have live: "vk_live (t * 1000) st ?key = Some e" using Some x by (simp add: vk_live_def)
    obtain v where e: "e = \<lparr>vk_val = v, vk_expire = Some x\<rparr>" using x(1) by (cases e) simp
    have c: "?c = v" using Some by (simp add: vk_window_def e)
    have later: "vk_live (t * 1000) (st(?key \<mapsto> \<lparr>vk_val = u, vk_expire = Some x\<rparr>)) ?key =
        Some \<lparr>vk_val = u, vk_expire = Some x\<rparr>" for u
      using \<open>t * 1000 < (?j + 1) * window * 1000\<close> x(2) by (simp add: vk_live_def)
    show ?thesis
    proof (cases "v = 0")
      case True
      have "t * 1000 + (?b + 2 * window - t) * 1000 = (?b + 2 * window) * 1000" by (simp add: algebra_simps)
      with True run live c win bounds assms(1) show ?thesis
        by (intro exI [of _ "(?b + 2 * window) * 1000"])
          (simp add: e vk_script_def vk_incrby_def vk_pexpire_def later Let_def)
    next
      case False
      with run live c x show ?thesis
        by (intro exI [of _ x]) (simp add: e vk_script_def vk_incrby_def Let_def)
    qed
  qed
qed

interpretation vkw: window_limit "\<lambda>t. rate_limit_eval (vk_env t E) addr config" "limit_key config"
  "limit_applies E addr config pid limit window" limit window "vk_window pid window" "vk_inv pid window"
  for E addr config pid limit window
proof (unfold_locales, goal_cases)
  case (1 w ctx t)
  then obtain key where key: "rate_limit_applies E addr config ctx pid key limit window"
    "limit_key config ctx = Some key" "0 < window" by (auto elim: limit_appliesD)
  let ?c = "vk_window pid window w (Some key) (t div window)"
  obtain x where x: "(t div window + 1) * window * 1000 \<le> x"
    "vk_incr_if_below t pid key limit (Some window) 1 w =
       (if ?c < limit then (Inr (?c + 1, True),
          w(key_for pid key (t div window * window) \<mapsto> \<lparr>vk_val = ?c + 1, vk_expire = Some x\<rparr>))
        else (Inr (?c, False), w))"
    using vk_window_step [OF key(3) 1(1), of t key limit] by blast
  define w' where "w' = (if ?c < limit
     then w(key_for pid key (t div window * window) \<mapsto> \<lparr>vk_val = ?c + 1, vk_expire = Some x\<rparr>) else w)"
  have "rate_limit_eval (vk_env t E) addr config ctx w =
      (if ?c < limit then Inr True else Inl RateLimitExceededError, w')"
    using rate_limit_eval_counter [OF key(1), of "vk_env t E"] x(2) by (auto simp: vk_env_def w'_def)
  moreover have "vk_inv pid window w'"
    using 1(1) x(1) by (auto simp: vk_inv_def w'_def key_for_inject [OF key(3)])
  moreover have "vk_window pid window w' k j = vk_window pid window w k j +
      (if ?c < limit \<and> k = Some key \<and> j = t div window then 1 else 0)" for k j
    by (cases k) (auto simp: vk_window_def w'_def key_for_inject [OF key(3)])
  ultimately show ?case using key(2) by auto
qed

lemma window_iff: "0 < w \<Longrightarrow> w * j \<le> t \<and> t < w * (j + 1) \<longleftrightarrow> t div w = (j :: int)"
proof
  assume w: "0 < w" and t: "w * j \<le> t \<and> t < w * (j + 1)"
  then have "(t - w * j) div w = 0" by (intro div_pos_pos_trivial) (simp_all add: algebra_simps)
  moreover have "(t - w * j + w * j) div w = j + (t - w * j) div w" using w by (intro div_mult_self2) simp
  ultimately show "t div w = j" by simp
next
  assume w: "0 < w" and t: "t div w = j"
  have "t = w * j + t mod w" using t mult_div_mod_eq [of w t] by simp
  moreover have "0 \<le> t mod w" "t mod w < w" using w by simp_all
  ultimately show "w * j \<le> t \<and> t < w * (j + 1)" by (simp add: algebra_simps)
qed

text \<open>
  C35.  The \<open>rate_limit\<close> condition lets through exactly the configured number of requests per caller
  and window.  Take any sequence of requests at any instants, by any callers, on which the condition
  applies (its gate matches, its policy and the caller's key are known, limit and window are positive),
  evaluated from an empty counter.  Of the requests counted under \<open>key\<close> whose instant falls into the
  \<open>j\<close>-th window, \<open>limit\<close> pass, or all of them if they are fewer, and every request that does not pass
  raises \<open>RateLimitExceededError\<close>: on the Postgres driver and on the Valkey driver.
\<close>

theorem rate_limit_exact:
  fixes key :: string and j :: int
  assumes "0 < window"
    and "\<forall>(t, ctx) \<in> set qs. limit_applies E addr config pid limit window ctx"
    and "\<forall>(t, ctx) \<in> set qs. limit_applies F addr config pid limit window ctx"
  defines "pgr \<equiv> answers (\<lambda>t. rate_limit_eval (pg_env t E) addr config) qs Map.empty"
    and "vkr \<equiv> answers (\<lambda>t. rate_limit_eval (vk_env t F) addr config) qs Map.empty"
    and "due \<equiv> min (length (filter (\<lambda>(t, ctx). limit_key config ctx = Some key \<and>
                    window * j \<le> t \<and> t < window * (j + 1)) qs)) (nat limit)"
  shows "length (filter (\<lambda>(t, ctx, r). r = Inr True \<and> limit_key config ctx = Some key \<and>
           window * j \<le> t \<and> t < window * (j + 1)) pgr) = due \<and>
         length (filter (\<lambda>(t, ctx, r). r = Inr True \<and> limit_key config ctx = Some key \<and>
           window * j \<le> t \<and> t < window * (j + 1)) vkr) = due \<and>
         list_all (\<lambda>(t, ctx, r). r = Inr True \<or> r = Inl RateLimitExceededError) (pgr @ vkr)"
proof -
  have win: "window * j \<le> t \<and> t < window * (j + 1) \<longleftrightarrow> t div window = j" for t
    by (rule window_iff [OF assms(1)])
  have "pg_inv Map.empty" "pg_window pid window Map.empty (Some key) j = 0"
    by (simp_all add: pg_inv_def pg_count_def pg_window_def)
  then have "length (filter (\<lambda>(t, ctx, r). r = Inr True \<and> limit_key config ctx = Some key \<and> t div window = j) pgr) =
      min (length (filter (\<lambda>(t, ctx). limit_key config ctx = Some key \<and> t div window = j) qs)) (nat limit)"
    "list_all (\<lambda>(t, ctx, r). r = Inr True \<or> r = Inl RateLimitExceededError) pgr"
    unfolding pgr_def using pgw.admits_exactly [OF _ assms(2), of Map.empty "Some key" j]
      pgw.answers_decided [OF _ assms(2), of Map.empty] by simp_all
  moreover have "vk_inv pid window Map.empty" "vk_window pid window Map.empty (Some key) j = 0"
    by (simp_all add: vk_inv_def vk_window_def)
  then have "length (filter (\<lambda>(t, ctx, r). r = Inr True \<and> limit_key config ctx = Some key \<and> t div window = j) vkr) =
      min (length (filter (\<lambda>(t, ctx). limit_key config ctx = Some key \<and> t div window = j) qs)) (nat limit)"
    "list_all (\<lambda>(t, ctx, r). r = Inr True \<or> r = Inl RateLimitExceededError) vkr"
    unfolding vkr_def using vkw.admits_exactly [OF _ assms(3), of Map.empty "Some key" j]
      vkw.answers_decided [OF _ assms(3), of Map.empty] by simp_all
  ultimately show ?thesis unfolding due_def win by simp
qed

definition limited_requests :: "(int \<times> eval_ctx) list" where
  "limited_requests = [(61, plain_ctx), (70, plain_ctx), (75, plain_ctx\<lparr>cx_principal_id := Some ''v''\<rparr>),
     (119, plain_ctx), (120, plain_ctx)]"

theorem rate_limit_exact_witness:
  "length (filter (\<lambda>(t, ctx, r). r = Inr True \<and> limit_key [(''limit'', JInt 2)] ctx = Some ''u'' \<and> 60 * 1 \<le> t \<and> t < 60 * (1 + 1))
     (answers (\<lambda>t. rate_limit_eval (pg_env t (plain_env None 0)) (Some 7) [(''limit'', JInt 2)]) limited_requests Map.empty)) = 2 \<and>
   length (filter (\<lambda>(t, ctx, r). r = Inr True \<and> limit_key [(''limit'', JInt 2)] ctx = Some ''u'' \<and> 60 * 1 \<le> t \<and> t < 60 * (1 + 1))
     (answers (\<lambda>t. rate_limit_eval (vk_env t (plain_env None 0)) (Some 7) [(''limit'', JInt 2)]) limited_requests Map.empty)) = 2"
proof -
  have a: "rate_limit_applies (plain_env None 0) (Some 7) [(''limit'', JInt 2)] plain_ctx ''pol'' ''u'' 2 60"
    "rate_limit_applies (plain_env None 0) (Some 7) [(''limit'', JInt 2)] (plain_ctx\<lparr>cx_principal_id := Some ''v''\<rparr>) ''pol'' ''v'' 2 60"
    by code_simp+
  then have q: "\<forall>(t, ctx) \<in> set limited_requests.
      limit_applies (plain_env None 0) (Some 7) [(''limit'', JInt 2)] ''pol'' 2 60 ctx"
    by (auto simp: limited_requests_def limit_applies_def)
  from a have b: "rate_limit_applies (plain_env None 0 :: vk_store cond_env) (Some 7) [(''limit'', JInt 2)] plain_ctx ''pol'' ''u'' 2 60"
    "rate_limit_applies (plain_env None 0 :: vk_store cond_env) (Some 7) [(''limit'', JInt 2)] (plain_ctx\<lparr>cx_principal_id := Some ''v''\<rparr>) ''pol'' ''v'' 2 60"
    by (simp_all add: rate_limit_applies_def plain_env_def)
  then have q': "\<forall>(t, ctx) \<in> set limited_requests.
      limit_applies (plain_env None 0 :: vk_store cond_env) (Some 7) [(''limit'', JInt 2)] ''pol'' 2 60 ctx"
    by (auto simp: limited_requests_def limit_applies_def)
  have k: "limit_key [(''limit'', JInt 2)] plain_ctx = Some ''u''"
    "limit_key [(''limit'', JInt 2)] (plain_ctx\<lparr>cx_principal_id := Some ''v''\<rparr>) = Some ''v''"
    by code_simp+
  have n: "length (filter (\<lambda>(t, ctx). limit_key [(''limit'', JInt 2)] ctx = Some ''u'' \<and>
      60 * 1 \<le> t \<and> t < 60 * (1 + 1)) limited_requests) = 3"
    by (simp add: limited_requests_def k)
  show ?thesis
    using rate_limit_exact [OF _ q q', where key = "''u''" and j = 1] unfolding n by simp
qed

text \<open>
  A limit nested inside \<open>and\<close>, \<open>or\<close> or \<open>not\<close> is never enforced: the nested configuration is copied
  when it is decoded, its identity is in no policy map, so (unless the configuration itself names a
  policy id) \<open>rate_limit\<close> and \<open>max_count\<close> return \<open>True\<close> without consulting the counter, whatever the limit
  and however often they are evaluated.
\<close>

theorem nested_limits_not_enforced:
  assumes "t \<in> {''rate_limit'', ''max_count''}"
    and "en_plugins E ''and'' = None" "en_plugins E t = None"
    and "\<not> truthy (jget cfg ''_policy_id'')"
    and "path_method_matches (en_lib E) cfg ctx = Inr b"
  shows "eval_condition E (Some ctx) (formula_cond (FAnd [FLeaf t cfg])) w = (Inr True, w)"
proof -
  have "policy_id_for None cfg ctx = None"
    using assms(4) by (simp add: policy_id_for_def)
  then have limits: "rate_limit_eval E None cfg ctx u = (Inr True, u)"
    "max_count_eval E None cfg ctx u = (Inr True, u)" for u
    using assms(5) by (simp_all add: rate_limit_eval_def max_count_eval_def run_simps)
  have leaf: "eval_condition E (Some ctx) (formula_cond g) u = (Inr True, u)" if "g \<in> set [FLeaf t cfg]" for g u
    using assms(1,3) that by (subst eval_condition.simps) (elim insertE; simp add: leaf_eval_def limits)
  from all_r_formulas [of "[FLeaf t cfg]" E "Some ctx" "\<lambda>_. True", OF leaf] show ?thesis
    by (subst eval_condition.simps) (simp add: assms(2) dget_or_def py_iter_def)
qed

theorem nested_limits_not_enforced_witness:
  "eval_condition (pg_env 61 (plain_env None 0)) (Some plain_ctx)
     (formula_cond (FAnd [FLeaf ''rate_limit'' [(''limit'', JInt 1)]])) Map.empty = (Inr True, Map.empty)"
  by (rule nested_limits_not_enforced [where b = True])
     (simp_all add: pg_env_def plain_env_def jget_def path_method_matches_def)

text \<open>
  A \<open>time_window\<close> condition outside its hours raises instead of returning \<open>False\<close>, so inside \<open>or\<close>
  the alternatives after it are never tried: the evaluation raises \<open>AccessDeniedError\<close> whatever the
  other branch says, and a DENY policy restricted to a time window blocks outside of it as well.
\<close>

theorem time_window_raises_through_or:
  assumes "en_plugins E ''or'' = None" "en_plugins E ''time_window'' = None"
    and "now_hour E < start \<or> finish \<le> now_hour E"
  shows "eval_condition E ctx (formula_cond (FOr (FLeaf ''time_window''
           [(''start_hour'', JInt start), (''end_hour'', JInt finish)] # fs))) w = (Inl AccessDeniedError, w)"
proof -
  have "time_window_eval E [(''start_hour'', JInt start), (''end_hour'', JInt finish)] = Inl AccessDeniedError"
    using assms(3)
    by (simp add: time_window_eval_def jget_def dget_or_def json_num_def fle_def feq_def Let_def) linarith
  then have "eval_condition E ctx \<lparr>ctype = ''time_window'', caddr = None,
      cconfig = [(''start_hour'', JInt start), (''end_hour'', JInt finish)]\<rparr> w = (Inl AccessDeniedError, w)"
    by (subst eval_condition.simps) (simp add: assms(2) leaf_eval_def leaf_eval_none_def lift_r_def split: option.splits)
  then show ?thesis
    by (subst eval_condition.simps)
       (simp add: assms(1) dget_or_def py_iter_def cond_of_formula_json)
qed

theorem time_window_raises_through_or_witness:
  "eval_condition (plain_env None 0) (Some plain_ctx) (formula_cond (FOr [FLeaf ''time_window''
      [(''start_hour'', JInt 8), (''end_hour'', JInt 18)], FLeaf ''match'' []])) (3::nat) = (Inl AccessDeniedError, 3)"
  by (rule time_window_raises_through_or) (simp_all add: plain_env_def now_hour_def)

text \<open>
  An expiry date without a UTC offset is a fault, not an expiry: \<open>fromisoformat\<close> accepts it, the
  comparison with the aware clock raises \<open>TypeError\<close>, and the handlers only translate \<open>ValueError\<close>, so
  \<open>expiration\<close> and the bounds of \<open>time_window\<close> raise \<open>TypeError\<close> for every clock.
\<close>

theorem naive_dates_raise_type_error:
  assumes "en_iso E (replace_Z s) = Some (Naive t)" "s \<noteq> []"
  shows "expiration_eval E [(''expires_at'', JStr s)] = Inl TypeError \<and>
         time_window_eval E [(''start'', JStr s)] = Inl TypeError \<and>
         time_window_eval E [(''end'', JStr s)] = Inl TypeError"
  using assms by (simp add: expiration_eval_def time_window_eval_def iso_bound_def jget_def Let_def)

theorem naive_dates_raise_type_error_witness:
  "expiration_eval (plain_env None 0 :: nat cond_env) [(''expires_at'', JStr ''2030-01-01'')] = Inl TypeError"
  using naive_dates_raise_type_error [of "plain_env None 0 :: nat cond_env" "''2030-01-01''" 1893456000000000]
  by (simp add: plain_env_def replace_Z_def)

text \<open>
  The lookup gate counts the numbers and booleans that its documentation calls absent: a POST body
  whose only lookup field is \<open>0\<close> or \<open>False\<close> passes \<open>lookup_only_search\<close> with the default configuration.
\<close>

theorem lookup_gate_accepts_zero:
  assumes "v \<in> {JInt 0, JBool False}" "upper (cx_method ctx) = ''POST''"
    and "read_body ctx = Some [(''geoid'', v)]"
  shows "lookup_only_search_eval [] ctx = Inr True"
  using assms
  by (auto simp: lookup_only_search_eval_def fields_or_def jget_def default_lookup_fields_def
      default_broadening_fields_def field_present_def)

theorem lookup_gate_accepts_zero_witness:
  "lookup_only_search_eval [] (plain_ctx\<lparr>cx_method := ''post'',
     cx_request := Some \<lparr>rq_header = (\<lambda>_. None), rq_host = None, rq_json = Some (JObj [(''geoid'', JInt 0)])\<rparr>\<rparr>) = Inr True"
  by (rule lookup_gate_accepts_zero [where v = "JInt 0"]; code_simp)

text \<open>
  An invalid pattern never grants: where the regular-expression engine rejects the pattern of a
  \<open>query_match\<close> or of a \<open>match\<close> with operator \<open>regex\<close>, the condition holds exactly when the policy being
  evaluated is a DENY policy.
\<close>

theorem invalid_regex_fails_closed:
  assumes "re_search L (lib_str L expected) (lib_str L (get_value (JStr attr) ctx)) = None"
    and "get_value (JStr attr) ctx \<noteq> JNone" "attr \<noteq> []"
    and "re_fullmatch L pat v = None" "dget (cx_query ctx) k = Some v" "k \<noteq> []" "pat \<noteq> []"
  shows "match_eval L [(''attribute'', JStr attr), (''operator'', JStr ''regex''), (''value'', expected)] ctx
           = (cx_effect ctx = Some DENY) \<and>
         query_match_eval L [(''param'', JStr k), (''pattern'', JStr pat)] ctx = Inr (cx_effect ctx = Some DENY)"
proof -
  have "cx_query ctx \<noteq> []" using assms(5) by auto
  with assms show ?thesis
    by (simp add: match_eval_def query_match_eval_def jget_def dget_or_def compare_vals_def
        safe_regex_matches_def effect_aware_def Let_def)
qed

theorem invalid_regex_fails_closed_witness:
  "let L = plain_lib\<lparr>re_search := (\<lambda>_ _. None), re_fullmatch := (\<lambda>_ _. None)\<rparr>;
       ctx = plain_ctx\<lparr>cx_query := [(''q'', ''x'')], cx_effect := Some ALLOW\<rparr>
   in match_eval L [(''attribute'', JStr ''path''), (''operator'', JStr ''regex''), (''value'', JStr ''('')] ctx
        = (cx_effect ctx = Some DENY) \<and>
      query_match_eval L [(''param'', JStr ''q''), (''pattern'', JStr ''('')] ctx = Inr (cx_effect ctx = Some DENY)"
  unfolding Let_def
  by (rule invalid_regex_fails_closed [where v = "''x''"])
     (simp_all add: get_value_def plain_ctx_def)

end
