(* ===== verification/Policy_Engine.thy ===== *)
theory Policy_Engine
  imports Conditions "HOL-Library.List_Lexorder" "HOL-Library.Char_ord"
begin

text \<open>
  The evaluation engine of \<open>modules/iam/policies.py\<close>: schema resolution, policy lookup and writes,
  resolution of the effective policies of a principal through roles, custom policies and grants,
  the quota conditions of grants (\<open>scale_config.py\<close>), and the decision of \<open>evaluate_access\<close>.  The
  storage behind it is the record \<open>iam_store\<close>.  The optional trace collector, a by-product of the
  walk that never changes it, is left out.
\<close>

section \<open>Storage\<close>

text \<open>One row of the grants table; an empty string stands for a missing text column.\<close>

record grant =
  gr_id :: string
  gr_object_kind :: string
  gr_object_ref :: string
  gr_effect :: string
  gr_quota :: json
  gr_attribute_predicates :: json

text \<open>
  What the engine asks of its collaborators: the catalog registry (\<open>is_catalogs\<close> says whether it is
  registered), the role, policy and grant tables, the platform defaults for quotas, the JSON
  decoder, the order in which the runtime iterates over a set of strings, the parser of \<open>UUID(...)\<close>,
  and the rows of \<open>usage_counters\<close> by schema and policy id.
\<close>

record iam_store =
  is_catalogs :: bool
  is_schema_of :: "string \<Rightarrow> py_exn + string option"
  is_catalog_id :: "string \<Rightarrow> py_exn + string option"
  is_collection_id :: "string \<Rightarrow> string \<Rightarrow> py_exn + string option"
  is_has_iam :: bool
  is_role :: "string \<Rightarrow> string \<Rightarrow> py_exn + string list option"
  is_policy :: "string \<Rightarrow> string \<Rightarrow> string \<Rightarrow> py_exn + policy option"
  is_grants :: "(string \<Rightarrow> string \<Rightarrow> string option \<Rightarrow> py_exn + grant list) option"
  is_default_rate_limit :: "dict option"
  is_default_quota :: "dict option"
  is_json_loads :: "string \<Rightarrow> json option"
  is_order :: "string list \<Rightarrow> string list"
  is_uuid :: "string \<Rightarrow> string option"
  is_counter_rows :: "string \<Rightarrow> string \<Rightarrow> (string \<times> int) list"

section \<open>Names and schemas\<close>

definition ident_start :: "char \<Rightarrow> bool" where
  "ident_start c \<longleftrightarrow>
     (let n = (of_char c :: nat) in 65 \<le> n \<and> n \<le> 90 \<or> 97 \<le> n \<and> n \<le> 122 \<or> n = 95)"

definition ident_char :: "char \<Rightarrow> bool" where
  "ident_char c \<longleftrightarrow> ident_start c \<or> is_digit c"

text \<open>
  \<open>_SAFE_SCHEMA_RE.match\<close> for \<open>^[a-zA-Z_][a-zA-Z0-9_]{0,62}$\<close>, where the dollar sign also matches before a
  final line break.
\<close>

definition schema_ident :: "string \<Rightarrow> bool" where
  "schema_ident s = (case s of [] \<Rightarrow> False | c # cs \<Rightarrow> ident_start c \<and> list_all ident_char cs \<and> length cs \<le> 62)"

definition validate_schema_name :: "string \<Rightarrow> py_exn + string" where
  "validate_schema_name s =
     (if schema_ident s \<or> s \<noteq> [] \<and> last s = CHR 0x0A \<and> schema_ident (butlast s)
      then Inr s else Inl ValueError)"

definition resolve_schema :: "iam_store \<Rightarrow> string option \<Rightarrow> bool \<Rightarrow> py_exn + string" where
  "resolve_schema st catalog_id strict =
     (case nonempty catalog_id of
        None \<Rightarrow> Inr ''iam''
      | Some cat \<Rightarrow>
          if cat = ''_system_'' then Inr ''iam''
          else if \<not> is_catalogs st then Inl (if strict then ValueError else RuntimeError)
          else bind_e (is_schema_of st cat) (\<lambda>res.
               case nonempty res of
                 Some s \<Rightarrow> validate_schema_name s
               | None \<Rightarrow> if strict then Inl ValueError else validate_schema_name ''iam''))"

definition resolve_collection_internal_id :: "iam_store \<Rightarrow> string option \<Rightarrow> string option \<Rightarrow> string option" where
  "resolve_collection_internal_id st catalog_id collection_id =
     (case (nonempty catalog_id, nonempty collection_id) of
        (Some cat, Some col) \<Rightarrow>
          if \<not> is_catalogs st then collection_id
          else (case is_catalog_id st cat of
                  Inr (Some cat_internal) \<Rightarrow>
                    (case is_collection_id st cat_internal col of
                       Inr (Some internal) \<Rightarrow> Some internal
                     | _ \<Rightarrow> collection_id)
                | _ \<Rightarrow> collection_id)
      | _ \<Rightarrow> collection_id)"

text \<open>\<open>path.strip(" /")\<close> and the partition key derived from a path.\<close>

definition derive_partition_key :: "string \<Rightarrow> string" where
  "derive_partition_key path =
     (if prefix ''/docs'' path \<or> prefix ''/openapi.json'' path \<or> prefix ''/redoc'' path then ''docs''
      else
        (let trim = dropWhile (\<lambda>c. c = CHR '' '' \<or> c = CHR ''/'');
             pattern = hd (split_on CHR ''/'' (rev (trim (rev (trim path)))))
         in if pattern = [] \<or> CHR ''*'' \<in> set pattern \<or> CHR ''|'' \<in> set pattern then ''default''
            else take 32 pattern))"

section \<open>Reading and writing policies\<close>

definition or_global :: "string option \<Rightarrow> string" where
  "or_global s = (case nonempty s of None \<Rightarrow> ''global'' | Some x \<Rightarrow> x)"

definition get_policy :: "iam_store \<Rightarrow> string \<Rightarrow> string option \<Rightarrow> py_exn + policy option" where
  "get_policy st pid catalog_id =
     bind_e (resolve_schema st catalog_id False) (\<lambda>schema.
       case is_policy st schema (or_global catalog_id) pid of
         Inl TableNotFoundError \<Rightarrow> if schema = ''iam'' then Inl TableNotFoundError else Inr None
       | r \<Rightarrow> r)"

definition validate_policy_condition_types :: "'w cond_env \<Rightarrow> policy \<Rightarrow> py_exn + unit" where
  "validate_policy_condition_types E p =
     (if list_ex (\<lambda>c. \<not> known_types E (ctype c)) (pol_conditions p) then Inl ValueError else Inr ())"

definition put_policy :: "string \<Rightarrow> string \<Rightarrow> string \<Rightarrow> policy option \<Rightarrow> iam_store \<Rightarrow> iam_store" where
  "put_policy schema part pid p st =
     st\<lparr>is_policy := (\<lambda>s q i. if s = schema \<and> q = part \<and> i = pid then Inr p else is_policy st s q i)\<rparr>"

text \<open>
  The statements of \<open>PostgresPolicyStorage\<close>: the primary key of the table is (id, partition_key).
  Deleting a policy also deletes the usage counters kept under its id.
\<close>

definition storage_put :: "policy \<Rightarrow> string \<Rightarrow> (iam_store, py_exn, policy) run" where
  "storage_put p schema st =
     (let part = or_global (pol_partition_key p); row = p\<lparr>pol_partition_key := Some part\<rparr> in
      case is_policy st schema part (pol_id p) of
        Inl e \<Rightarrow> (Inl e, st)
      | Inr _ \<Rightarrow> (Inr row, put_policy schema part (pol_id p) (Some row) st))"

definition storage_delete :: "string \<Rightarrow> string \<Rightarrow> string \<Rightarrow> (iam_store, py_exn, bool) run" where
  "storage_delete pid schema part st =
     (case is_policy st schema part pid of
        Inl e \<Rightarrow> (Inl e, st)
      | Inr row \<Rightarrow>
          (Inr (row \<noteq> None),
           put_policy schema part pid None
             (st\<lparr>is_counter_rows := (\<lambda>s i. if s = schema \<and> i = pid then [] else is_counter_rows st s i)\<rparr>)))"

text \<open>\<open>create_policy\<close>: validate, resolve strictly, refuse a duplicate in the partition, insert.\<close>

definition create_policy :: "'w cond_env \<Rightarrow> policy \<Rightarrow> string option \<Rightarrow> (iam_store, py_exn, policy) run" where
  "create_policy E p catalog_id st =
     bind_r (lift_r (validate_policy_condition_types E p)) (\<lambda>_.
     bind_r (lift_r (resolve_schema st catalog_id True)) (\<lambda>schema.
       let p' = p\<lparr>pol_partition_key := Some (or_global (pol_partition_key p))\<rparr> in
       bind_r (lift_r (is_policy st schema (or_global (pol_partition_key p')) (pol_id p'))) (\<lambda>existing.
         if existing \<noteq> None then throw ValueError else storage_put p' schema))) st"

definition update_policy :: "'w cond_env \<Rightarrow> policy \<Rightarrow> string option \<Rightarrow> (iam_store, py_exn, policy) run" where
  "update_policy E p catalog_id st =
     bind_r (lift_r (validate_policy_condition_types E p)) (\<lambda>_.
     bind_r (lift_r (resolve_schema st catalog_id True)) (\<lambda>schema. storage_put p schema)) st"

definition delete_policy :: "string \<Rightarrow> string option \<Rightarrow> (iam_store, py_exn, bool) run" where
  "delete_policy pid catalog_id st =
     bind_r (lift_r (resolve_schema st catalog_id True)) (\<lambda>schema.
       storage_delete pid schema (or_global catalog_id)) st"

section \<open>Quota conditions of grants\<close>

definition quota_namespace :: "string \<Rightarrow> string" where
  "quota_namespace grant_id = ''grant:'' @ grant_id"

text \<open>One half of \<open>quota_to_conditions\<close>: the condition of a given type from its specification.\<close>

definition spec_or_default :: "dict \<Rightarrow> string \<Rightarrow> dict option \<Rightarrow> dict option" where
  "spec_or_default quota key dflt = (case jget quota key of JObj d \<Rightarrow> Some d | _ \<Rightarrow> dflt)"

definition quota_condition ::
  "pylib \<Rightarrow> string \<Rightarrow> dict option \<Rightarrow> nat \<Rightarrow> py_exn + condition option" where
  "quota_condition L t spec addr =
     (case spec of
        None \<Rightarrow> Inr None
      | Some d \<Rightarrow>
          bind_e (lib_int L (py_or (jget_or d ''limit'' (JInt 0)) (JInt 0))) (\<lambda>limit.
            if limit > 0
            then Inr (Some \<lparr>ctype = t, caddr = Some addr,
                            cconfig = (if dget d ''scope'' = None then d @ [(''scope'', JStr ''principal'')] else d)\<rparr>)
            else Inr None))"

definition quota_to_conditions ::
  "pylib \<Rightarrow> dict option \<Rightarrow> dict option \<Rightarrow> dict option \<Rightarrow> nat \<Rightarrow> py_exn + condition list" where
  "quota_to_conditions L quota default_rate_limit default_quota addr =
     (let q = (case quota of None \<Rightarrow> [] | Some d \<Rightarrow> d) in
      bind_e (quota_condition L ''rate_limit'' (spec_or_default q ''rate_limit'' default_rate_limit) addr) (\<lambda>r.
      bind_e (quota_condition L ''max_count'' (spec_or_default q ''max_count'' default_quota) (Suc addr)) (\<lambda>m.
        Inr ((case r of None \<Rightarrow> [] | Some c \<Rightarrow> [c]) @ (case m of None \<Rightarrow> [] | Some c \<Rightarrow> [c])))))"

definition lower_char :: "char \<Rightarrow> char" where
  "lower_char c =
     (let n = (of_char c :: nat) in if 65 \<le> n \<and> n \<le> 90 then char_of (n + 32) else c)"

definition is_deny_grant :: "grant \<Rightarrow> bool" where
  "is_deny_grant g \<longleftrightarrow> map lower_char (if gr_effect g = [] then ''allow'' else gr_effect g) = ''deny''"

text \<open>The grant's quota, decoded when it arrives as text.\<close>

definition grant_quota :: "iam_store \<Rightarrow> grant \<Rightarrow> dict option" where
  "grant_quota st g =
     (case (case gr_quota g of
              JScalar (SStr s) \<Rightarrow> (case is_json_loads st s of None \<Rightarrow> JNone | Some j \<Rightarrow> j)
            | j \<Rightarrow> j) of
        JObj d \<Rightarrow> Some d | _ \<Rightarrow> None)"

text \<open>Registering conditions: append them and map their identities to the counter namespace.\<close>

definition map_configs :: "string \<Rightarrow> condition list \<Rightarrow> eval_ctx \<Rightarrow> eval_ctx" where
  "map_configs pid conds ctx =
     ctx\<lparr>cx_policy_of_config :=
       (\<lambda>a. if list_ex (\<lambda>c. caddr c = Some a) conds then Some pid else cx_policy_of_config ctx a)\<rparr>"

fun collect_quota_loop :: "pylib \<Rightarrow> iam_store \<Rightarrow> grant list \<Rightarrow> (eval_ctx, py_exn, unit) run" where
  "collect_quota_loop L st [] ctx = (Inr (), ctx)"
| "collect_quota_loop L st (g # gs) ctx =
     (if is_deny_grant g then collect_quota_loop L st gs ctx
      else if gr_id g \<in> set (cx_quota_seen ctx) then collect_quota_loop L st gs ctx
      else
        (let ctx1 = ctx\<lparr>cx_quota_seen := gr_id g # cx_quota_seen ctx\<rparr> in
         case quota_to_conditions L (grant_quota st g) (is_default_rate_limit st) (is_default_quota st) (cx_fresh ctx1) of
           Inl e \<Rightarrow> (Inl e, ctx1)
         | Inr conds \<Rightarrow>
             collect_quota_loop L st gs
               (map_configs (quota_namespace (gr_id g)) conds
                  (ctx1\<lparr>cx_quota := cx_quota ctx1 @ conds, cx_fresh := cx_fresh ctx1 + 2\<rparr>))))"

definition collect_grant_quota_conditions :: "pylib \<Rightarrow> iam_store \<Rightarrow> grant list \<Rightarrow> (eval_ctx, py_exn, unit) run" where
  "collect_grant_quota_conditions L st rows ctx =
     (if \<not> list_ex (\<lambda>g. truthy (gr_quota g)) rows \<and> is_default_rate_limit st = None \<and> is_default_quota st = None
      then (Inr (), ctx)
      else collect_quota_loop L st rows ctx)"

section \<open>Resolution of the effective policies\<close>

text \<open>
  Step 1: the roles named by the principals, in every schema; the policy ids they bring and the
  roles that were found.
\<close>

fun resolve_roles ::
  "iam_store \<Rightarrow> (string \<times> string) list \<Rightarrow> string list \<Rightarrow> string list \<Rightarrow> py_exn + string list \<times> string list" where
  "resolve_roles st [] ids roles = Inr (ids, roles)"
| "resolve_roles st ((schema, who) # rest) ids roles =
     (if who = [] \<or> \<not> is_has_iam st then resolve_roles st rest ids roles
      else (case is_role st schema who of
              Inl e \<Rightarrow> Inl e
            | Inr None \<Rightarrow> resolve_roles st rest ids roles
            | Inr (Some ps) \<Rightarrow> resolve_roles st rest (ids @ ps) (roles @ [who])))"

text \<open>A policy by id: the catalog's partition first, then the platform's.\<close>

definition fetch_policy :: "iam_store \<Rightarrow> string option \<Rightarrow> string \<Rightarrow> py_exn + policy option" where
  "fetch_policy st catalog_id pid =
     bind_e (get_policy st pid catalog_id) (\<lambda>pol.
       if pol = None \<and> nonempty catalog_id \<noteq> None then get_policy st pid None else Inr pol)"

definition contributed :: "bool \<Rightarrow> policy \<Rightarrow> policy" where
  "contributed deny pol = (if deny then pol\<lparr>pol_effect := DENY\<rparr> else pol)"

text \<open>Appending the policies of a set of ids to the list built so far.\<close>

fun add_policies :: "iam_store \<Rightarrow> string option \<Rightarrow> bool \<Rightarrow> string list \<Rightarrow> (policy list, py_exn, unit) run" where
  "add_policies st catalog_id deny [] acc = (Inr (), acc)"
| "add_policies st catalog_id deny (pid # pids) acc =
     (case fetch_policy st catalog_id pid of
        Inl e \<Rightarrow> (Inl e, acc)
      | Inr None \<Rightarrow> add_policies st catalog_id deny pids acc
      | Inr (Some pol) \<Rightarrow> add_policies st catalog_id deny pids (acc @ [contributed deny pol]))"

text \<open>The first grant row per granted object of a kind, in the order of the rows.\<close>

definition grant_rows_of :: "string \<Rightarrow> grant list \<Rightarrow> grant list" where
  "grant_rows_of kind rows = filter (\<lambda>g. gr_object_kind g = kind \<and> gr_object_ref g \<noteq> []) rows"

definition first_row :: "string \<Rightarrow> grant list \<Rightarrow> string \<Rightarrow> grant option" where
  "first_row kind rows ref = find (\<lambda>g. gr_object_ref g = ref) (grant_rows_of kind rows)"

definition row_denies :: "string \<Rightarrow> grant list \<Rightarrow> string \<Rightarrow> bool" where
  "row_denies kind rows ref = (case first_row kind rows ref of None \<Rightarrow> False | Some g \<Rightarrow> is_deny_grant g)"

fun add_role_grants ::
  "iam_store \<Rightarrow> string list \<Rightarrow> string option \<Rightarrow> grant list \<Rightarrow> string list \<Rightarrow> (policy list, py_exn, unit) run" where
  "add_role_grants st schemas catalog_id rows [] acc = (Inr (), acc)"
| "add_role_grants st schemas catalog_id rows (name # names) acc =
     (case map_e (\<lambda>schema. is_role st schema name) schemas of
        Inl e \<Rightarrow> (Inl e, acc)
      | Inr found \<Rightarrow>
          bind_r (add_policies st catalog_id (row_denies ''role'' rows name)
                    (is_order st (remdups (List.maps (\<lambda>r. case r of None \<Rightarrow> [] | Some ps \<Rightarrow> ps) found))))
            (\<lambda>_. add_role_grants st schemas catalog_id rows names) acc)"

fun add_policy_grants ::
  "iam_store \<Rightarrow> string option \<Rightarrow> grant list \<Rightarrow> string list \<Rightarrow> string list \<Rightarrow> (policy list, py_exn, unit) run" where
  "add_policy_grants st catalog_id rows [] seen acc = (Inr (), acc)"
| "add_policy_grants st catalog_id rows (pid # pids) seen acc =
     (if pid \<in> set seen then add_policy_grants st catalog_id rows pids seen acc
      else (case fetch_policy st catalog_id pid of
              Inl e \<Rightarrow> (Inl e, acc)
            | Inr None \<Rightarrow> add_policy_grants st catalog_id rows pids seen acc
            | Inr (Some pol) \<Rightarrow>
                (let c = contributed (row_denies ''policy'' rows pid) pol in
                 add_policy_grants st catalog_id rows pids (pol_id c # seen) (acc @ [c]))))"

text \<open>
  Step 4, the body of the \<open>try\<close> block.  The state is the policy list and the request context; what
  was appended before a raise stays.
\<close>

definition grant_step ::
  "pylib \<Rightarrow> iam_store \<Rightarrow> string list \<Rightarrow> string option \<Rightarrow> string list \<Rightarrow> grant list \<Rightarrow>
   (policy list \<times> eval_ctx option, py_exn, unit) run" where
  "grant_step L st schemas catalog_id resolved rows s =
     (let role_names = filter (\<lambda>n. n \<notin> set resolved) (remdups (map gr_object_ref (grant_rows_of ''role'' rows)));
          pids = remdups (map gr_object_ref (grant_rows_of ''policy'' rows));
          (r1, acc1) = add_role_grants st schemas catalog_id rows (is_order st role_names) (fst s) in
      case r1 of
        Inl e \<Rightarrow> (Inl e, (acc1, snd s))
      | Inr _ \<Rightarrow>
          (let (r2, acc2) = add_policy_grants st catalog_id rows (is_order st pids) (map pol_id acc1) acc1 in
           case r2 of
             Inl e \<Rightarrow> (Inl e, (acc2, snd s))
           | Inr _ \<Rightarrow>
               (case snd s of
                  None \<Rightarrow> (Inr (), (acc2, None))
                | Some ctx \<Rightarrow>
                    if rows = [] then (Inr (), (acc2, Some ctx))
                    else (let (r3, ctx3) = collect_grant_quota_conditions L st rows ctx in (r3, (acc2, Some ctx3))))))"

definition schemas_to_check :: "string \<Rightarrow> string list" where
  "schemas_to_check schema = (if schema \<noteq> ''iam'' then [''iam'', schema] else [''iam''])"

text \<open>Steps 1 to 3: roles, their policies, and the principal's own policies.\<close>

definition flat_policies ::
  "iam_store \<Rightarrow> string list \<Rightarrow> string \<Rightarrow> string option \<Rightarrow> policy list \<Rightarrow> py_exn + policy list \<times> string list" where
  "flat_policies st principals schema catalog_id custom_policies =
     bind_e (resolve_roles st (List.product (schemas_to_check schema) principals) [] []) (\<lambda>(ids, resolved).
       case add_policies st catalog_id False (is_order st (remdups ids)) [] of
         (Inl e, _) \<Rightarrow> Inl e
       | (Inr _, acc) \<Rightarrow> Inr (acc @ custom_policies, resolved))"

definition resolve_effective_policies ::
  "pylib \<Rightarrow> iam_store \<Rightarrow> string list \<Rightarrow> string \<Rightarrow> string option \<Rightarrow> policy list \<Rightarrow> string option \<Rightarrow>
   string option \<Rightarrow> (eval_ctx option, py_exn, policy list) run" where
  "resolve_effective_policies L st principals schema catalog_id custom_policies principal_id collection_id ctx =
     (case flat_policies st principals schema catalog_id custom_policies of
        Inl e \<Rightarrow> (Inl e, ctx)
      | Inr (base, resolved) \<Rightarrow>
          (case (principal_id, is_grants st) of
             (Some pid, Some resolve_grants) \<Rightarrow>
               if \<not> is_has_iam st then (Inr base, ctx)
               else (case resolve_grants pid schema (resolve_collection_internal_id st catalog_id collection_id) of
                       Inl _ \<Rightarrow> (Inr base, ctx)
                     | Inr rows \<Rightarrow>
                         (let (_, (acc, ctx')) =
                            grant_step L st (schemas_to_check schema) catalog_id resolved rows (base, ctx)
                          in (Inr acc, ctx')))
           | _ \<Rightarrow> (Inr base, ctx)))"

section \<open>The decision\<close>

definition method_match :: "pylib \<Rightarrow> policy \<Rightarrow> string \<Rightarrow> bool" where
  "method_match L p meth \<longleftrightarrow>
     pol_actions p = [] \<or> ''.*'' \<in> set (pol_actions p) \<or> meth \<in> set (pol_actions p) \<or> matches_action L p meth"

definition applies_to :: "pylib \<Rightarrow> string \<Rightarrow> string \<Rightarrow> policy \<Rightarrow> bool" where
  "applies_to L meth path p \<longleftrightarrow> method_match L p meth \<and> matches_resource L p path"

text \<open>\<open>_rank_key(p) < _rank_key(q)\<close>: higher priority first, then the smaller id.\<close>

definition rank_less :: "policy \<Rightarrow> policy \<Rightarrow> bool" where
  "rank_less p q \<longleftrightarrow>
     - pol_priority p < - pol_priority q \<or> pol_priority p = pol_priority q \<and> pol_id p < pol_id q"

definition better :: "policy \<Rightarrow> policy option \<Rightarrow> policy option" where
  "better p best = (case best of None \<Rightarrow> Some p | Some q \<Rightarrow> if rank_less p q then Some p else Some q)"

text \<open>The stamps on the request context before a policy's conditions run.\<close>

definition stamp :: "policy \<Rightarrow> eval_ctx option \<Rightarrow> eval_ctx option" where
  "stamp p ctx =
     map_option (\<lambda>cx. map_configs (pol_id p) (pol_conditions p) (cx\<lparr>cx_effect := Some (pol_effect p)\<rparr>)) ctx"

fun walk ::
  "'w cond_env \<Rightarrow> string \<Rightarrow> string \<Rightarrow> policy list \<Rightarrow> policy option \<Rightarrow> policy option \<Rightarrow>
   (eval_ctx option \<times> 'w, py_exn, policy option \<times> policy option) run" where
  "walk E meth path [] best_deny best_allow s = (Inr (best_deny, best_allow), s)"
| "walk E meth path (p # ps) best_deny best_allow (ctx, w) =
     (if \<not> applies_to (en_lib E) meth path p then walk E meth path ps best_deny best_allow (ctx, w)
      else (case evaluate_all E (stamp p ctx) (pol_conditions p) w of
              (Inl e, w') \<Rightarrow> (Inl e, (stamp p ctx, w'))
            | (Inr False, w') \<Rightarrow> walk E meth path ps best_deny best_allow (stamp p ctx, w')
            | (Inr True, w') \<Rightarrow>
                (case pol_effect p of
                   DENY \<Rightarrow> walk E meth path ps (better p best_deny) best_allow (stamp p ctx, w')
                 | ALLOW \<Rightarrow> walk E meth path ps best_deny (better p best_allow) (stamp p ctx, w'))))"

definition winner :: "policy option \<Rightarrow> policy option \<Rightarrow> policy option" where
  "winner best_deny best_allow =
     (case (best_deny, best_allow) of
        (Some d, Some a) \<Rightarrow> if pol_priority d \<ge> pol_priority a then Some d else Some a
      | (Some d, None) \<Rightarrow> Some d
      | (None, a) \<Rightarrow> a)"

definition verdict :: "policy option \<Rightarrow> bool \<times> string" where
  "verdict w =
     (case w of
        None \<Rightarrow> (False, ''Deny by Default (No matching ALLOW policy found)'')
      | Some p \<Rightarrow>
          if pol_effect p = DENY then (False, ''Explicit DENY by policy '' @ pol_id p)
          else (True, ''Allowed by policy '' @ pol_id p))"

definition decide_access ::
  "'w cond_env \<Rightarrow> policy list \<Rightarrow> string \<Rightarrow> string \<Rightarrow> (eval_ctx option \<times> 'w, py_exn, bool \<times> string) run" where
  "decide_access E effective_policies path meth =
     bind_r (walk E meth path effective_policies None None) (\<lambda>(best_deny, best_allow).
       ret (verdict (winner best_deny best_allow)))"

definition evaluate_access ::
  "'w cond_env \<Rightarrow> iam_store \<Rightarrow> string list \<Rightarrow> string \<Rightarrow> string \<Rightarrow> string option \<Rightarrow> policy list \<Rightarrow>
   string option \<Rightarrow> string option \<Rightarrow> (eval_ctx option \<times> 'w, py_exn, bool \<times> string) run" where
  "evaluate_access E st principals path meth catalog_id custom_policies principal_id collection_id s =
     (case resolve_schema st catalog_id False of
        Inl e \<Rightarrow> (Inl e, s)
      | Inr schema \<Rightarrow>
          (case resolve_effective_policies (en_lib E) st principals schema catalog_id custom_policies
                  principal_id collection_id (fst s) of
             (Inl e, ctx') \<Rightarrow> (Inl e, (ctx', snd s))
           | (Inr ps, ctx') \<Rightarrow> decide_access E ps path meth (ctx', snd s)))"

text \<open>
  The inline statements of a bundle: an applicable DENY ends the loop, and an empty bundle allows.
\<close>

fun statements_loop ::
  "'w cond_env \<Rightarrow> string \<Rightarrow> string \<Rightarrow> eval_ctx option \<Rightarrow> policy list \<Rightarrow> bool \<Rightarrow> ('w, py_exn, bool) run" where
  "statements_loop E meth path ctx [] has_allow_match w = (Inr has_allow_match, w)"
| "statements_loop E meth path ctx (s # ss) has_allow_match w =
     (if \<not> applies_to (en_lib E) meth path s then statements_loop E meth path ctx ss has_allow_match w
      else (case evaluate_all E ctx (pol_conditions s) w of
              (Inl e, w') \<Rightarrow> (Inl e, w')
            | (Inr False, w') \<Rightarrow> statements_loop E meth path ctx ss has_allow_match w'
            | (Inr True, w') \<Rightarrow>
                if pol_effect s = DENY then (Inr False, w')
                else statements_loop E meth path ctx ss True w'))"

definition evaluate_policy_statements ::
  "'w cond_env \<Rightarrow> policy list \<Rightarrow> string \<Rightarrow> string \<Rightarrow> eval_ctx option \<Rightarrow> ('w, py_exn, bool) run" where
  "evaluate_policy_statements E statements meth path ctx w =
     (if statements = [] then (Inr True, w) else statements_loop E meth path ctx statements False w)"

text \<open>
  \<open>check_permission\<close>: the catalog and collection are read off the resource string, and the engine runs
  without a request context.  \<open>catalog_ref\<close> is the group of \<open>re.search("catalog[:/]([^:/]+)")\<close>.
\<close>

definition segment_after :: "string \<Rightarrow> string \<Rightarrow> string option" where
  "segment_after name resource =
     (if \<not> sublist (''/'' @ name @ ''/'') resource then None
      else (case dropWhile (\<lambda>x. x \<noteq> name) (split_on CHR ''/'' resource) of
              _ # x # _ \<Rightarrow> nonempty (Some x) | _ \<Rightarrow> None))"

definition ref_sep :: "char \<Rightarrow> bool" where
  "ref_sep c \<longleftrightarrow> c = CHR '':'' \<or> c = CHR ''/''"

fun catalog_ref :: "string \<Rightarrow> string option" where
  "catalog_ref [] = None"
| "catalog_ref (c # s) =
     (if prefix ''catalog'' (c # s)
      then (case drop 7 (c # s) of
              d # rest \<Rightarrow>
                (let x = takeWhile (\<lambda>a. \<not> ref_sep a) rest in
                 if ref_sep d \<and> x \<noteq> [] then Some x else catalog_ref s)
            | [] \<Rightarrow> catalog_ref s)
      else catalog_ref s)"

definition check_permission ::
  "'w cond_env \<Rightarrow> iam_store \<Rightarrow> principal \<Rightarrow> string \<Rightarrow> string \<Rightarrow> ('w, py_exn, bool) run" where
  "check_permission E st pr action resource w =
     (let identities = (case nonempty (pr_subject_id pr) of None \<Rightarrow> [] | Some x \<Rightarrow> [x]) @ pr_roles pr;
          catalog_id = (case segment_after ''catalogs'' resource of None \<Rightarrow> catalog_ref resource | c \<Rightarrow> c);
          collection_id = segment_after ''collections'' resource;
          (r, (_, w')) = evaluate_access E st identities resource action catalog_id (pr_custom_policies pr)
                           (is_uuid st (pr_id pr)) collection_id (None, w)
      in (case r of Inl e \<Rightarrow> (Inl e, w') | Inr (allowed, _) \<Rightarrow> (Inr allowed, w')))"

section \<open>Ranking\<close>

text \<open>
  The policies that take part in a decision: those that apply and whose conditions passed, in the
  order visited.
\<close>

fun matched ::
  "'w cond_env \<Rightarrow> string \<Rightarrow> string \<Rightarrow> policy list \<Rightarrow> (eval_ctx option \<times> 'w, py_exn, policy list) run" where
  "matched E meth path [] s = (Inr [], s)"
| "matched E meth path (p # ps) (ctx, w) =
     (if \<not> applies_to (en_lib E) meth path p then matched E meth path ps (ctx, w)
      else (case evaluate_all E (stamp p ctx) (pol_conditions p) w of
              (Inl e, w') \<Rightarrow> (Inl e, (stamp p ctx, w'))
            | (Inr b, w') \<Rightarrow>
                (case matched E meth path ps (stamp p ctx, w') of
                   (Inl e, s') \<Rightarrow> (Inl e, s')
                 | (Inr ms, s') \<Rightarrow> (Inr (if b then p # ms else ms), s'))))"

definition of_effect :: "effect \<Rightarrow> policy list \<Rightarrow> policy list" where
  "of_effect e ps = filter (\<lambda>p. pol_effect p = e) ps"

lemma of_effect_simps [simp]:
  "of_effect e [] = []"
  "of_effect e (p # ps) = (if pol_effect p = e then p # of_effect e ps else of_effect e ps)"
  "set (of_effect e ps) = {p \<in> set ps. pol_effect p = e}"
  by (simp_all add: of_effect_def)

lemma walk_matched:
  "walk E meth path ps d a s =
     (case matched E meth path ps s of
        (Inl e, s') \<Rightarrow> (Inl e, s')
      | (Inr ms, s') \<Rightarrow> (Inr (fold better (of_effect DENY ms) d, fold better (of_effect ALLOW ms) a), s'))"
proof (induction E meth path ps d a s rule: walk.induct)
  case (2 E meth path p ps d a ctx w)
  then show ?case
    by (cases "evaluate_all E (stamp p ctx) (pol_conditions p) w")
       (auto split: sum.splits prod.splits effect.splits bool.splits)
qed simp

lemma rank_less_linear: "\<not> rank_less p q \<Longrightarrow> \<not> rank_less q r \<Longrightarrow> \<not> rank_less p r"
  by (auto simp: rank_less_def)

lemma fold_better_Some:
  "\<exists>b. fold better ps (Some q) = Some b \<and> b \<in> insert q (set ps) \<and> (\<forall>p\<in>insert q (set ps). \<not> rank_less p b)"
proof (induction ps arbitrary: q)
  case Nil
  show ?case by (simp add: rank_less_def)
next
  case (Cons p ps)
  obtain q' where q': "better p (Some q) = Some q'" "q' \<in> {p, q}" "\<not> rank_less p q'" "\<not> rank_less q q'"
    by (cases "rank_less p q") (auto simp: better_def rank_less_def)
  obtain b where b: "fold better ps (Some q') = Some b" "b \<in> insert q' (set ps)"
      "\<forall>r\<in>insert q' (set ps). \<not> rank_less r b"
    using Cons.IH by blast
  have "\<not> rank_less p b" "\<not> rank_less q b"
    using b(3) q'(3,4) rank_less_linear by blast+
  then show ?case using b q'(1,2) by auto
qed

lemma fold_better_None:
  "(ps = [] \<longrightarrow> fold better ps None = None) \<and>
   (ps \<noteq> [] \<longrightarrow> (\<exists>b\<in>set ps. fold better ps None = Some b \<and> (\<forall>p\<in>set ps. \<not> rank_less p b)))"
  using fold_better_Some [of "tl ps" "hd ps"] by (cases ps) (auto simp: better_def)

text \<open>
  The specification of the decision over the policies that take part: \<open>top\<close> is a policy no other of
  its effect outranks.
\<close>

definition top_of :: "effect \<Rightarrow> policy set \<Rightarrow> policy \<Rightarrow> bool" where
  "top_of e M p \<longleftrightarrow> p \<in> M \<and> pol_effect p = e \<and> (\<forall>q\<in>M. pol_effect q = e \<longrightarrow> \<not> rank_less q p)"

definition ranking_allows :: "policy set \<Rightarrow> bool" where
  "ranking_allows M \<longleftrightarrow>
     (\<exists>a\<in>M. pol_effect a = ALLOW \<and> (\<forall>d\<in>M. pol_effect d = DENY \<longrightarrow> pol_priority d < pol_priority a))"

definition ranking_reason :: "policy set \<Rightarrow> string \<Rightarrow> bool" where
  "ranking_reason M reason \<longleftrightarrow>
     (if ranking_allows M then \<exists>a. top_of ALLOW M a \<and> reason = ''Allowed by policy '' @ pol_id a
      else if \<exists>d\<in>M. pol_effect d = DENY then \<exists>d. top_of DENY M d \<and> reason = ''Explicit DENY by policy '' @ pol_id d
      else reason = ''Deny by Default (No matching ALLOW policy found)'')"

lemma best_of_effect:
  "case fold better (of_effect e ms) None of
     None \<Rightarrow> \<forall>p\<in>set ms. pol_effect p \<noteq> e
   | Some b \<Rightarrow> top_of e (set ms) b"
proof (cases "of_effect e ms = []")
  case True
  then show ?thesis by (auto simp: of_effect_def filter_empty_conv)
next
  case False
  then show ?thesis using fold_better_None [of "of_effect e ms"] by (auto simp: top_of_def)
qed

lemma top_of_priority: "top_of e M p \<Longrightarrow> q \<in> M \<Longrightarrow> pol_effect q = e \<Longrightarrow> pol_priority q \<le> pol_priority p"
  by (auto simp: top_of_def rank_less_def)

lemma winner_ranking:
  assumes d: "case bd of None \<Rightarrow> \<forall>p\<in>M. pol_effect p \<noteq> DENY | Some b \<Rightarrow> top_of DENY M b"
    and a: "case ba of None \<Rightarrow> \<forall>p\<in>M. pol_effect p \<noteq> ALLOW | Some b \<Rightarrow> top_of ALLOW M b"
    and v: "verdict (winner bd ba) = (allowed, reason)"
  shows "(allowed \<longleftrightarrow> ranking_allows M) \<and> ranking_reason M reason"
proof (cases ba)
  case None
  then have no: "\<not> ranking_allows M" using a by (auto simp: ranking_allows_def)
  show ?thesis
    using None no d v
    by (cases bd) (auto simp: winner_def verdict_def ranking_reason_def top_of_def)
next
  case (Some b)
  then have ta: "top_of ALLOW M b" using a by simp
  show ?thesis
  proof (cases bd)
    case None
    then have "ranking_allows M" using d ta by (auto simp: ranking_allows_def top_of_def)
    then show ?thesis
      using None \<open>ba = Some b\<close> ta v by (auto simp: winner_def verdict_def ranking_reason_def top_of_def)
  next
    case (Some c)
    then have td: "top_of DENY M c" using d by simp
    have "ranking_allows M \<longleftrightarrow> pol_priority c < pol_priority b"
      using top_of_priority [OF ta] top_of_priority [OF td] ta td
      unfolding ranking_allows_def top_of_def by (meson le_less_trans less_le_trans)
    then show ?thesis
      using Some \<open>ba = Some b\<close> ta td v
      by (auto simp: winner_def verdict_def ranking_reason_def top_of_def split: if_splits)
  qed
qed

lemma decide_access_matched:
  "decide_access E ps path meth s =
     (case matched E meth path ps s of
        (Inl e, s') \<Rightarrow> (Inl e, s')
      | (Inr ms, s') \<Rightarrow>
          (Inr (verdict (winner (fold better (of_effect DENY ms) None) (fold better (of_effect ALLOW ms) None))), s'))"
  by (simp add: decide_access_def walk_matched run_simps split: sum.splits prod.splits)

lemma decide_access_ranking:
  assumes "matched E meth path ps s = (Inr ms, s')"
  obtains allowed reason where "decide_access E ps path meth s = (Inr (allowed, reason), s')"
    and "allowed \<longleftrightarrow> ranking_allows (set ms)" and "ranking_reason (set ms) reason"
proof -
  obtain allowed reason where v: "verdict (winner (fold better (of_effect DENY ms) None)
      (fold better (of_effect ALLOW ms) None)) = (allowed, reason)"
    by (cases "verdict (winner (fold better (of_effect DENY ms) None) (fold better (of_effect ALLOW ms) None))")
  show ?thesis
    using that [of allowed reason] winner_ranking [OF best_of_effect best_of_effect v] assms v
    by (simp add: decide_access_matched)
qed

text \<open>
  C1.  The central decision.  Whatever policies a request resolves to, let \<open>ms\<close> be those that apply
  to the method and path and whose conditions passed.  The request is allowed exactly when some
  ALLOW among them has a priority strictly above every DENY among them: a DENY wins a tie, and no
  match denies.  The reason names the highest-priority policy of the winning effect, the smallest id
  on a tie.
\<close>

theorem evaluate_access_ranking:
  assumes "resolve_schema st catalog_id False = Inr schema"
    and "resolve_effective_policies (en_lib E) st principals schema catalog_id custom principal_id collection_id ctx
           = (Inr ps, ctx')"
    and "matched E meth path ps (ctx', w) = (Inr ms, s')"
  shows "\<exists>allowed reason.
           evaluate_access E st principals path meth catalog_id custom principal_id collection_id (ctx, w)
             = (Inr (allowed, reason), s')
           \<and> (allowed \<longleftrightarrow>
                (\<exists>a\<in>set ms. pol_effect a = ALLOW \<and>
                   (\<forall>d\<in>set ms. pol_effect d = DENY \<longrightarrow> pol_priority d < pol_priority a)))
           \<and> ranking_reason (set ms) reason"
  by (rule decide_access_ranking [OF assms(3)])
     (use assms(1,2) in \<open>auto simp: evaluate_access_def ranking_allows_def\<close>)

definition mk_pol :: "string \<Rightarrow> effect \<Rightarrow> int \<Rightarrow> string list \<Rightarrow> condition list \<Rightarrow> policy" where
  "mk_pol i e prio res conds =
     \<lparr>pol_id = i, pol_version = ''1.0'', pol_effect = e, pol_priority = prio, pol_actions = [''.*''],
      pol_resources = res, pol_conditions = conds, pol_partition_key = Some ''global''\<rparr>"

lemma mk_pol_sel [simp]:
  "pol_id (mk_pol i e prio res conds) = i" "pol_effect (mk_pol i e prio res conds) = e"
  "pol_priority (mk_pol i e prio res conds) = prio" "pol_actions (mk_pol i e prio res conds) = [''.*'']"
  "pol_resources (mk_pol i e prio res conds) = res" "pol_conditions (mk_pol i e prio res conds) = conds"
  by (simp_all add: mk_pol_def)

text \<open>A store with one role, two policies in the platform partition and optional grants.\<close>

definition demo_store :: "(string \<rightharpoonup> string list) \<Rightarrow> (string \<Rightarrow> py_exn + policy option) \<Rightarrow> (py_exn + grant list) \<Rightarrow> iam_store" where
  "demo_store roles pols grants =
     \<lparr>is_catalogs = True, is_schema_of = (\<lambda>_. Inr None), is_catalog_id = (\<lambda>_. Inr None),
      is_collection_id = (\<lambda>_ _. Inr None), is_has_iam = True, is_role = (\<lambda>_ r. Inr (roles r)),
      is_policy = (\<lambda>_ _ i. pols i), is_grants = Some (\<lambda>_ _ _. grants), is_default_rate_limit = None,
      is_default_quota = None, is_json_loads = (\<lambda>_. None), is_order = (\<lambda>xs. xs), is_uuid = Some,
      is_counter_rows = (\<lambda>_ _. [])\<rparr>"

lemmas demo_simps = demo_store_def resolve_schema_def resolve_effective_policies_def flat_policies_def
  schemas_to_check_def fetch_policy_def get_policy_def nonempty_def or_global_def contributed_def
  resolve_collection_internal_id_def grant_step_def grant_rows_of_def first_row_def row_denies_def
  is_deny_grant_def lower_char_def run_simps

lemma applies_demo [simp]: "applies_to plain_lib meth path (mk_pol i e prio [''.*''] conds)"
  by (simp add: applies_to_def method_match_def matches_resource_def plain_lib_def)

definition ttl_cond :: condition where
  "ttl_cond = \<lparr>ctype = ''max_token_ttl'', caddr = None, cconfig = [(''max_ttl_seconds'', JInt 60)]\<rparr>"

theorem evaluate_access_ranking_witness:
  "\<exists>allowed reason.
     evaluate_access (plain_env None 0)
       (demo_store [''editor'' \<mapsto> [''p1'', ''p2'']]
          (\<lambda>i. Inr (Some (if i = ''p1'' then mk_pol i DENY 1 [''.*''] [] else mk_pol i ALLOW 2 [''.*''] [])))
          (Inr []))
       [''editor''] ''/x'' ''GET'' None [] None None (None, 0::nat) = (Inr (allowed, reason), (None, 0))
     \<and> (allowed \<longleftrightarrow>
          (\<exists>a\<in>set [mk_pol ''p1'' DENY 1 [''.*''] [], mk_pol ''p2'' ALLOW 2 [''.*''] []]. pol_effect a = ALLOW \<and>
             (\<forall>d\<in>set [mk_pol ''p1'' DENY 1 [''.*''] [], mk_pol ''p2'' ALLOW 2 [''.*''] []].
                pol_effect d = DENY \<longrightarrow> pol_priority d < pol_priority a)))
     \<and> ranking_reason (set [mk_pol ''p1'' DENY 1 [''.*''] [], mk_pol ''p2'' ALLOW 2 [''.*''] []]) reason"
  by (rule evaluate_access_ranking [where schema = "''iam''" and ctx' = None and
        ps = "[mk_pol ''p1'' DENY 1 [''.*''] [], mk_pol ''p2'' ALLOW 2 [''.*''] []]"])
     (simp_all add: demo_simps evaluate_all_def plain_env_def stamp_def)

section \<open>Order independence\<close>

text \<open>
  A policy is steady in a context when its conditions have one outcome whatever has been stamped on
  the context and leave the world alone.
\<close>

definition restamp :: "effect option \<Rightarrow> (nat \<Rightarrow> string option) \<Rightarrow> eval_ctx option \<Rightarrow> eval_ctx option" where
  "restamp e m ctx = map_option (\<lambda>cx. cx\<lparr>cx_effect := e, cx_policy_of_config := m\<rparr>) ctx"

definition steady :: "'w cond_env \<Rightarrow> eval_ctx option \<Rightarrow> policy \<Rightarrow> bool \<Rightarrow> bool" where
  "steady E ctx p b \<longleftrightarrow> (\<forall>e m w. evaluate_all E (restamp e m ctx) (pol_conditions p) w = (Inr b, w))"

lemma stamp_restamp: "\<exists>e' m'. stamp p (restamp e m ctx) = restamp e' m' ctx"
proof (cases ctx)
  case (Some cx)
  then show ?thesis by (auto simp: stamp_def restamp_def map_configs_def intro!: exI)
qed (simp add: stamp_def restamp_def)

lemma matched_steady:
  assumes "\<And>p. p \<in> set ps \<Longrightarrow> applies_to (en_lib E) meth path p \<Longrightarrow> steady E ctx p (b p)"
  shows "\<exists>e' m'. matched E meth path ps (restamp e m ctx, w) =
           (Inr (filter (\<lambda>p. applies_to (en_lib E) meth path p \<and> b p) ps), (restamp e' m' ctx, w))"
  using assms
proof (induction ps arbitrary: e m)
  case (Cons p ps)
  obtain e1 m1 where st: "stamp p (restamp e m ctx) = restamp e1 m1 ctx"
    using stamp_restamp by blast
  obtain e2 m2 where 2: "matched E meth path ps (restamp e1 m1 ctx, w) =
      (Inr (filter (\<lambda>p. applies_to (en_lib E) meth path p \<and> b p) ps), (restamp e2 m2 ctx, w))"
    using Cons.IH [of e1 m1] Cons.prems by auto
  obtain e3 m3 where 3: "matched E meth path ps (restamp e m ctx, w) =
      (Inr (filter (\<lambda>p. applies_to (en_lib E) meth path p \<and> b p) ps), (restamp e3 m3 ctx, w))"
    using Cons.IH [of e m] Cons.prems by auto
  show ?case
    using 2 3 st Cons.prems [of p] by (auto simp: steady_def)
qed auto

lemma restamp_id: "\<exists>e m. ctx = restamp e m ctx"
proof (cases ctx)
  case (Some cx)
  then have "ctx = restamp (cx_effect cx) (cx_policy_of_config cx) ctx" by (simp add: restamp_def)
  then show ?thesis by blast
qed (simp add: restamp_def)

lemma matched_steady_ctx:
  assumes "\<And>p. p \<in> set ps \<Longrightarrow> applies_to (en_lib E) meth path p \<Longrightarrow> steady E ctx p (b p)"
  shows "\<exists>s'. matched E meth path ps (ctx, w) = (Inr (filter (\<lambda>p. applies_to (en_lib E) meth path p \<and> b p) ps), s')"
proof -
  obtain e m where c: "restamp e m ctx = ctx" using restamp_id by metis
  show ?thesis using matched_steady [of ps E meth path ctx b e m w] assms unfolding c by blast
qed

lemma top_of_id_unique: "top_of e M p \<Longrightarrow> top_of e M q \<Longrightarrow> pol_id p = pol_id q"
  unfolding top_of_def rank_less_def
  by (metis antisym_conv3 neg_less_iff_less)

lemma ranking_reason_unique: "ranking_reason M r \<Longrightarrow> ranking_reason M r' \<Longrightarrow> r = r'"
  by (auto simp: ranking_reason_def dest: top_of_id_unique split: if_splits)

text \<open>
  C2.  The verdict and the audit reason do not depend on the order in which the effective policies
  were collected (the runtime's set iteration order), provided that the conditions of every policy
  that applies to the path and method always return one and the same outcome: they raise nothing,
  change no state and do not read what other policies stamp on the context.  Policies with a counting
  condition (\<open>rate_limit\<close>, \<open>max_count\<close>) or a \<open>time_window\<close> that raises are outside this claim when they
  apply.
\<close>

theorem decide_order_independent:
  assumes "set ps = set qs"
    and "\<And>p. p \<in> set ps \<Longrightarrow> applies_to (en_lib E) meth path p \<Longrightarrow> steady E ctx p (b p)"
  shows "fst (decide_access E ps path meth (ctx, w)) = fst (decide_access E qs path meth (ctx, w))"
proof -
  let ?f = "filter (\<lambda>p. applies_to (en_lib E) meth path p \<and> b p)"
  obtain s1 where 1: "matched E meth path ps (ctx, w) = (Inr (?f ps), s1)"
    using matched_steady_ctx [of ps E meth path ctx b] assms(2) by blast
  obtain s2 where 2: "matched E meth path qs (ctx, w) = (Inr (?f qs), s2)"
    using matched_steady_ctx [of qs E meth path ctx b] assms by blast
  have same: "set (?f ps) = set (?f qs)" using assms(1) by auto
  obtain a1 r1 where "decide_access E ps path meth (ctx, w) = (Inr (a1, r1), s1)"
      "a1 \<longleftrightarrow> ranking_allows (set (?f ps))" "ranking_reason (set (?f ps)) r1"
    using decide_access_ranking [OF 1] .
  moreover obtain a2 r2 where "decide_access E qs path meth (ctx, w) = (Inr (a2, r2), s2)"
      "a2 \<longleftrightarrow> ranking_allows (set (?f qs))" "ranking_reason (set (?f qs)) r2"
    using decide_access_ranking [OF 2] .
  ultimately show ?thesis using same ranking_reason_unique by auto
qed

theorem decide_order_independent_witness:
  "fst (decide_access (plain_env None 0)
      [mk_pol ''p1'' DENY 1 [''.*''] [ttl_cond], mk_pol ''p2'' ALLOW 1 [''.*''] [ttl_cond]] ''/x'' ''GET'' (Some plain_ctx, 0::nat))
   = fst (decide_access (plain_env None 0)
      [mk_pol ''p2'' ALLOW 1 [''.*''] [ttl_cond], mk_pol ''p1'' DENY 1 [''.*''] [ttl_cond]] ''/x'' ''GET'' (Some plain_ctx, 0::nat))"
  by (rule decide_order_independent [where b = "\<lambda>_. True"])
     (auto simp: steady_def evaluate_all_def eval_condition.simps ttl_cond_def restamp_def plain_ctx_def
        plain_env_def leaf_eval_def max_token_ttl_eval_def run_simps jget_def plain_lib_def)

section \<open>Grants\<close>

lemma add_policies_appends: "\<exists>x. snd (add_policies st cat deny pids acc) = acc @ x"
proof (induction pids arbitrary: acc)
  case (Cons pid pids)
  show ?case
  proof (cases "fetch_policy st cat pid")
    case (Inr res)
    then show ?thesis using Cons.IH by (cases res) (auto, metis append.assoc)
  qed simp
qed simp

lemma add_role_grants_appends: "\<exists>x. snd (add_role_grants st schemas cat rows names acc) = acc @ x"
proof (induction names arbitrary: acc)
  case (Cons n names)
  show ?case
  proof (cases "map_e (\<lambda>schema. is_role st schema n) schemas")
    case (Inr found)
    obtain r acc1 where 1: "add_policies st cat (row_denies ''role'' rows n)
        (is_order st (remdups (List.maps (\<lambda>r. case r of None \<Rightarrow> [] | Some ps \<Rightarrow> ps) found))) acc = (r, acc1)"
      by fastforce
    obtain x where x: "acc1 = acc @ x" using 1 by (metis add_policies_appends snd_conv)
    obtain y where y: "snd (add_role_grants st schemas cat rows names acc1) = acc1 @ y" using Cons.IH by blast
    show ?thesis using Inr 1 x y by (cases r) (auto simp: run_simps)
  qed simp
qed simp

lemma add_policy_grants_appends: "\<exists>x. snd (add_policy_grants st cat rows pids seen acc) = acc @ x"
proof (induction pids arbitrary: seen acc)
  case (Cons pid pids)
  show ?case
  proof (cases "pid \<in> set seen")
    case True
    then show ?thesis using Cons.IH by simp
  next
    case new: False
    show ?thesis
    proof (cases "fetch_policy st cat pid")
      case (Inr res)
      then show ?thesis using Cons.IH new by (cases res) (auto simp: Let_def, metis append.assoc)
    qed (use new in simp)
  qed
qed simp

lemma grant_step_appends: "\<exists>x. fst (snd (grant_step L st schemas cat resolved rows (base, ctx))) = base @ x"
proof -
  obtain r1 acc1 where 1: "add_role_grants st schemas cat rows (is_order st (filter (\<lambda>n. n \<notin> set resolved)
      (remdups (map gr_object_ref (grant_rows_of ''role'' rows))))) base = (r1, acc1)"
    by fastforce
  obtain r2 acc2 where 2: "add_policy_grants st cat rows
      (is_order st (remdups (map gr_object_ref (grant_rows_of ''policy'' rows)))) (map pol_id acc1) acc1 = (r2, acc2)"
    by fastforce
  obtain x where x: "acc1 = base @ x" using 1 by (metis add_role_grants_appends snd_conv)
  obtain y where y: "acc2 = acc1 @ y" using 2 by (metis add_policy_grants_appends snd_conv)
  show ?thesis
    using 1 2 x y by (auto simp: grant_step_def split: sum.splits option.splits prod.splits)
qed

text \<open>
  Resolving grants for a principal never raises and only adds policies: whatever the grant rows
  and however the grant tables fail, the policies reached through roles and custom policies are
  still there, in their order, followed by the granted ones.
\<close>

theorem grants_only_append:
  assumes "resolve_effective_policies L st principals schema catalog_id custom None collection_id ctx = (Inr base, ctx0)"
  shows "\<exists>extra ctx'. resolve_effective_policies L st principals schema catalog_id custom principal_id collection_id ctx
                        = (Inr (base @ extra), ctx')"
proof -
  obtain resolved where flat: "flat_policies st principals schema catalog_id custom = Inr (base, resolved)"
    using assms by (auto simp: resolve_effective_policies_def split: sum.splits)
  show ?thesis
  proof (cases "resolve_effective_policies L st principals schema catalog_id custom principal_id collection_id ctx = (Inr base, ctx)")
    case True
    then show ?thesis by (metis append_Nil2)
  next
    case False
    then obtain rows where "resolve_effective_policies L st principals schema catalog_id custom principal_id collection_id ctx =
        (let (_, (acc, ctx')) = grant_step L st (schemas_to_check schema) catalog_id resolved rows (base, ctx) in (Inr acc, ctx'))"
      using flat by (auto simp: resolve_effective_policies_def split: option.splits sum.splits if_splits)
    then show ?thesis
      using grant_step_appends [of L st "schemas_to_check schema" catalog_id resolved rows base ctx]
      by (auto split: prod.splits)
  qed
qed

definition mk_grant :: "string \<Rightarrow> string \<Rightarrow> string \<Rightarrow> string \<Rightarrow> grant" where
  "mk_grant i kind ref eff =
     \<lparr>gr_id = i, gr_object_kind = kind, gr_object_ref = ref, gr_effect = eff, gr_quota = JNone,
      gr_attribute_predicates = JNone\<rparr>"

lemma mk_grant_sel [simp]:
  "gr_id (mk_grant i kind ref eff) = i" "gr_object_kind (mk_grant i kind ref eff) = kind"
  "gr_object_ref (mk_grant i kind ref eff) = ref" "gr_effect (mk_grant i kind ref eff) = eff"
  "gr_quota (mk_grant i kind ref eff) = JNone"
  by (simp_all add: mk_grant_def)

theorem grants_only_append_witness:
  "\<exists>extra ctx'.
     resolve_effective_policies plain_lib
       (demo_store [''editor'' \<mapsto> [''p1'']] (\<lambda>i. if i = ''p1'' then Inr (Some (mk_pol i ALLOW 0 [''.*''] [])) else Inl RuntimeError)
          (Inr [mk_grant ''g1'' ''policy'' ''p2'' ''deny'']))
       [''editor''] ''iam'' None [] (Some ''u'') None None
     = (Inr ([mk_pol ''p1'' ALLOW 0 [''.*''] []] @ extra), ctx')"
  by (rule grants_only_append [where ctx0 = None]) (simp add: demo_simps)

text \<open>
  Grant resolution is not all-or-nothing.  The source promises to evaluate on the pre-grant set
  when grant resolution fails; the policies appended before the failure stay.  Here an allow grant
  is followed by a deny grant whose policy cannot be read: the healthy store denies the request, the
  store without grants denies it by default, and the failing store allows it.
\<close>

theorem grant_failure_keeps_partial_allow:
  "let grants = [mk_grant ''g1'' ''policy'' ''p1'' ''allow'', mk_grant ''g2'' ''policy'' ''p2'' ''deny''];
       ok = (\<lambda>i. Inr (Some (mk_pol i ALLOW 0 [''.*''] [])));
       broken = (\<lambda>i. if i = ''p2'' then Inl RuntimeError else ok i);
       decide = (\<lambda>st. fst (evaluate_access (plain_env None 0) st [] ''/x'' ''GET'' None [] (Some ''u'') None (None, 0::nat)))
   in decide (demo_store Map.empty ok (Inr grants)) = Inr (False, ''Explicit DENY by policy p2'')
      \<and> decide (demo_store Map.empty ok (Inr [])) = Inr (False, ''Deny by Default (No matching ALLOW policy found)'')
      \<and> decide (demo_store Map.empty broken (Inr grants)) = Inr (True, ''Allowed by policy p1'')"
proof -
  have deny: "applies_to plain_lib ''GET'' ''/x'' (mk_pol ''p2'' ALLOW 0 [''.*''] []\<lparr>pol_effect := DENY\<rparr>)"
    by (simp add: mk_pol_def applies_to_def method_match_def matches_resource_def plain_lib_def)
  have sel: "pol_conditions (mk_pol ''p2'' ALLOW 0 [''.*''] []\<lparr>pol_effect := DENY\<rparr>) = []"
    "pol_effect (mk_pol ''p2'' ALLOW 0 [''.*''] []\<lparr>pol_effect := DENY\<rparr>) = DENY"
    "pol_priority (mk_pol ''p2'' ALLOW 0 [''.*''] []\<lparr>pol_effect := DENY\<rparr>) = 0"
    "pol_id (mk_pol ''p2'' ALLOW 0 [''.*''] []\<lparr>pol_effect := DENY\<rparr>) = ''p2''"
    by (simp_all add: mk_pol_def)
  show ?thesis
    by (simp add: Let_def evaluate_access_def decide_access_def demo_simps plain_env_def deny sel
        evaluate_all_def better_def winner_def verdict_def)
qed

text \<open>
  A deny grant is ignored where its role is already held.  If every grant row is for a role the
  principal holds by name, the effective policies are those of the roles, whatever the effects of
  the rows: a deny grant does not turn the role's policies into denials.
\<close>

theorem deny_grant_on_held_role_ignored:
  assumes "flat_policies st principals schema catalog_id custom = Inr (base, resolved)"
    and "is_grants st = Some resolve_grants" and "is_has_iam st"
    and "resolve_grants pid schema (resolve_collection_internal_id st catalog_id collection_id) = Inr rows"
    and "\<forall>g\<in>set rows. gr_object_kind g = ''role'' \<and> gr_object_ref g \<in> set resolved"
    and "is_order st [] = []"
  shows "fst (resolve_effective_policies L st principals schema catalog_id custom (Some pid) collection_id ctx) = Inr base"
proof -
  have "grant_rows_of ''policy'' rows = []"
    using assms(5) by (auto simp: grant_rows_of_def filter_empty_conv)
  moreover have "filter (\<lambda>n. n \<notin> set resolved) (remdups (map gr_object_ref (grant_rows_of ''role'' rows))) = []"
    using assms(5) by (auto simp: grant_rows_of_def filter_empty_conv)
  ultimately show ?thesis
    using assms by (auto simp: resolve_effective_policies_def grant_step_def split: option.splits prod.splits)
qed

theorem deny_grant_on_held_role_ignored_witness:
  "fst (resolve_effective_policies plain_lib
      (demo_store [''editor'' \<mapsto> [''p1'']] (\<lambda>i. Inr (Some (mk_pol i ALLOW 0 [''.*''] [])))
        (Inr [mk_grant ''g1'' ''role'' ''editor'' ''deny'']))
      [''editor''] ''iam'' None [] (Some ''u'') None None) = Inr [mk_pol ''p1'' ALLOW 0 [''.*''] []]"
  by (rule deny_grant_on_held_role_ignored [where resolved = "[''editor'']" and
        rows = "[mk_grant ''g1'' ''role'' ''editor'' ''deny'']" and
        resolve_grants = "\<lambda>_ _ _. Inr [mk_grant ''g1'' ''role'' ''editor'' ''deny'']"])
     (simp_all add: demo_simps)

section \<open>Quotas\<close>

lemma collect_quota_loop_seen:
  "\<forall>g\<in>set rows. is_deny_grant g \<or> gr_id g \<in> set (cx_quota_seen ctx) \<Longrightarrow>
   collect_quota_loop L st rows ctx = (Inr (), ctx)"
  by (induction rows) auto

lemma map_configs_seen [simp]: "cx_quota_seen (map_configs pid conds ctx) = cx_quota_seen ctx"
  by (simp add: map_configs_def)

lemma collect_quota_loop_marks:
  "collect_quota_loop L st rows ctx = (Inr (), ctx') \<Longrightarrow>
     set (cx_quota_seen ctx) \<subseteq> set (cx_quota_seen ctx') \<and>
     (\<forall>g\<in>set rows. is_deny_grant g \<or> gr_id g \<in> set (cx_quota_seen ctx'))"
proof (induction rows arbitrary: ctx)
  case (Cons g rows)
  show ?case
  proof (cases "is_deny_grant g \<or> gr_id g \<in> set (cx_quota_seen ctx)")
    case True
    then show ?thesis using Cons.IH [of ctx] Cons.prems by (auto split: if_splits)
  next
    case False
    then show ?thesis using Cons.prems by (auto simp: Let_def split: sum.splits dest!: Cons.IH)
  qed
qed simp

text \<open>
  Collecting the quota conditions of a request's grants is idempotent: a second resolution on
  the same request context adds no condition, so no grant's counter is charged twice.
\<close>

theorem quota_collection_idempotent:
  assumes "collect_grant_quota_conditions L st rows ctx = (Inr (), ctx')"
  shows "collect_grant_quota_conditions L st rows ctx' = (Inr (), ctx')"
proof (cases "\<not> list_ex (\<lambda>g. truthy (gr_quota g)) rows \<and> is_default_rate_limit st = None \<and> is_default_quota st = None")
  case True
  then show ?thesis by (simp add: collect_grant_quota_conditions_def)
next
  case False
  then have "collect_quota_loop L st rows ctx = (Inr (), ctx')"
    using assms by (auto simp: collect_grant_quota_conditions_def)
  then have "collect_quota_loop L st rows ctx' = (Inr (), ctx')"
    using collect_quota_loop_marks collect_quota_loop_seen by blast
  then show ?thesis using False by (auto simp: collect_grant_quota_conditions_def)
qed

definition quota_grant :: "string \<Rightarrow> json \<Rightarrow> grant" where
  "quota_grant i limit =
     (mk_grant i ''role'' ''editor'' ''allow'')\<lparr>gr_quota := JObj [(''max_count'', JObj [(''limit'', limit)])]\<rparr>"

lemma quota_grant_sel [simp]:
  "gr_id (quota_grant i limit) = i" "gr_effect (quota_grant i limit) = ''allow''"
  "gr_quota (quota_grant i limit) = JObj [(''max_count'', JObj [(''limit'', limit)])]"
  by (simp_all add: quota_grant_def mk_grant_def)

lemmas quota_simps = collect_grant_quota_conditions_def quota_to_conditions_def quota_condition_def
  spec_or_default_def grant_quota_def is_deny_grant_def lower_char_def demo_store_def dget_or_def jget_def is_digit_def
  py_or_def plain_lib_def

theorem quota_collection_idempotent_witness:
  "let st = demo_store Map.empty (\<lambda>_. Inr None) (Inr []); rows = [quota_grant ''g1'' (JInt 5)];
       ctx' = snd (collect_grant_quota_conditions plain_lib st rows plain_ctx)
   in collect_grant_quota_conditions plain_lib st rows ctx' = (Inr (), ctx')"
  unfolding Let_def
  by (rule quota_collection_idempotent [where ctx = plain_ctx]) (simp add: quota_simps plain_ctx_def Let_def)

text \<open>
  A malformed quota is not skipped: a limit that is not a number aborts the collection, and
  every grant after it loses its quota.
\<close>

theorem malformed_quota_drops_rest:
  assumes "\<not> is_deny_grant g" "gr_id g \<notin> set (cx_quota_seen ctx)" "truthy (gr_quota g)"
    and "quota_to_conditions L (grant_quota st g) (is_default_rate_limit st) (is_default_quota st) (cx_fresh ctx) = Inl e"
  shows "cx_quota (snd (collect_grant_quota_conditions L st (g # gs) ctx)) = cx_quota ctx"
  using assms by (simp add: collect_grant_quota_conditions_def Let_def)

theorem malformed_quota_drops_rest_witness:
  "cx_quota (snd (collect_grant_quota_conditions plain_lib (demo_store Map.empty (\<lambda>_. Inr None) (Inr []))
      [quota_grant ''g1'' (JStr ''ten''), quota_grant ''g2'' (JInt 5)] plain_ctx)) = cx_quota plain_ctx"
  by (rule malformed_quota_drops_rest [where e = ValueError])
     (simp_all add: quota_simps plain_ctx_def)

section \<open>Inline statements\<close>

lemma statements_loop_deny_wins:
  assumes "\<And>s u. s \<in> set ss \<Longrightarrow> evaluate_all E ctx (pol_conditions s) u = (Inr (b s), u)"
  shows "statements_loop E meth path ctx ss has_allow w =
           (Inr ((has_allow \<or> (\<exists>s\<in>set ss. applies_to (en_lib E) meth path s \<and> b s \<and> pol_effect s = ALLOW)) \<and>
                 \<not> (\<exists>s\<in>set ss. applies_to (en_lib E) meth path s \<and> b s \<and> pol_effect s = DENY)), w)"
  using assms
proof (induction ss arbitrary: has_allow)
  case (Cons s ss)
  have s: "evaluate_all E ctx (pol_conditions s) w = (Inr (b s), w)" using Cons.prems by simp
  have rest: "\<And>a. statements_loop E meth path ctx ss a w =
      (Inr ((a \<or> (\<exists>s\<in>set ss. applies_to (en_lib E) meth path s \<and> b s \<and> pol_effect s = ALLOW)) \<and>
            \<not> (\<exists>s\<in>set ss. applies_to (en_lib E) meth path s \<and> b s \<and> pol_effect s = DENY)), w)"
    using Cons.IH Cons.prems by simp
  show ?case
    by (cases "pol_effect s"; cases "b s") (auto simp: s rest)
qed simp

text \<open>
  Inline statements: with conditions that return, a non-empty bundle allows exactly when some
  ALLOW statement applies and no DENY statement does, in whatever order they are listed; priorities
  play no part.  An empty bundle allows everything.
\<close>

theorem statements_deny_wins:
  assumes "\<And>s u. s \<in> set ss \<Longrightarrow> evaluate_all E ctx (pol_conditions s) u = (Inr (b s), u)"
  shows "evaluate_policy_statements E ss meth path ctx w =
           (Inr (ss = [] \<or>
                 (\<exists>s\<in>set ss. applies_to (en_lib E) meth path s \<and> b s \<and> pol_effect s = ALLOW) \<and>
                 \<not> (\<exists>s\<in>set ss. applies_to (en_lib E) meth path s \<and> b s \<and> pol_effect s = DENY)), w)"
  using statements_loop_deny_wins [of ss E ctx b meth path False w] assms
  by (auto simp: evaluate_policy_statements_def)

theorem statements_deny_wins_witness:
  "evaluate_policy_statements (plain_env None 0)
      [mk_pol ''p1'' ALLOW 9 [''.*''] [], mk_pol ''p2'' DENY 0 [''.*''] []] ''GET'' ''/x'' None (0::nat) = (Inr False, 0)"
  by (subst statements_deny_wins [where b = "\<lambda>_. True"]) (auto simp: evaluate_all_def plain_env_def)

section \<open>Writes\<close>

lemma resolve_schema_strict: "resolve_schema st cat True = Inr schema \<Longrightarrow> resolve_schema st cat False = Inr schema"
  unfolding resolve_schema_def
  by (cases "nonempty cat"; cases "is_catalogs st"; cases "is_schema_of st (the (nonempty cat))")
     (auto split: if_splits option.splits)

lemma resolve_schema_put [simp]: "resolve_schema (put_policy s q i p st) cat strict = resolve_schema st cat strict"
  by (cases "nonempty cat") (simp_all add: resolve_schema_def put_policy_def)

text \<open>
  Creating a policy.  On success the policy can be read back in its partition, the schema it was
  written to is the one its catalog resolves to, and no other row of any schema or partition has
  changed; a failing call, such as a duplicate id, changes nothing.
\<close>

theorem create_policy_roundtrip:
  assumes "create_policy E p catalog_id st = (r, st')"
    and "or_global (pol_partition_key p) = or_global catalog_id"
  shows "case r of
      Inl _ \<Rightarrow> st' = st
    | Inr p' \<Rightarrow>
        get_policy st' (pol_id p) catalog_id = Inr (Some p') \<and> get_policy st (pol_id p) catalog_id = Inr None
        \<and> (\<exists>schema. resolve_schema st catalog_id True = Inr schema \<and>
             (\<forall>s q i. (s, q, i) \<noteq> (schema, or_global catalog_id, pol_id p) \<longrightarrow> is_policy st' s q i = is_policy st s q i))"
proof (cases r)
  case (Inl e)
  then show ?thesis
    using assms(1)
    by (auto simp: create_policy_def storage_put_def run_simps Let_def or_global_def nonempty_def
        split: sum.splits if_splits option.splits)
next
  case (Inr p')
  obtain schema where schema: "resolve_schema st catalog_id True = Inr schema"
    using assms(1) Inr by (auto simp: create_policy_def run_simps split: sum.splits)
  have og: "or_global (Some (or_global catalog_id)) = or_global catalog_id"
    by (auto simp: or_global_def nonempty_def split: option.splits)
  have none: "is_policy st schema (or_global catalog_id) (pol_id p) = Inr None"
    and st': "st' = put_policy schema (or_global catalog_id) (pol_id p) (Some p') st"
    using assms Inr schema og
    by (auto simp: create_policy_def storage_put_def run_simps Let_def split: sum.splits if_splits)
  show ?thesis
    using Inr schema none st' resolve_schema_strict [OF schema]
    by (auto simp: get_policy_def) (auto simp: put_policy_def)
qed

theorem create_policy_roundtrip_witness:
  "let st = demo_store Map.empty (\<lambda>_. Inr None) (Inr []); p = mk_pol ''p1'' ALLOW 0 [''.*''] [ttl_cond];
       (r, st') = create_policy (plain_env None 0 :: nat cond_env) p None st
   in r = Inr p \<and> get_policy st' ''p1'' None = Inr (Some p)"
proof -
  let ?st = "demo_store Map.empty (\<lambda>_. Inr None) (Inr [])" and ?p = "mk_pol ''p1'' ALLOW 0 [''.*''] [ttl_cond]"
  let ?st' = "put_policy ''iam'' ''global'' ''p1'' (Some ?p) ?st"
  have "create_policy (plain_env None 0 :: nat cond_env) ?p None ?st = (Inr ?p, ?st')"
    by (simp add: create_policy_def storage_put_def run_simps Let_def mk_pol_def or_global_def nonempty_def
        validate_policy_condition_types_def known_types_def builtin_types_def plain_env_def ttl_cond_def
        resolve_schema_def demo_store_def)
  then show ?thesis
    using create_policy_roundtrip [of "plain_env None 0 :: nat cond_env" ?p None ?st "Inr ?p" ?st']
    by (simp add: mk_pol_def or_global_def nonempty_def)
qed

text \<open>
  Deleting a policy from one partition deletes the usage counters of every policy with that id
  in the schema: a policy of the same id in another partition stays and its counters restart from
  zero.
\<close>

theorem delete_resets_other_partition:
  assumes "delete_policy pid catalog_id st = (Inr b, st')" and "resolve_schema st catalog_id True = Inr schema"
    and "part \<noteq> or_global catalog_id"
  shows "is_policy st' schema part pid = is_policy st schema part pid \<and> is_counter_rows st' schema pid = []"
  using assms
  by (auto simp: delete_policy_def storage_delete_def run_simps put_policy_def split: sum.splits)

theorem delete_resets_other_partition_witness:
  "let st = (demo_store Map.empty (\<lambda>i. Inr (Some (mk_pol i ALLOW 0 [''.*''] []))) (Inr []))
              \<lparr>is_counter_rows := (\<lambda>_ _. [(''u'', 5)])\<rparr>;
       st' = snd (delete_policy ''p1'' None st)
   in is_counter_rows st ''iam'' ''p1'' = [(''u'', 5)] \<and>
      is_policy st' ''iam'' ''other'' ''p1'' = is_policy st ''iam'' ''other'' ''p1'' \<and> is_counter_rows st' ''iam'' ''p1'' = []"
proof -
  let ?st = "(demo_store Map.empty (\<lambda>i. Inr (Some (mk_pol i ALLOW 0 [''.*''] []))) (Inr []))
               \<lparr>is_counter_rows := (\<lambda>_ _. [(''u'', 5)])\<rparr>"
  have schema: "resolve_schema ?st None True = Inr ''iam''" by (simp add: resolve_schema_def nonempty_def)
  have "fst (delete_policy ''p1'' None ?st) = Inr True"
    by (simp add: delete_policy_def storage_delete_def run_simps schema) (simp add: demo_store_def)
  then have "delete_policy ''p1'' None ?st = (Inr True, snd (delete_policy ''p1'' None ?st))"
    by (metis prod.collapse)
  from delete_resets_other_partition [OF this schema, of "''other''"] show ?thesis
    by (simp add: or_global_def nonempty_def)
qed

end
