(* ===== verification/Read_Filter.thy ===== *)
theory Read_Filter
  imports Policy_Engine Attribute_Predicates
begin

text \<open>
  The projection of a principal's policies onto a document filter: \<open>compile_read_filter\<close> of
  \<open>modules/iam/policies.py\<close> with its helpers.  Conditions are compiled to one of four outcomes; ALLOW
  policies become clauses of the filter, DENY policies negated clauses.  The central theorem is the
  safety contract of the source: the filter is equal to or stricter than \<open>evaluate_access\<close>.
\<close>

section \<open>Relevance\<close>

definition read_actions :: "string list" where
  "read_actions = [''GET'', ''SEARCH'', ''READ'']"

definition policy_has_read_action :: "pylib \<Rightarrow> policy \<Rightarrow> bool \<Rightarrow> bool" where
  "policy_has_read_action L pol is_deny \<longleftrightarrow>
     pol_actions pol = [] \<or>
     list_ex (matches_action L pol) (if is_deny then read_actions @ [''POST''] else read_actions)"

definition read_scope_probe_paths :: "string option \<Rightarrow> string option \<Rightarrow> string option \<Rightarrow> string list" where
  "read_scope_probe_paths catalog_id collection_id asset_id =
     (case catalog_id of
        None \<Rightarrow> [''/'']
      | Some cat \<Rightarrow>
          (case nonempty collection_id of
             Some col \<Rightarrow>
               [''/stac/catalogs/'' @ cat @ ''/collections/'' @ col @ ''/items'',
                ''/stac/catalogs/'' @ cat @ ''/collections/'' @ col @ ''/items/_probe_'',
                ''/features/catalogs/'' @ cat @ ''/collections/'' @ col @ ''/items'',
                ''/search/catalogs/'' @ cat @ ''/geoid-search'',
                ''/stac/catalogs/'' @ cat @ ''/search'']
               @ (case nonempty asset_id of
                    None \<Rightarrow> []
                  | Some a \<Rightarrow> [''/assets/catalogs/'' @ cat @ ''/collections/'' @ col @ ''/assets/'' @ a,
                              ''/assets/catalogs/'' @ cat @ ''/collections/'' @ col])
           | None \<Rightarrow>
               [''/stac/catalogs/'' @ cat,
                ''/stac/catalogs/'' @ cat @ ''/collections'',
                ''/stac/catalogs/'' @ cat @ ''/collections/_probe_/items'',
                ''/stac/catalogs/'' @ cat @ ''/collections/_probe_/items/_probe_'',
                ''/features/catalogs/'' @ cat,
                ''/features/catalogs/'' @ cat @ ''/collections/_probe_/items'',
                ''/search/catalogs/'' @ cat @ ''/geoid-search'',
                ''/stac/catalogs/'' @ cat @ ''/search'']
               @ (case nonempty asset_id of
                    None \<Rightarrow> []
                  | Some a \<Rightarrow> [''/assets/catalogs/'' @ cat @ ''/assets/'' @ a, ''/assets/catalogs/'' @ cat])))"

definition policy_matches_read_scope :: "pylib \<Rightarrow> policy \<Rightarrow> string list \<Rightarrow> bool" where
  "policy_matches_read_scope L pol probe_paths = list_ex (matches_resource L pol) probe_paths"

section \<open>Conditions\<close>

datatype outcome = SATISFIED | UNSATISFIABLE | PREDICATES | UNCOMPILABLE

datatype cond_result = CondResult (cr_outcome: outcome) (cr_predicates: "predicate list")

definition predicate_result :: "predicate list \<Rightarrow> cond_result" where
  "predicate_result preds = (if preds \<noteq> [] then CondResult PREDICATES preds else CondResult SATISFIED [])"

text \<open>The loop of \<open>_compile_conditions\<close>, an implicit conjunction.\<close>

fun conj_loop :: "('c \<Rightarrow> py_exn + cond_result) \<Rightarrow> 'c list \<Rightarrow> predicate list \<Rightarrow> bool \<Rightarrow> py_exn + cond_result" where
  "conj_loop f [] preds saw_uncompilable =
     Inr (if saw_uncompilable then CondResult UNCOMPILABLE [] else predicate_result preds)"
| "conj_loop f (c # cs) preds saw_uncompilable =
     (case f c of
        Inl e \<Rightarrow> Inl e
      | Inr r \<Rightarrow>
          (case cr_outcome r of
             UNSATISFIABLE \<Rightarrow> Inr (CondResult UNSATISFIABLE [])
           | UNCOMPILABLE \<Rightarrow> conj_loop f cs preds True
           | PREDICATES \<Rightarrow> conj_loop f cs (preds @ cr_predicates r) saw_uncompilable
           | SATISFIED \<Rightarrow> conj_loop f cs preds saw_uncompilable))"

text \<open>\<open>tuple(dict.fromkeys(values))\<close>: duplicates dropped, first occurrences kept in order.\<close>

definition dict_fromkeys :: "'a list \<Rightarrow> 'a list" where
  "dict_fromkeys xs = rev (remdups (rev xs))"

lemma set_dict_fromkeys [simp]: "set (dict_fromkeys xs) = set xs"
  by (simp add: dict_fromkeys_def)

text \<open>The loop of \<open>_compile_or\<close>.\<close>

fun disj_loop ::
  "('c \<Rightarrow> py_exn + cond_result) \<Rightarrow> 'c list \<Rightarrow> string option \<Rightarrow> string list \<Rightarrow> bool \<Rightarrow> bool \<Rightarrow> py_exn + cond_result" where
  "disj_loop f [] field_name vals saw_uncompilable saw_predicate =
     Inr (if saw_uncompilable then CondResult UNCOMPILABLE []
          else if \<not> saw_predicate then CondResult UNSATISFIABLE []
          else CondResult PREDICATES [FieldPredicate (the field_name) (dict_fromkeys vals)])"
| "disj_loop f (c # cs) field_name vals saw_uncompilable saw_predicate =
     (case f c of
        Inl e \<Rightarrow> Inl e
      | Inr r \<Rightarrow>
          (case cr_outcome r of
             SATISFIED \<Rightarrow> Inr (CondResult SATISFIED [])
           | UNSATISFIABLE \<Rightarrow> disj_loop f cs field_name vals saw_uncompilable saw_predicate
           | UNCOMPILABLE \<Rightarrow> disj_loop f cs field_name vals True saw_predicate
           | PREDICATES \<Rightarrow>
               (case cr_predicates r of
                  [FieldPredicate fld vs] \<Rightarrow>
                    if field_name = None \<or> field_name = Some fld
                    then disj_loop f cs (Some fld) (vals @ vs) saw_uncompilable True
                    else disj_loop f cs field_name vals True saw_predicate
                | _ \<Rightarrow> disj_loop f cs field_name vals True saw_predicate)))"

lemma conj_loop_cong [fundef_cong]:
  "xs = ys \<Longrightarrow> p = q \<Longrightarrow> u = v \<Longrightarrow> (\<And>x. x \<in> set ys \<Longrightarrow> f x = g x) \<Longrightarrow> conj_loop f xs p u = conj_loop g ys q v"
proof (induction xs arbitrary: ys p q u v)
  case (Cons x xs)
  have "f x = g x" "\<And>p u. conj_loop f xs p u = conj_loop g xs p u"
    using Cons.prems Cons.IH by auto
  then show ?case using Cons.prems by (auto split: sum.splits outcome.splits)
qed auto

lemma disj_loop_cong [fundef_cong]:
  "xs = ys \<Longrightarrow> n = m \<Longrightarrow> a = b \<Longrightarrow> u = v \<Longrightarrow> s = t \<Longrightarrow> (\<And>x. x \<in> set ys \<Longrightarrow> f x = g x) \<Longrightarrow>
   disj_loop f xs n a u s = disj_loop g ys m b v t"
proof (induction xs arbitrary: ys n m a b u v s t)
  case (Cons x xs)
  have "f x = g x" "\<And>n a u s. disj_loop f xs n a u s = disj_loop g xs n a u s"
    using Cons.prems Cons.IH by auto
  then show ?case using Cons.prems by (auto split: sum.splits outcome.splits list.splits predicate.splits)
qed auto

text \<open>\<open>_match_compare\<close> and \<open>_compile_attribute_match\<close>.\<close>

definition match_compare :: "pylib \<Rightarrow> json \<Rightarrow> json \<Rightarrow> json \<Rightarrow> py_exn + bool" where
  "match_compare L actual operator expected =
     (if operator = JStr ''eq'' then Inr (lib_str L actual = lib_str L expected)
      else if operator = JStr ''neq'' then Inr (lib_str L actual \<noteq> lib_str L expected)
      else if operator = JStr ''contains'' then Inr (sublist (lib_str L expected) (lib_str L actual))
      else if operator = JStr ''regex'' then
        (case re_match L (lib_str L expected) (lib_str L actual) of None \<Rightarrow> Inl ReError | Some b \<Rightarrow> Inr b)
      else if operator = JStr ''gt'' then
        Inr (case (lib_float L actual, lib_float L expected) of (Some a, Some e) \<Rightarrow> flt e a | _ \<Rightarrow> False)
      else if operator = JStr ''lt'' then
        Inr (case (lib_float L actual, lib_float L expected) of (Some a, Some e) \<Rightarrow> flt a e | _ \<Rightarrow> False)
      else if operator = JStr ''in'' then
        Inr (case expected of
               JList xs \<Rightarrow> json_in actual xs
             | _ \<Rightarrow> json_in actual (map JStr (split_on CHR '','' (lib_str L expected))))
      else Inr False)"

definition compile_attribute_match :: "pylib \<Rightarrow> dict \<Rightarrow> dict \<Rightarrow> py_exn + cond_result" where
  "compile_attribute_match L config attributes =
     (let attr_path = jget config ''attribute'' in
      if \<not> truthy attr_path then Inr (CondResult SATISFIED [])
      else (case attr_path of
              JScalar (SStr path) \<Rightarrow>
                if \<not> prefix ''principal.attributes.'' path then Inr (CondResult UNCOMPILABLE [])
                else (let actual = jget attributes (drop 21 path) in
                      if actual = JNone then Inr (CondResult UNSATISFIABLE [])
                      else bind_e (match_compare L actual (jget_or config ''operator'' (JStr ''eq'')) (jget config ''value''))
                             (\<lambda>b. Inr (CondResult (if b then SATISFIED else UNSATISFIABLE) [])))
            | _ \<Rightarrow> Inr (CondResult UNCOMPILABLE [])))"

text \<open>\<open>config.get("conditions") or []\<close>, iterated.\<close>

definition nested_cfgs :: "dict \<Rightarrow> py_exn + json list" where
  "nested_cfgs config = py_iter (py_or (jget config ''conditions'') (JList []))"

lemma nested_cfgs_size:
  assumes "nested_cfgs d = Inr xs" "x \<in> set xs" "cond_of_json x = Inr c"
  shows "size (JObj (cconfig c)) < size (JObj d)"
proof -
  have "truthy (jget d ''conditions'')"
    using assms(1,2) by (auto simp: nested_cfgs_def py_or_def py_iter_def split: if_splits)
  moreover from this have "dget d ''conditions'' \<noteq> None"
    by (auto simp: jget_def split: option.splits)
  ultimately have "py_iter (jget_or d ''conditions'' (JList [])) = Inr xs"
    using assms(1) by (auto simp: nested_cfgs_def py_or_def jget_def dget_or_def)
  then show ?thesis using nested_size assms(2,3) by blast
qed

function compile_condition :: "pylib \<Rightarrow> dict \<Rightarrow> condition \<Rightarrow> py_exn + cond_result" where
  "compile_condition L attributes cond =
     (if ctype cond = ''catalog_lookup_public_allowed'' then
        Inr (CondResult PREDICATES [FieldPredicate ''visibility'' [''public'']])
      else if ctype cond = ''match'' then compile_attribute_match L (cconfig cond) attributes
      else if ctype cond = ''and'' then
        (case nested_cfgs (cconfig cond) of
           Inl e \<Rightarrow> Inl e
         | Inr xs \<Rightarrow>
             (case map_e cond_of_json xs of
                Inl e \<Rightarrow> Inl e
              | Inr children \<Rightarrow>
                  conj_loop (\<lambda>j. case cond_of_json j of Inl e \<Rightarrow> Inl e | Inr c \<Rightarrow> compile_condition L attributes c) xs [] False))
      else if ctype cond = ''or'' then
        (case nested_cfgs (cconfig cond) of
           Inl e \<Rightarrow> Inl e
         | Inr xs \<Rightarrow>
             if xs = [] then Inr (CondResult SATISFIED [])
             else disj_loop (\<lambda>j. case cond_of_json j of Inl e \<Rightarrow> Inl e | Inr c \<Rightarrow> compile_condition L attributes c)
                    xs None [] False False)
      else Inr (CondResult UNCOMPILABLE []))"
  by pat_completeness auto

termination
  by (relation "measure (\<lambda>(L, a, c). size (JObj (cconfig c)))") (auto dest: nested_cfgs_size simp del: json.size)

declare compile_condition.simps [simp del]

definition compile_conditions :: "pylib \<Rightarrow> condition list \<Rightarrow> dict \<Rightarrow> py_exn + cond_result" where
  "compile_conditions L conditions attributes = conj_loop (compile_condition L attributes) conditions [] False"

section \<open>Clauses\<close>

definition scope_predicates :: "string option \<Rightarrow> string option \<Rightarrow> predicate list" where
  "scope_predicates catalog_id collection_id =
     (case catalog_id of None \<Rightarrow> [] | Some c \<Rightarrow> [FieldPredicate ''catalog_id'' [c]]) @
     (case collection_id of None \<Rightarrow> [] | Some c \<Rightarrow> [FieldPredicate ''collection_id'' [c]])"

definition scope_clause :: "predicate list \<Rightarrow> string option \<Rightarrow> string option \<Rightarrow> clause" where
  "scope_clause preds catalog_id collection_id = AccessClause (scope_predicates catalog_id collection_id @ preds)"

text \<open>\<open>AttributePredicate(**p)\<close>, and the clauses of the grants that carry attribute predicates.\<close>

definition attr_pred_of_json :: "dict \<Rightarrow> py_exn + attribute_predicate" where
  "attr_pred_of_json kvs =
     (case (dget kvs ''key'', dget kvs ''op'') of
        (Some (JScalar (SStr k)), Some (JScalar (SStr opr))) \<Rightarrow>
          bind_e (case dget kvs ''values'' of None \<Rightarrow> Inr [] | Some v \<Rightarrow> json_str_list v) (\<lambda>vs.
            mk_attribute_predicate k opr vs)
      | _ \<Rightarrow> Inl ValueError)"

definition is_obj :: "json \<Rightarrow> bool" where
  "is_obj j = (case j of JObj _ \<Rightarrow> True | _ \<Rightarrow> False)"

definition raw_predicates :: "iam_store \<Rightarrow> grant \<Rightarrow> json list" where
  "raw_predicates st row =
     (let raw = gr_attribute_predicates row;
          j = (case raw of
                 JScalar (SStr s) \<Rightarrow> (case is_json_loads st s of None \<Rightarrow> JList [] | Some j \<Rightarrow> j)
               | _ \<Rightarrow> raw)
      in if \<not> truthy raw then [] else (case j of JList xs \<Rightarrow> xs | _ \<Rightarrow> []))"

fun attribute_clauses_loop ::
  "(string \<times> compiler) list \<Rightarrow> iam_store \<Rightarrow> string option \<Rightarrow> string option \<Rightarrow> grant list \<Rightarrow> clause list \<Rightarrow> bool \<Rightarrow>
   clause list \<times> bool" where
  "attribute_clauses_loop reg st cat col [] clauses unc = (clauses, unc)"
| "attribute_clauses_loop reg st cat col (row # rows) clauses unc =
     (let xs = raw_predicates st row in
      if xs = [] then attribute_clauses_loop reg st cat col rows clauses unc
      else (case map_e (\<lambda>j. case j of JObj kvs \<Rightarrow> attr_pred_of_json kvs | _ \<Rightarrow> Inl TypeError) (filter is_obj xs) of
              Inl _ \<Rightarrow> attribute_clauses_loop reg st cat col rows clauses True
            | Inr preds \<Rightarrow>
                (case compile_attribute_predicates reg preds of
                   (field_preds, True) \<Rightarrow> attribute_clauses_loop reg st cat col rows clauses True
                 | (field_preds, False) \<Rightarrow>
                     attribute_clauses_loop reg st cat col rows (clauses @ [scope_clause field_preds cat col]) unc)))"

definition compile_grant_attribute_clauses ::
  "(string \<times> compiler) list \<Rightarrow> iam_store \<Rightarrow> string option \<Rightarrow> string \<Rightarrow> string option \<Rightarrow> string option \<Rightarrow>
   clause list \<times> bool" where
  "compile_grant_attribute_clauses reg st principal_id schema catalog_id collection_id =
     (case (principal_id, is_grants st) of
        (Some pid, Some resolve_grants) \<Rightarrow>
          if \<not> is_has_iam st then ([], False)
          else (case resolve_grants pid schema collection_id of
                  Inl _ \<Rightarrow> ([], False)
                | Inr rows \<Rightarrow> attribute_clauses_loop reg st catalog_id collection_id rows [] False)
      | _ \<Rightarrow> ([], False))"

section \<open>The filter\<close>

datatype scan = Stop access_filter | Go "clause list" "clause list" bool bool

text \<open>The loop over the effective policies: allow clauses, deny clauses, \<open>uncompilable\<close>, \<open>allow_all\<close>.\<close>

fun policy_scan ::
  "pylib \<Rightarrow> dict \<Rightarrow> string list \<Rightarrow> string option \<Rightarrow> string option \<Rightarrow> policy list \<Rightarrow>
   clause list \<Rightarrow> clause list \<Rightarrow> bool \<Rightarrow> bool \<Rightarrow> py_exn + scan" where
  "policy_scan L attrs paths cat col [] al de unc aa = Inr (Go al de unc aa)"
| "policy_scan L attrs paths cat col (pol # pols) al de unc aa =
     (if \<not> policy_has_read_action L pol (pol_effect pol = DENY) \<or> \<not> policy_matches_read_scope L pol paths
      then policy_scan L attrs paths cat col pols al de unc aa
      else (case compile_conditions L (pol_conditions pol) attrs of
              Inl e \<Rightarrow> Inl e
            | Inr r \<Rightarrow>
                if pol_effect pol = DENY then
                  (case cr_outcome r of
                     UNCOMPILABLE \<Rightarrow> Inr (Stop (deny_everything True))
                   | UNSATISFIABLE \<Rightarrow> policy_scan L attrs paths cat col pols al de unc aa
                   | _ \<Rightarrow> policy_scan L attrs paths cat col pols al (de @ [scope_clause (cr_predicates r) cat col]) unc aa)
                else
                  (case cr_outcome r of
                     UNCOMPILABLE \<Rightarrow> policy_scan L attrs paths cat col pols al de True aa
                   | UNSATISFIABLE \<Rightarrow> policy_scan L attrs paths cat col pols al de unc aa
                   | _ \<Rightarrow>
                       if cr_predicates r = [] \<and> scope_predicates cat col = []
                       then policy_scan L attrs paths cat col pols al de unc True
                       else policy_scan L attrs paths cat col pols (al @ [scope_clause (cr_predicates r) cat col]) de unc aa)))"

definition scan_filter :: "clause list \<times> bool \<Rightarrow> scan \<Rightarrow> access_filter" where
  "scan_filter attr s =
     (case s of
        Stop f \<Rightarrow> f
      | Go al de unc aa \<Rightarrow>
          (let al' = al @ fst attr; unc' = (unc \<or> snd attr) in
           if aa then AccessFilter False True [] de unc' []
           else if al' = [] then deny_everything unc'
           else from_clauses al' de unc'))"

definition compile_read_filter ::
  "pylib \<Rightarrow> (string \<times> compiler) list \<Rightarrow> iam_store \<Rightarrow> string list \<Rightarrow> string option \<Rightarrow> string option \<Rightarrow>
   string option \<Rightarrow> principal option \<Rightarrow> string option \<Rightarrow> py_exn + access_filter" where
  "compile_read_filter L reg st principals catalog_id collection_id asset_id pr principal_id =
     bind_e (resolve_schema st catalog_id False) (\<lambda>schema.
     bind_e (fst (resolve_effective_policies L st principals schema catalog_id
                    (case pr of None \<Rightarrow> [] | Some p \<Rightarrow> pr_custom_policies p) principal_id collection_id None)) (\<lambda>pols.
     bind_e (policy_scan L (case pr of None \<Rightarrow> [] | Some p \<Rightarrow> pr_attributes p)
               (read_scope_probe_paths catalog_id collection_id asset_id) catalog_id collection_id pols [] [] False False) (\<lambda>s.
       Inr (scan_filter (compile_grant_attribute_clauses reg st principal_id schema catalog_id collection_id) s))))"

section \<open>Compiled conditions agree with the engine\<close>

text \<open>
  What an outcome promises about the run-time result \<open>b\<close> of the same condition, for one document: the
  predicates are field predicates and, when they are all that is left, they decide.
\<close>

definition is_field :: "predicate \<Rightarrow> bool" where
  "is_field p \<longleftrightarrow> (\<exists>f vs. p = FieldPredicate f vs)"

definition all_hold :: "pylib \<Rightarrow> doc \<Rightarrow> predicate list \<Rightarrow> bool" where
  "all_hold L d ps \<longleftrightarrow> (\<forall>p\<in>set ps. pred_matches L p d = Some True)"

lemma all_hold_simps [simp]:
  "all_hold L d []" "all_hold L d (ps @ qs) \<longleftrightarrow> all_hold L d ps \<and> all_hold L d qs"
  "all_hold L d [FieldPredicate f vs] \<longleftrightarrow> field_matches f vs d"
  by (auto simp: all_hold_def)

definition shaped :: "cond_result \<Rightarrow> bool" where
  "shaped r \<longleftrightarrow> list_all is_field (cr_predicates r) \<and> (cr_outcome r = SATISFIED \<longrightarrow> cr_predicates r = [])"

definition sound :: "pylib \<Rightarrow> doc \<Rightarrow> cond_result \<Rightarrow> bool \<Rightarrow> bool" where
  "sound L d r b \<longleftrightarrow>
     (case cr_outcome r of
        SATISFIED \<Rightarrow> b
      | UNSATISFIABLE \<Rightarrow> \<not> b
      | PREDICATES \<Rightarrow> b = all_hold L d (cr_predicates r)
      | UNCOMPILABLE \<Rightarrow> True)"

lemma conj_loop_shape:
  assumes "conj_loop f cs ps u = Inr r" and "\<And>c rc. c \<in> set cs \<Longrightarrow> f c = Inr rc \<Longrightarrow> shaped rc"
    and "list_all is_field ps"
  shows "shaped r \<and> (cr_outcome r \<in> {SATISFIED, PREDICATES} \<longrightarrow> (\<exists>qs. cr_predicates r = ps @ qs))"
  using assms
proof (induction cs arbitrary: ps u)
  case Nil
  then show ?case by (auto simp: shaped_def predicate_result_def split: if_splits)
next
  case (Cons c cs)
  obtain rc where rc: "f c = Inr rc" using Cons.prems(1) by (cases "f c") auto
  have sh: "list_all is_field (cr_predicates rc)" using Cons.prems(2) [of c rc] rc by (simp add: shaped_def)
  have fs: "list_all is_field (ps @ cr_predicates rc)" using sh Cons.prems(3) by simp
  have rest: "\<And>c rc. c \<in> set cs \<Longrightarrow> f c = Inr rc \<Longrightarrow> shaped rc" by (rule Cons.prems(2)) auto
  show ?case
  proof (cases "cr_outcome rc")
    case PREDICATES
    then have "conj_loop f cs (ps @ cr_predicates rc) u = Inr r" using Cons.prems(1) rc by simp
    then have "shaped r \<and> (cr_outcome r \<in> {SATISFIED, PREDICATES} \<longrightarrow> (\<exists>qs. cr_predicates r = (ps @ cr_predicates rc) @ qs))"
      using rest fs by (rule Cons.IH)
    then show ?thesis by auto
  next
    case SATISFIED
    then have "conj_loop f cs ps u = Inr r" using Cons.prems(1) rc by simp
    then show ?thesis using rest Cons.prems(3) by (rule Cons.IH)
  next
    case UNCOMPILABLE
    then have "conj_loop f cs ps True = Inr r" using Cons.prems(1) rc by simp
    then show ?thesis using rest Cons.prems(3) by (rule Cons.IH)
  next
    case UNSATISFIABLE
    then show ?thesis using Cons.prems(1) rc by (auto simp: shaped_def)
  qed
qed

lemma conj_loop_unc: "conj_loop f cs ps True = Inr r \<Longrightarrow> cr_outcome r \<in> {UNCOMPILABLE, UNSATISFIABLE}"
  by (induction cs arbitrary: ps) (auto split: sum.splits outcome.splits)

lemma conj_loop_sound:
  assumes "conj_loop f cs ps u = Inr r" and "all_r g cs w = (Inr b, w')"
    and "\<And>c rc. c \<in> set cs \<Longrightarrow> f c = Inr rc \<Longrightarrow> shaped rc"
    and "\<And>c rc v x v'. c \<in> set cs \<Longrightarrow> f c = Inr rc \<Longrightarrow> g c v = (Inr x, v') \<Longrightarrow> sound L d rc x"
    and "list_all is_field ps"
  shows "(cr_outcome r = UNSATISFIABLE \<longrightarrow> \<not> b) \<and>
         (cr_outcome r \<in> {SATISFIED, PREDICATES} \<longrightarrow> all_hold L d (cr_predicates r) = (all_hold L d ps \<and> b))"
  using assms
proof (induction cs arbitrary: ps u w)
  case Nil
  then show ?case by (auto simp: predicate_result_def split: if_splits)
next
  case (Cons c cs)
  obtain rc where rc: "f c = Inr rc" using Cons.prems(1) by (cases "f c") auto
  obtain x v where x: "g c w = (Inr x, v)" using Cons.prems(2) by (auto split: prod.splits sum.splits)
  have snd: "sound L d rc x" using Cons.prems(4) [of c rc w x v] rc x by simp
  have shp: "\<And>c rc. c \<in> set cs \<Longrightarrow> f c = Inr rc \<Longrightarrow> shaped rc" by (rule Cons.prems(3)) auto
  have sou: "\<And>c rc v x v'. c \<in> set cs \<Longrightarrow> f c = Inr rc \<Longrightarrow> g c v = (Inr x, v') \<Longrightarrow> sound L d rc x"
    by (rule Cons.prems(4)) auto
  have fld: "list_all is_field (ps @ cr_predicates rc)" using Cons.prems(3) [of c rc] Cons.prems(5) rc by (simp add: shaped_def)
  show ?case
  proof (cases x)
    case True
    then have "all_r g cs v = (Inr b, w')" using Cons.prems(2) x by simp
    show ?thesis
    proof (cases "cr_outcome rc")
      case PREDICATES
      have "conj_loop f cs (ps @ cr_predicates rc) u = Inr r" using Cons.prems(1) rc PREDICATES by simp
      then have "(cr_outcome r = UNSATISFIABLE \<longrightarrow> \<not> b) \<and> (cr_outcome r \<in> {SATISFIED, PREDICATES} \<longrightarrow>
          all_hold L d (cr_predicates r) = (all_hold L d (ps @ cr_predicates rc) \<and> b))"
        using \<open>all_r g cs v = (Inr b, w')\<close> shp sou fld by (rule Cons.IH)
      then show ?thesis using snd True PREDICATES by (auto simp: sound_def)
    next
      case SATISFIED
      then have "conj_loop f cs ps u = Inr r" using Cons.prems(1) rc by simp
      then show ?thesis using \<open>all_r g cs v = (Inr b, w')\<close> shp sou Cons.prems(5) by (rule Cons.IH)
    next
      case UNCOMPILABLE
      then have "conj_loop f cs ps True = Inr r" using Cons.prems(1) rc by simp
      then show ?thesis using \<open>all_r g cs v = (Inr b, w')\<close> shp sou Cons.prems(5) by (rule Cons.IH)
    next
      case UNSATISFIABLE
      then show ?thesis using snd True by (simp add: sound_def)
    qed
  next
    case False
    then have b: "\<not> b" using Cons.prems(2) x by simp
    show ?thesis
    proof (cases "cr_outcome rc")
      case PREDICATES
      have "conj_loop f cs (ps @ cr_predicates rc) u = Inr r" using Cons.prems(1) rc PREDICATES by simp
      then have "shaped r \<and> (cr_outcome r \<in> {SATISFIED, PREDICATES} \<longrightarrow> (\<exists>qs. cr_predicates r = (ps @ cr_predicates rc) @ qs))"
        using shp fld by (rule conj_loop_shape)
      moreover have "cr_outcome r \<noteq> UNSATISFIABLE \<or> \<not> b" using b by simp
      ultimately show ?thesis using snd False PREDICATES b by (auto simp: sound_def)
    next
      case SATISFIED
      then show ?thesis using snd False by (simp add: sound_def)
    next
      case UNCOMPILABLE
      then have "conj_loop f cs ps True = Inr r" using Cons.prems(1) rc by simp
      then have "cr_outcome r \<in> {UNCOMPILABLE, UNSATISFIABLE}" by (rule conj_loop_unc)
      then show ?thesis using b by auto
    next
      case UNSATISFIABLE
      then show ?thesis using Cons.prems(1) rc b by auto
    qed
  qed
qed

lemma field_matches_ex: "field_matches f vs d \<longleftrightarrow> (\<exists>v\<in>set vs. field_matches f [v] d)"
  by (auto simp: field_matches_def list_ex_iff scalar_in_iff split: dval.splits)

definition or_state :: "string option \<Rightarrow> string list \<Rightarrow> bool \<Rightarrow> bool" where
  "or_state fld vals sp \<longleftrightarrow> (sp \<longleftrightarrow> fld \<noteq> None) \<and> (fld = None \<longrightarrow> vals = [])"

lemma or_state_simps [simp]: "or_state None [] False" "or_state (Some f) vals True"
  by (simp_all add: or_state_def)

lemma disj_loop_ConsE:
  assumes "disj_loop f (c # cs) fld vals u sp = Inr r"
  obtains
    (sat) rc where "f c = Inr rc" "cr_outcome rc = SATISFIED" "r = CondResult SATISFIED []"
  | (unsat) rc where "f c = Inr rc" "cr_outcome rc = UNSATISFIABLE" "disj_loop f cs fld vals u sp = Inr r"
  | (pred) rc G vs where "f c = Inr rc" "cr_outcome rc = PREDICATES" "cr_predicates rc = [FieldPredicate G vs]"
      "fld = None \<or> fld = Some G" "disj_loop f cs (Some G) (vals @ vs) u True = Inr r"
  | (unc) rc where "f c = Inr rc" "disj_loop f cs fld vals True sp = Inr r"
proof (cases "f c")
  case (Inl e)
  then show ?thesis using assms by simp
next
  case (Inr rc)
  show ?thesis
  proof (cases "cr_outcome rc")
    case PREDICATES
    then show ?thesis
      using assms Inr that(3,4)
      by (auto split: list.splits predicate.splits if_splits)
  qed (use assms Inr that in auto)
qed

lemma disj_loop_shape:
  "disj_loop f cs fld vals u sp = Inr r \<Longrightarrow> or_state fld vals sp \<Longrightarrow>
     shaped r \<and> (u \<longrightarrow> cr_outcome r \<in> {UNCOMPILABLE, SATISFIED}) \<and> (sp \<longrightarrow> cr_outcome r \<noteq> UNSATISFIABLE) \<and>
     (cr_outcome r = PREDICATES \<longrightarrow>
        (\<exists>F vs. cr_predicates r = [FieldPredicate F vs] \<and> set vals \<subseteq> set vs \<and> (\<forall>G. fld = Some G \<longrightarrow> G = F)))"
proof (induction cs arbitrary: fld vals u sp)
  case Nil
  then show ?case by (auto simp: shaped_def is_field_def or_state_def split: if_splits)
next
  case (Cons c cs)
  from Cons.prems(1) show ?case
  proof (cases rule: disj_loop_ConsE)
    case (pred rc G vs)
    then show ?thesis using Cons.IH [OF pred(5)] by auto
  next
    case (unc rc)
    then show ?thesis using Cons.IH [OF unc(2) Cons.prems(2)] by auto
  next
    case (unsat rc)
    then show ?thesis using Cons.IH [OF unsat(3) Cons.prems(2)] by auto
  qed (simp add: shaped_def)
qed

lemma disj_loop_sound:
  assumes "disj_loop f cs fld vals u sp = Inr r" and "any_r g cs w = (Inr b, w')" and "or_state fld vals sp"
    and "\<And>c rc v x v'. c \<in> set cs \<Longrightarrow> f c = Inr rc \<Longrightarrow> g c v = (Inr x, v') \<Longrightarrow> sound L d rc x"
  shows "(cr_outcome r = SATISFIED \<longrightarrow> b) \<and> (cr_outcome r = UNSATISFIABLE \<longrightarrow> \<not> b) \<and>
         (\<forall>F vs. cr_predicates r = [FieldPredicate F vs] \<longrightarrow> cr_outcome r = PREDICATES \<longrightarrow>
            field_matches F vs d = (field_matches F vals d \<or> b))"
  using assms
proof (induction cs arbitrary: fld vals u sp w)
  case Nil
  then show ?case by (auto simp: field_matches_ex [of _ "dict_fromkeys _"] field_matches_ex [of _ vals] split: if_splits)
next
  case (Cons c cs)
  have sou: "\<And>c rc v x v'. c \<in> set cs \<Longrightarrow> f c = Inr rc \<Longrightarrow> g c v = (Inr x, v') \<Longrightarrow> sound L d rc x"
    by (rule Cons.prems(4)) auto
  obtain x v where x: "g c w = (Inr x, v)" using Cons.prems(2) by (auto split: prod.splits sum.splits)
  have here: "\<And>rc. f c = Inr rc \<Longrightarrow> sound L d rc x" using Cons.prems(4) [OF _ _ x] by simp
  have b: "x \<Longrightarrow> b" and go: "\<not> x \<Longrightarrow> any_r g cs v = (Inr b, w')" using Cons.prems(2) x by (auto split: if_splits)
  from Cons.prems(1) show ?case
  proof (cases rule: disj_loop_ConsE)
    case (sat rc)
    then show ?thesis using here [OF sat(1)] b by (simp add: sound_def)
  next
    case (unsat rc)
    then have "\<not> x" using here [OF unsat(1)] by (simp add: sound_def)
    with unsat(3) go Cons.prems(3) sou show ?thesis by (intro Cons.IH)
  next
    case (pred rc G vs)
    have px: "x = field_matches G vs d" using here [OF pred(1)] pred(2,3) by (simp add: sound_def)
    have app: "field_matches F (vals @ vs) d = (field_matches F vals d \<or> field_matches F vs d)" for F
      by (auto simp: field_matches_ex [of F "vals @ vs"] field_matches_ex [of F vals] field_matches_ex [of F vs])
    show ?thesis
    proof (cases x)
      case True
      have "field_matches F ws d" if F: "cr_predicates r = [FieldPredicate F ws]" "cr_outcome r = PREDICATES" for F ws
      proof -
        have "set (vals @ vs) \<subseteq> set ws" "F = G" using disj_loop_shape [OF pred(5)] F by auto
        then show ?thesis
          using px True field_matches_ex [of G vs d] field_matches_ex [of G ws d] by auto
      qed
      then show ?thesis using disj_loop_shape [OF pred(5)] b True by auto
    next
      case False
      have ih: "(cr_outcome r = SATISFIED \<longrightarrow> b) \<and> (cr_outcome r = UNSATISFIABLE \<longrightarrow> \<not> b) \<and>
         (\<forall>F ws. cr_predicates r = [FieldPredicate F ws] \<longrightarrow> cr_outcome r = PREDICATES \<longrightarrow>
            field_matches F ws d = (field_matches F (vals @ vs) d \<or> b))"
        using pred(5) go [OF False] or_state_simps(2) sou by (rule Cons.IH)
      have "\<not> field_matches F vs d" if "cr_predicates r = [FieldPredicate F ws]" "cr_outcome r = PREDICATES" for F ws
        using disj_loop_shape [OF pred(5)] that px False by auto
      with ih app show ?thesis by auto
    qed
  next
    case (unc rc)
    show ?thesis
    proof (cases x)
      case True
      then show ?thesis using disj_loop_shape [OF unc(2) Cons.prems(3)] b by auto
    next
      case False
      show ?thesis using unc(2) go [OF False] Cons.prems(3) sou by (rule Cons.IH)
    qed
  qed
qed

text \<open>No \<open>match\<close> condition in the tree uses the \<open>regex\<close> operator.\<close>

function no_regex :: "condition \<Rightarrow> bool" where
  "no_regex c =
     (if ctype c = ''match'' then jget_or (cconfig c) ''operator'' (JStr ''eq'') \<noteq> JStr ''regex''
      else if ctype c = ''and'' \<or> ctype c = ''or'' then
        (case nested_cfgs (cconfig c) of
           Inl e \<Rightarrow> True
         | Inr xs \<Rightarrow> (\<forall>j\<in>set xs. case cond_of_json j of Inl e \<Rightarrow> True | Inr c' \<Rightarrow> no_regex c'))
      else True)"
  by pat_completeness auto

termination
  by (relation "measure (\<lambda>c. size (JObj (cconfig c)))") (auto dest: nested_cfgs_size simp del: json.size)

declare no_regex.simps [simp del]

text \<open>
  The evaluation context agrees with what the compiler is given: the built-in handlers are in place,
  the principal is the same, and the catalog's public flag is the document's visibility.
\<close>

definition agrees :: "'w cond_env \<Rightarrow> dict \<Rightarrow> doc \<Rightarrow> eval_ctx \<Rightarrow> bool" where
  "agrees E attrs d cx \<longleftrightarrow>
     (\<forall>t\<in>{''match'', ''and'', ''or'', ''catalog_lookup_public_allowed''}. en_plugins E t = None) \<and>
     attrs = (case cx_principal cx of None \<Rightarrow> [] | Some p \<Rightarrow> pr_attributes p) \<and>
     catalog_lookup_audience_eval E cx = field_matches ''visibility'' [''public''] d"

lemma match_compare_agrees:
  "operator \<noteq> JStr ''regex'' \<Longrightarrow> match_compare L actual operator expected = Inr (compare_vals L actual operator expected cx)"
  by (simp add: match_compare_def compare_vals_def)

lemma get_value_attributes:
  assumes "prefix ''principal.attributes.'' path"
  shows "get_value (JScalar (SStr path)) cx =
           jget (case cx_principal cx of None \<Rightarrow> [] | Some p \<Rightarrow> pr_attributes p) (drop 21 path)"
proof -
  obtain k where "path = ''principal.attributes.'' @ k" using assms by (auto simp: prefix_def)
  then show ?thesis by (simp add: get_value_def jget_def split: option.splits)
qed

lemma compile_attribute_match_sound:
  assumes "compile_attribute_match L cfg attrs = Inr r" and "jget_or cfg ''operator'' (JStr ''eq'') \<noteq> JStr ''regex''"
    and "attrs = (case cx_principal cx of None \<Rightarrow> [] | Some p \<Rightarrow> pr_attributes p)"
  shows "shaped r \<and> sound L d r (match_eval L cfg cx)"
proof (cases "truthy (jget cfg ''attribute'') \<and> (\<exists>path. jget cfg ''attribute'' = JScalar (SStr path) \<and> prefix ''principal.attributes.'' path)")
  case True
  then obtain path where p: "jget cfg ''attribute'' = JScalar (SStr path)" "prefix ''principal.attributes.'' path"
    "path \<noteq> []" by auto
  then show ?thesis
    using assms match_compare_agrees [OF assms(2), of L "jget attrs (drop 21 path)" "jget cfg ''value''" cx]
    by (auto simp: compile_attribute_match_def match_eval_def get_value_attributes shaped_def sound_def Let_def split: if_splits)
next
  case False
  then show ?thesis
    using assms
    by (auto simp: compile_attribute_match_def match_eval_def shaped_def sound_def Let_def
        split: if_splits json.splits scalar.splits)
qed

lemma nested_cfgs_runtime:
  "py_iter (jget_or d ''conditions'' (JList [])) = Inr xs \<Longrightarrow> nested_cfgs d = Inr xs"
proof (cases "dget d ''conditions''")
  case None
  then show "py_iter (jget_or d ''conditions'' (JList [])) = Inr xs \<Longrightarrow> nested_cfgs d = Inr xs"
    by (simp add: nested_cfgs_def py_or_def dget_or_def jget_def)
next
  case (Some v)
  assume it: "py_iter (jget_or d ''conditions'' (JList [])) = Inr xs"
  then have "py_iter v = Inr xs" using Some by (simp add: dget_or_def)
  moreover have "\<not> truthy v \<Longrightarrow> py_iter v = Inr xs \<Longrightarrow> xs = []"
    by (cases v rule: truthy.cases) (auto simp: py_iter_def)
  ultimately show "nested_cfgs d = Inr xs"
    using Some by (auto simp: nested_cfgs_def py_or_def jget_def) (simp add: py_iter_def)
qed

lemma eval_match:
  assumes "agrees E attrs d cx" "ctype c = ''match''"
  shows "eval_condition E (Some cx) c w = (Inr (match_eval (en_lib E) (cconfig c) cx), w)"
  using assms by (subst eval_condition.simps) (simp add: agrees_def leaf_eval_def Let_def run_simps)

lemma eval_public:
  assumes "agrees E attrs d cx" "ctype c = ''catalog_lookup_public_allowed''"
  shows "eval_condition E (Some cx) c w = (Inr (field_matches ''visibility'' [''public''] d), w)"
  using assms by (subst eval_condition.simps) (simp add: agrees_def leaf_eval_def Let_def run_simps)

definition via_json :: "(condition \<Rightarrow> py_exn + 'r) \<Rightarrow> json \<Rightarrow> py_exn + 'r" where
  "via_json f j = (case cond_of_json j of Inl e \<Rightarrow> Inl e | Inr c \<Rightarrow> f c)"

definition run_json :: "(condition \<Rightarrow> ('w, py_exn, bool) run) \<Rightarrow> json \<Rightarrow> ('w, py_exn, bool) run" where
  "run_json g j u = (case cond_of_json j of Inl e \<Rightarrow> (Inl e, u) | Inr c \<Rightarrow> g c u)"

lemma run_json_abs: "run_json g = (\<lambda>j u. case cond_of_json j of Inl e \<Rightarrow> (Inl e, u) | Inr c \<Rightarrow> g c u)"
  by (intro ext) (simp add: run_json_def)

lemma eval_and:
  assumes "agrees E attrs d cx" "ctype c = ''and''" "eval_condition E (Some cx) c w = (Inr b, w')"
  obtains xs where "nested_cfgs (cconfig c) = Inr xs" "all_r (run_json (eval_condition E (Some cx))) xs w = (Inr b, w')"
proof -
  have "(case py_iter (jget_or (cconfig c) ''conditions'' (JList [])) of
           Inl e \<Rightarrow> (Inl e, w) | Inr xs \<Rightarrow> all_r (run_json (eval_condition E (Some cx))) xs w) = (Inr b, w')"
    unfolding run_json_abs using assms by (subst (asm) eval_condition.simps) (simp add: agrees_def)
  then show ?thesis using that nested_cfgs_runtime by (auto split: sum.splits)
qed

lemma eval_or:
  assumes "agrees E attrs d cx" "ctype c = ''or''" "eval_condition E (Some cx) c w = (Inr b, w')"
    and "nested_cfgs (cconfig c) = Inr xs"
  shows "if xs = [] then b else any_r (run_json (eval_condition E (Some cx))) xs w = (Inr b, w')"
proof (cases "truthy (jget_or (cconfig c) ''conditions'' (JList []))")
  case False
  then have "b" using assms by (subst (asm) eval_condition.simps) (simp add: agrees_def)
  moreover have "xs = []"
    using False assms(4)
    by (auto simp: nested_cfgs_def py_or_def jget_def dget_or_def py_iter_def split: option.splits if_splits)
  ultimately show ?thesis by simp
next
  case True
  then have r: "(case py_iter (jget_or (cconfig c) ''conditions'' (JList [])) of
           Inl e \<Rightarrow> (Inl e, w) | Inr xs \<Rightarrow> any_r (run_json (eval_condition E (Some cx))) xs w) = (Inr b, w')"
    unfolding run_json_abs using assms by (subst (asm) eval_condition.simps) (simp add: agrees_def)
  then obtain ys where ys: "py_iter (jget_or (cconfig c) ''conditions'' (JList [])) = Inr ys" by (auto split: sum.splits)
  then have "ys = xs" using nested_cfgs_runtime assms(4) by fastforce
  moreover have "ys \<noteq> []"
    using True ys by (cases "jget_or (cconfig c) ''conditions'' (JList [])" rule: truthy.cases) (auto simp: py_iter_def)
  ultimately show ?thesis using r ys by simp
qed

lemma compile_and:
  "ctype c = ''and'' \<Longrightarrow> compile_condition L attrs c = Inr r \<Longrightarrow> nested_cfgs (cconfig c) = Inr xs \<Longrightarrow>
     conj_loop (via_json (compile_condition L attrs)) xs [] False = Inr r"
  by (subst (asm) compile_condition.simps) (simp add: via_json_def [abs_def] split: sum.splits)

lemma compile_or:
  "ctype c = ''or'' \<Longrightarrow> compile_condition L attrs c = Inr r \<Longrightarrow> nested_cfgs (cconfig c) = Inr xs \<Longrightarrow>
     if xs = [] then r = CondResult SATISFIED [] else disj_loop (via_json (compile_condition L attrs)) xs None [] False False = Inr r"
  by (subst (asm) compile_condition.simps) (auto simp: via_json_def [abs_def] split: sum.splits)

lemma compile_nested:
  "ctype c \<in> {''and'', ''or''} \<Longrightarrow> compile_condition L attrs c = Inr r \<Longrightarrow> \<exists>xs. nested_cfgs (cconfig c) = Inr xs"
  by (subst (asm) compile_condition.simps) (auto split: sum.splits)

lemma compile_condition_shaped: "compile_condition L attrs c = Inr r \<Longrightarrow> shaped r"
proof (induction c arbitrary: r rule: measure_induct_rule [where f = "\<lambda>c. size (JObj (cconfig c))"])
  case (less c)
  consider "ctype c = ''and''" | "ctype c = ''or''" | "ctype c \<notin> {''and'', ''or''}" by blast
  then show ?case
  proof cases
    case 1
    then obtain xs where xs: "nested_cfgs (cconfig c) = Inr xs" using compile_nested less.prems by blast
    have "shaped rc" if "j \<in> set xs" "via_json (compile_condition L attrs) j = Inr rc" for j rc
      using less.IH nested_cfgs_size [OF xs that(1)] that(2) by (auto simp: via_json_def split: sum.splits)
    then show ?thesis using conj_loop_shape [OF compile_and [OF 1 less.prems xs]] by simp
  next
    case 2
    then obtain xs where xs: "nested_cfgs (cconfig c) = Inr xs" using compile_nested less.prems by blast
    then show ?thesis 
      using compile_or [OF 2 less.prems xs]
        disj_loop_shape [of "via_json (compile_condition L attrs)" xs None "[]" False False r]
      by (auto simp: shaped_def split: if_splits)
  next
    case 3
    then show ?thesis
      using less.prems
      by (subst (asm) compile_condition.simps)
         (auto simp: shaped_def is_field_def compile_attribute_match_def Let_def match_compare_def
            split: if_splits json.splits scalar.splits sum.splits option.splits)
  qed
qed

lemma compile_condition_sound:
  assumes "agrees E attrs d cx"
  shows "compile_condition (en_lib E) attrs c = Inr r \<Longrightarrow> no_regex c \<Longrightarrow>
         eval_condition E (Some cx) c w = (Inr b, w') \<Longrightarrow> sound (en_lib E) d r b"
proof (induction c arbitrary: r w b w' rule: measure_induct_rule [where f = "\<lambda>c. size (JObj (cconfig c))"])
  case (less c)
  have children: "sound (en_lib E) d rc x"
    if h: "ctype c \<in> {''and'', ''or''}" "nested_cfgs (cconfig c) = Inr xs" "j \<in> set xs"
      "via_json (compile_condition (en_lib E) attrs) j = Inr rc"
      "run_json (eval_condition E (Some cx)) j v = (Inr x, v')" for xs j rc v x v'
  proof -
    obtain c' where c': "cond_of_json j = Inr c'" using h(4) by (auto simp: via_json_def split: sum.splits)
    moreover have "no_regex c'"
      using less.prems(2) h(1-3) c' by (subst (asm) no_regex.simps) (auto split: if_splits)
    ultimately show ?thesis
      using less.IH [OF nested_cfgs_size [OF h(2,3) c']] h(4,5) by (simp add: via_json_def run_json_def)
  qed
  have shp: "shaped rc" if "via_json (compile_condition (en_lib E) attrs) j = Inr rc" for j rc
    using that compile_condition_shaped by (auto simp: via_json_def split: sum.splits)
  consider "ctype c = ''and''" | "ctype c = ''or''" | "ctype c = ''match''" | "ctype c = ''catalog_lookup_public_allowed''"
    | "ctype c \<notin> {''and'', ''or'', ''match'', ''catalog_lookup_public_allowed''}" by blast
  then show ?case
  proof cases
    case 1
    from assms 1 less.prems(3) obtain xs where xs: "nested_cfgs (cconfig c) = Inr xs"
        "all_r (run_json (eval_condition E (Some cx))) xs w = (Inr b, w')" by (rule eval_and)
    have "(cr_outcome r = UNSATISFIABLE \<longrightarrow> \<not> b) \<and> (cr_outcome r \<in> {SATISFIED, PREDICATES} \<longrightarrow>
        all_hold (en_lib E) d (cr_predicates r) = (all_hold (en_lib E) d [] \<and> b))"
      using compile_and [OF 1 less.prems(1) xs(1)] xs(2)
    proof (rule conj_loop_sound)
      show "sound (en_lib E) d rc x" if "j \<in> set xs" "via_json (compile_condition (en_lib E) attrs) j = Inr rc"
        "run_json (eval_condition E (Some cx)) j v = (Inr x, v')" for j rc v x v'
        using children [OF _ xs(1) that] 1 by simp
    qed (use shp in auto)
    then show ?thesis
      using compile_condition_shaped [OF less.prems(1)] by (auto simp: sound_def shaped_def split: outcome.splits)
  next
    case 2
    obtain xs where xs: "nested_cfgs (cconfig c) = Inr xs" using compile_nested less.prems(1) 2 by blast
    show ?thesis
    proof (cases "xs = []")
      case True
      then show ?thesis
        using compile_or [OF 2 less.prems(1) xs] eval_or [OF assms 2 less.prems(3) xs] by (simp add: sound_def)
    next
      case False
      have dis: "disj_loop (via_json (compile_condition (en_lib E) attrs)) xs None [] False False = Inr r"
        using compile_or [OF 2 less.prems(1) xs] False by simp
      have run: "any_r (run_json (eval_condition E (Some cx))) xs w = (Inr b, w')"
        using eval_or [OF assms 2 less.prems(3) xs] False by simp
      have "(cr_outcome r = SATISFIED \<longrightarrow> b) \<and> (cr_outcome r = UNSATISFIABLE \<longrightarrow> \<not> b) \<and>
         (\<forall>F vs. cr_predicates r = [FieldPredicate F vs] \<longrightarrow> cr_outcome r = PREDICATES \<longrightarrow>
            field_matches F vs d = (field_matches F [] d \<or> b))"
        using dis run or_state_simps(1)
      proof (rule disj_loop_sound)
        show "sound (en_lib E) d rc x" if "j \<in> set xs" "via_json (compile_condition (en_lib E) attrs) j = Inr rc"
          "run_json (eval_condition E (Some cx)) j v = (Inr x, v')" for j rc v x v'
          using children [OF _ xs that] 2 by simp
      qed
      moreover have "\<not> field_matches F [] d" for F by (subst field_matches_ex) simp
      ultimately show ?thesis
        using disj_loop_shape [OF dis] by (auto simp: sound_def split: outcome.splits)
    qed
  next
    case 3
    have "compile_attribute_match (en_lib E) (cconfig c) attrs = Inr r"
      using less.prems(1) 3 by (subst (asm) compile_condition.simps) simp
    moreover have "jget_or (cconfig c) ''operator'' (JStr ''eq'') \<noteq> JStr ''regex''"
      using less.prems(2) 3 by (subst (asm) no_regex.simps) simp
    ultimately show ?thesis
      using compile_attribute_match_sound [of "en_lib E" "cconfig c" attrs r cx d] less.prems(3) assms eval_match [OF assms 3]
      by (simp add: agrees_def)
  next
    case 4
    then have "r = CondResult PREDICATES [FieldPredicate ''visibility'' [''public'']]"
      using less.prems(1) by (subst (asm) compile_condition.simps) simp
    then show ?thesis using less.prems(3) eval_public [OF assms 4] by (simp add: sound_def)
  next
    case 5
    then have "cr_outcome r = UNCOMPILABLE" using less.prems(1) by (subst (asm) compile_condition.simps) auto
    then show ?thesis by (simp add: sound_def)
  qed
qed

section \<open>The filter is equal to or stricter than the engine\<close>

lemma compile_conditions_sound:
  assumes "agrees E attrs d cx" and "compile_conditions (en_lib E) conds attrs = Inr r"
    and "\<And>c. c \<in> set conds \<Longrightarrow> no_regex c" and "evaluate_all E (Some cx) conds w = (Inr b, w')"
  shows "shaped r \<and> sound (en_lib E) d r b"
proof -
  have f: "conj_loop (compile_condition (en_lib E) attrs) conds [] False = Inr r"
    using assms(2) by (simp add: compile_conditions_def)
  have sh: "shaped r"
    using conj_loop_shape [OF f] compile_condition_shaped by simp
  have "(cr_outcome r = UNSATISFIABLE \<longrightarrow> \<not> b) \<and> (cr_outcome r \<in> {SATISFIED, PREDICATES} \<longrightarrow>
      all_hold (en_lib E) d (cr_predicates r) = (all_hold (en_lib E) d [] \<and> b))"
    using f assms(4) [unfolded evaluate_all_def]
  proof (rule conj_loop_sound)
    show "sound (en_lib E) d rc x" if "c \<in> set conds" "compile_condition (en_lib E) attrs c = Inr rc"
      "eval_condition E (Some cx) c v = (Inr x, v')" for c rc v x v'
      using compile_condition_sound [OF assms(1) that(2) assms(3) [OF that(1)] that(3)] .
  qed (use compile_condition_shaped in auto)
  then show ?thesis using sh by (auto simp: sound_def shaped_def split: outcome.splits)
qed

text \<open>A policy that the compiler considers and whose conditions compile to \<open>r\<close>.\<close>

definition considered :: "pylib \<Rightarrow> dict \<Rightarrow> string list \<Rightarrow> policy \<Rightarrow> cond_result \<Rightarrow> bool" where
  "considered L attrs paths pol r \<longleftrightarrow>
     policy_has_read_action L pol (pol_effect pol = DENY) \<and> policy_matches_read_scope L pol paths \<and>
     compile_conditions L (pol_conditions pol) attrs = Inr r"

definition contributes :: "cond_result \<Rightarrow> bool" where
  "contributes r \<longleftrightarrow> cr_outcome r \<in> {SATISFIED, PREDICATES}"

definition scan_skips :: "pylib \<Rightarrow> dict \<Rightarrow> string list \<Rightarrow> policy \<Rightarrow> bool" where
  "scan_skips L attrs paths pol \<longleftrightarrow>
     (pol_effect pol = DENY \<and> policy_has_read_action L pol True \<and> policy_matches_read_scope L pol paths \<longrightarrow>
        (\<exists>r. compile_conditions L (pol_conditions pol) attrs = Inr r \<and> cr_outcome r = UNSATISFIABLE))"

lemma policy_scan_ConsE:
  assumes "policy_scan L attrs paths cat col (pol # pols) al de unc aa = Inr (Go al' de' unc' aa')"
  obtains
    (skip) u where "scan_skips L attrs paths pol" "policy_scan L attrs paths cat col pols al de u aa = Inr (Go al' de' unc' aa')"
  | (deny) r where "pol_effect pol = DENY" "considered L attrs paths pol r" "contributes r"
      "policy_scan L attrs paths cat col pols al (de @ [scope_clause (cr_predicates r) cat col]) unc aa = Inr (Go al' de' unc' aa')"
  | (all) r where "pol_effect pol = ALLOW" "considered L attrs paths pol r" "contributes r"
      "cr_predicates r = []" "scope_predicates cat col = []"
      "policy_scan L attrs paths cat col pols al de unc True = Inr (Go al' de' unc' aa')"
  | (allow) r where "pol_effect pol = ALLOW" "considered L attrs paths pol r" "contributes r"
      "policy_scan L attrs paths cat col pols (al @ [scope_clause (cr_predicates r) cat col]) de unc aa = Inr (Go al' de' unc' aa')"
proof (cases "policy_has_read_action L pol (pol_effect pol = DENY) \<and> policy_matches_read_scope L pol paths")
  case False
  show ?thesis by (rule skip [of unc]) (use assms False in \<open>auto simp: scan_skips_def\<close>)
next
  case True
  then obtain r where r: "compile_conditions L (pol_conditions pol) attrs = Inr r"
    using assms by (cases "compile_conditions L (pol_conditions pol) attrs") auto
  then have c: "considered L attrs paths pol r" using True by (simp add: considered_def)
  show ?thesis
  proof (cases "pol_effect pol")
    case DENY
    show ?thesis
    proof (cases "contributes r")
      case True
      then show ?thesis using DENY c r assms that(2) \<open>policy_has_read_action L pol _ \<and> _\<close>
        by (cases "cr_outcome r") (auto simp: contributes_def)
    next
      case False
      then have "cr_outcome r = UNSATISFIABLE" using assms DENY r True by (cases "cr_outcome r") (auto simp: contributes_def)
      then show ?thesis using skip [of unc] assms DENY r True by (auto simp: scan_skips_def)
    qed
  next
    case ALLOW
    then show ?thesis
      using assms r True c that(3,4) skip [of unc] skip [of True]
      by (cases "cr_outcome r") (auto simp: contributes_def scan_skips_def split: if_splits)
  qed
qed

lemma policy_scan_stop: "policy_scan L attrs paths cat col pols al de unc aa = Inr (Stop f) \<Longrightarrow> f = deny_everything True"
  by (induction pols arbitrary: al de unc aa) (auto split: if_splits sum.splits outcome.splits)

lemma policy_scan_allow:
  assumes "policy_scan L attrs paths cat col pols al de unc aa = Inr (Go al' de' unc' aa')"
  shows "(\<forall>c\<in>set al'. c \<in> set al \<or> (\<exists>pol\<in>set pols. \<exists>r. pol_effect pol = ALLOW \<and> considered L attrs paths pol r \<and>
             contributes r \<and> c = scope_clause (cr_predicates r) cat col)) \<and>
         (aa' \<longrightarrow> aa \<or> (\<exists>pol\<in>set pols. \<exists>r. pol_effect pol = ALLOW \<and> considered L attrs paths pol r \<and>
             contributes r \<and> cr_predicates r = [] \<and> scope_predicates cat col = []))"
  using assms
proof (induction pols arbitrary: al de unc aa)
  case (Cons pol pols)
  from Cons.prems show ?case
  proof (cases rule: policy_scan_ConsE)
    case (skip u)
    then show ?thesis using Cons.IH [OF skip(2)] by auto
  next
    case (deny r)
    then show ?thesis using Cons.IH [OF deny(4)] by auto
  next
    case (all r)
    then show ?thesis using Cons.IH [OF all(6)] by auto
  next
    case (allow r)
    then show ?thesis using Cons.IH [OF allow(4)] by auto
  qed
qed simp

lemma policy_scan_deny:
  assumes "policy_scan L attrs paths cat col pols al de unc aa = Inr (Go al' de' unc' aa')"
  shows "set de \<subseteq> set de' \<and> (\<forall>pol\<in>set pols. scan_skips L attrs paths pol \<or>
           (\<exists>r. considered L attrs paths pol r \<and> contributes r \<and> scope_clause (cr_predicates r) cat col \<in> set de'))"
  using assms
proof (induction pols arbitrary: al de unc aa)
  case (Cons pol pols)
  from Cons.prems show ?case
  proof (cases rule: policy_scan_ConsE)
    case (skip u)
    then show ?thesis using Cons.IH [OF skip(2)] by auto
  next
    case (deny r)
    then show ?thesis using Cons.IH [OF deny(4)] by auto
  next
    case (all r)
    then show ?thesis using Cons.IH [OF all(6)] by (auto simp: scan_skips_def)
  next
    case (allow r)
    then show ?thesis using Cons.IH [OF allow(4)] by (auto simp: scan_skips_def)
  qed
qed simp

lemma all_hold_clause: "all_hold L d ps \<Longrightarrow> clause_matches L (AccessClause ps) d = Some True"
  by (induction ps) (auto simp: all_hold_def clause_matches_def)

lemma clause_all_hold: "clause_matches L (AccessClause ps) d = Some True \<Longrightarrow> all_hold L d ps"
  by (auto simp: all_hold_def clause_matches_def dest: all_m_TrueD)

lemma scope_all_hold: "all_hold L d (predicates (scope_clause ps cat col)) \<longleftrightarrow> all_hold L d (scope_predicates cat col) \<and> all_hold L d ps"
  by (simp add: scope_clause_def)

lemma grant_step_ctx:
  "fst (snd (grant_step L st schemas cat resolved rows (base, c1))) = fst (snd (grant_step L st schemas cat resolved rows (base, c2)))"
  by (auto simp: grant_step_def Let_def split: prod.splits sum.splits option.splits)

lemma resolve_policies_ctx:
  "fst (resolve_effective_policies L st principals schema cat custom pid col c1) =
   fst (resolve_effective_policies L st principals schema cat custom pid col c2)"
  using grant_step_ctx [of L st "schemas_to_check schema" cat _ _ _ c1 c2]
  by (auto simp: resolve_effective_policies_def split: prod.splits sum.splits option.splits) (metis fst_conv snd_conv)+

text \<open>The regular-expression facts the relevance test relies on: \<open>.*\<close> and a verb match that verb.\<close>

definition verb_laws :: "pylib \<Rightarrow> bool" where
  "verb_laws L \<longleftrightarrow> (\<forall>v\<in>set read_actions. re_match L ''.*'' v = Some True \<and> re_match L v v = Some True)"

lemma method_match_read:
  assumes "verb_laws L" "v \<in> set read_actions" "method_match L pol v"
  shows "policy_has_read_action L pol is_deny"
proof -
  have "pol_actions pol = [] \<or> matches_action L pol v"
    using assms by (auto simp: verb_laws_def method_match_def matches_action_def list_ex_iff)
  then show ?thesis using assms(2) by (auto simp: policy_has_read_action_def list_ex_iff)
qed

lemma read_action_verb:
  "policy_has_read_action L pol False \<Longrightarrow> \<exists>v\<in>set read_actions. method_match L pol v"
  by (auto simp: policy_has_read_action_def method_match_def list_ex_iff read_actions_def)

lemma steady_here: "steady E ctx p b \<Longrightarrow> evaluate_all E ctx (pol_conditions p) w = (Inr b, w)"
  using restamp_id [of ctx] unfolding steady_def by metis

text \<open>Over the policies alone: an admitted document has a verb and a probe path where the ranking allows.\<close>

lemma scan_stricter:
  assumes scan: "policy_scan (en_lib E) attrs paths cat col ps [] [] False False = Inr s"
    and adm: "admits (en_lib E) (scan_filter ([], u) s) d = Some True"
    and steady: "\<And>p. p \<in> set ps \<Longrightarrow> steady E (Some cx) p (b p)"
    and nr: "\<And>p c. p \<in> set ps \<Longrightarrow> c \<in> set (pol_conditions p) \<Longrightarrow> no_regex c"
    and agr: "agrees E attrs d cx" and laws: "verb_laws (en_lib E)"
  shows "\<exists>v\<in>set read_actions. \<exists>path\<in>set paths.
           ranking_allows (set (filter (\<lambda>p. applies_to (en_lib E) v path p \<and> b p) ps))"
proof -
  let ?L = "en_lib E"
  have sound: "shaped r \<and> sound ?L d r (b p)" if "p \<in> set ps" "compile_conditions ?L (pol_conditions p) attrs = Inr r" for p r
    by (rule compile_conditions_sound [OF agr that(2) nr [OF that(1)] steady_here [OF steady [OF that(1)]]])
  obtain al de unc aa where s: "s = Go al de unc aa"
    using adm scan by (cases s) (auto simp: scan_filter_def deny_everything_def dest!: policy_scan_stop)
  have deny: "any_m (\<lambda>c. clause_matches ?L c d) de = Some False"
    and allow: "aa \<or> any_m (\<lambda>c. clause_matches ?L c d) al = Some True"
    using adm s by (auto simp: scan_filter_def from_clauses_def deny_everything_def Let_def split: if_splits option.splits)
  obtain a r where a: "a \<in> set ps" "pol_effect a = ALLOW" "considered ?L attrs paths a r" "contributes r"
      "all_hold ?L d (scope_predicates cat col)" "all_hold ?L d (cr_predicates r)"
  proof (cases aa)
    case True
    then show ?thesis using policy_scan_allow [OF scan [unfolded s]] that by fastforce
  next
    case False
    then obtain c where c: "c \<in> set al" "clause_matches ?L c d = Some True" using allow any_m_TrueD by blast
    then obtain pol r where "pol \<in> set ps" "pol_effect pol = ALLOW" "considered ?L attrs paths pol r" "contributes r"
        "c = scope_clause (cr_predicates r) cat col"
      using policy_scan_allow [OF scan [unfolded s]] by auto
    then show ?thesis using that [of pol r] clause_all_hold [of ?L "predicates c" d] c(2) scope_all_hold by auto
  qed
  have ba: "b a"
    using sound [OF a(1), of r] a(3,4,6) by (auto simp: considered_def contributes_def sound_def)
  obtain v where v: "v \<in> set read_actions" "method_match ?L a v"
    using read_action_verb a(2,3) by (auto simp: considered_def)
  obtain path where path: "path \<in> set paths" "matches_resource ?L a path"
    using a(3) by (auto simp: considered_def policy_matches_read_scope_def list_ex_iff)
  have "\<not> b q" if q: "q \<in> set ps" "pol_effect q = DENY" "applies_to ?L v path q" for q
  proof
    assume bq: "b q"
    have rel: "policy_has_read_action ?L q True" "policy_matches_read_scope ?L q paths"
      using q(3) method_match_read [OF laws v(1)] path(1)
      by (auto simp: applies_to_def policy_matches_read_scope_def list_ex_iff)
    have "\<not> scan_skips ?L attrs paths q"
      using rel q(2) bq sound [OF q(1)] by (auto simp: scan_skips_def sound_def)
    then obtain rq where rq: "considered ?L attrs paths q rq" "contributes rq"
        "scope_clause (cr_predicates rq) cat col \<in> set de"
      using policy_scan_deny [OF scan [unfolded s]] q(1) by blast
    have "all_hold ?L d (cr_predicates rq)"
      using sound [OF q(1), of rq] rq(1,2) bq
      by (auto simp: considered_def contributes_def sound_def shaped_def)
    then have "clause_matches ?L (scope_clause (cr_predicates rq) cat col) d = Some True"
      using a(5) all_hold_clause by (simp add: scope_clause_def)
    then show False using any_m_FalseD [OF deny rq(3)] by simp
  qed
  then have "ranking_allows (set (filter (\<lambda>p. applies_to ?L v path p \<and> b p) ps))"
    using a(1,2) ba v(2) path(2) by (auto simp: ranking_allows_def applies_to_def)
  then show ?thesis using v(1) path(1) by blast
qed

text \<open>
  C3.  The safety contract of the read filter, for callers whose grants carry no attribute
  predicates and whose effective policies have steady conditions (one outcome, nothing raised, no
  state changed) without the \<open>regex\<close> operator of \<open>match\<close>: for every document the compiled filter admits
  there are a read verb and one of the scope's probe paths on which \<open>evaluate_access\<close> allows the same
  caller, in a request context whose attributes agree with the document and the principal.
\<close>

theorem read_filter_equal_or_stricter:
  assumes "compile_read_filter (en_lib E) reg st principals cat col asset pr pid = Inr f"
    and "admits (en_lib E) f d = Some True"
    and "resolve_schema st cat False = Inr schema"
    and "resolve_effective_policies (en_lib E) st principals schema cat
           (case pr of None \<Rightarrow> [] | Some p \<Rightarrow> pr_custom_policies p) pid col (Some ctx) = (Inr ps, Some cx)"
    and "fst (compile_grant_attribute_clauses reg st pid schema cat col) = []"
    and "\<And>p. p \<in> set ps \<Longrightarrow> steady E (Some cx) p (b p)"
    and "\<And>p c. p \<in> set ps \<Longrightarrow> c \<in> set (pol_conditions p) \<Longrightarrow> no_regex c"
    and "agrees E (case pr of None \<Rightarrow> [] | Some p \<Rightarrow> pr_attributes p) d cx"
    and "verb_laws (en_lib E)"
  shows "\<exists>v\<in>set read_actions. \<exists>path\<in>set (read_scope_probe_paths cat col asset). \<exists>reason s'.
           evaluate_access E st principals path v cat (case pr of None \<Rightarrow> [] | Some p \<Rightarrow> pr_custom_policies p) pid col
             (Some ctx, w) = (Inr (True, reason), s')"
proof -
  let ?custom = "case pr of None \<Rightarrow> [] | Some p \<Rightarrow> pr_custom_policies p"
  have ps: "fst (resolve_effective_policies (en_lib E) st principals schema cat ?custom pid col None) = Inr ps"
    using assms(4) resolve_policies_ctx [of "en_lib E" st principals schema cat ?custom pid col None "Some ctx"] by simp
  obtain u where u: "compile_grant_attribute_clauses reg st pid schema cat col = ([], u)"
    using assms(5) by (metis prod.collapse)
  obtain s where s: "policy_scan (en_lib E) (case pr of None \<Rightarrow> [] | Some p \<Rightarrow> pr_attributes p)
        (read_scope_probe_paths cat col asset) cat col ps [] [] False False = Inr s" "f = scan_filter ([], u) s"
    using assms(1,3) ps u by (auto simp: compile_read_filter_def elim!: bind_e_InrE)
  have "\<exists>v\<in>set read_actions. \<exists>path\<in>set (read_scope_probe_paths cat col asset).
          ranking_allows (set (filter (\<lambda>p. applies_to (en_lib E) v path p \<and> b p) ps))"
    using s(1) assms(2) [unfolded s(2)] assms(6-9) by (rule scan_stricter)
  then obtain v path where v: "v \<in> set read_actions" "path \<in> set (read_scope_probe_paths cat col asset)"
      "ranking_allows (set (filter (\<lambda>p. applies_to (en_lib E) v path p \<and> b p) ps))" by blast
  obtain s' where m: "matched E v path ps (Some cx, w) = (Inr (filter (\<lambda>p. applies_to (en_lib E) v path p \<and> b p) ps), s')"
    using matched_steady_ctx [of ps E v path "Some cx" b w] assms(6) by blast
  obtain allowed reason where "decide_access E ps path v (Some cx, w) = (Inr (allowed, reason), s')" "allowed"
    using decide_access_ranking [OF m] v(3) by metis
  then have "evaluate_access E st principals path v cat ?custom pid col (Some ctx, w) = (Inr (True, reason), s')"
    using assms(3,4) by (simp add: evaluate_access_def)
  then show ?thesis using v(1,2) by blast
qed

definition public_env :: "nat cond_env" where
  "public_env = (plain_env None 0)\<lparr>en_lookup_public := (\<lambda>_. True)\<rparr>"

definition public_cond :: condition where
  "public_cond = \<lparr>ctype = ''catalog_lookup_public_allowed'', caddr = None, cconfig = []\<rparr>"

definition dept_cond :: condition where
  "dept_cond = \<lparr>ctype = ''match'', caddr = None, cconfig = [(''attribute'', JStr ''principal.attributes.dept''), (''value'', JStr ''x'')]\<rparr>"

definition pub_store :: iam_store where
  "pub_store = demo_store [''viewer'' \<mapsto> [''p1'', ''p2'']]
     (\<lambda>i. Inr (Some (if i = ''p1'' then mk_pol i ALLOW 0 [''.*''] [public_cond] else mk_pol i DENY 0 [''.*''] [dept_cond]))) (Inr [])"

definition pub_doc :: doc where
  "pub_doc = [''catalog_id'' \<mapsto> DScalar (SStr ''c''), ''visibility'' \<mapsto> DScalar (SStr ''public'')]"

definition pub_filter :: access_filter where
  "pub_filter = AccessFilter False False
     [AccessClause [FieldPredicate ''catalog_id'' [''c''], FieldPredicate ''visibility'' [''public'']]] [] False []"

lemma public_env_sel [simp]: "en_lib public_env = plain_lib" "en_plugins public_env = (\<lambda>_. None)"
  "en_lookup_public public_env = (\<lambda>_. True)"
  by (simp_all add: public_env_def plain_env_def)

lemma eval_public_env:
  "eval_condition public_env (restamp e m (Some plain_ctx)) public_cond w = (Inr True, w)"
  "eval_condition public_env (restamp e m (Some plain_ctx)) dept_cond w = (Inr False, w)"
  by (simp_all add: eval_condition.simps public_cond_def dept_cond_def restamp_def leaf_eval_def run_simps
      catalog_lookup_audience_eval_def plain_ctx_def nonempty_def match_eval_def get_value_def jget_def)

lemma pub_compile:
  "compile_conditions plain_lib [public_cond] [] = Inr (CondResult PREDICATES [FieldPredicate ''visibility'' [''public'']])"
  "compile_conditions plain_lib [dept_cond] [] = Inr (CondResult UNSATISFIABLE [])"
  by (simp_all add: compile_conditions_def compile_condition.simps public_cond_def dept_cond_def predicate_result_def
      compile_attribute_match_def jget_def Let_def)

lemma pub_relevant [simp]:
  "policy_has_read_action plain_lib (mk_pol i e prio [''.*''] conds) is_deny"
  "policy_matches_read_scope plain_lib (mk_pol i e prio [''.*''] conds) (read_scope_probe_paths (Some cat) None None)"
  by (auto simp: policy_has_read_action_def policy_matches_read_scope_def read_actions_def matches_action_def
      matches_resource_def plain_lib_def read_scope_probe_paths_def nonempty_def)

lemma pub_resolve:
  "resolve_schema pub_store (Some ''c'') False = Inr ''iam''"
  "resolve_effective_policies plain_lib pub_store [''viewer''] ''iam'' (Some ''c'') [] None None ctx =
     (Inr [mk_pol ''p1'' ALLOW 0 [''.*''] [public_cond], mk_pol ''p2'' DENY 0 [''.*''] [dept_cond]], ctx)"
  by (simp_all add: pub_store_def demo_simps validate_schema_name_def schema_ident_def ident_start_def ident_char_def)

theorem read_filter_equal_or_stricter_witness:
  "\<exists>v\<in>set read_actions. \<exists>path\<in>set (read_scope_probe_paths (Some ''c'') None None). \<exists>reason s'.
     evaluate_access public_env pub_store [''viewer''] path v (Some ''c'') [] None None (Some plain_ctx, 0) = (Inr (True, reason), s')"
proof -
  let ?ps = "[mk_pol ''p1'' ALLOW 0 [''.*''] [public_cond], mk_pol ''p2'' DENY 0 [''.*''] [dept_cond]]"
  have "compile_read_filter plain_lib [] pub_store [''viewer''] (Some ''c'') None None None None = Inr pub_filter"
    by (simp add: compile_read_filter_def pub_resolve pub_compile scope_clause_def scope_predicates_def scan_filter_def
        from_clauses_def compile_grant_attribute_clauses_def pub_filter_def)
  moreover have "admits plain_lib pub_filter pub_doc = Some True"
    by (simp add: pub_filter_def clause_matches_def field_matches_def pub_doc_def doc_get_def)
  moreover have "steady public_env (Some plain_ctx) p (pol_id p = ''p1'')" if "p \<in> set ?ps" for p
    using that by (auto simp: steady_def evaluate_all_def eval_public_env)
  moreover have "no_regex c" if "p \<in> set ?ps" "c \<in> set (pol_conditions p)" for p c
    using that by (auto simp: no_regex.simps public_cond_def dept_cond_def dget_or_def)
  moreover have "agrees public_env [] pub_doc plain_ctx"
    by (simp add: agrees_def plain_ctx_def catalog_lookup_audience_eval_def nonempty_def field_matches_def pub_doc_def doc_get_def)
  moreover have "verb_laws plain_lib" by (simp add: verb_laws_def plain_lib_def)
  ultimately show ?thesis
    using read_filter_equal_or_stricter [of public_env "[]" pub_store "[''viewer'']" "Some ''c''" None None None None
        pub_filter pub_doc "''iam''" plain_ctx ?ps plain_ctx "\<lambda>p. pol_id p = ''p1''" 0]
    by (simp add: pub_resolve compile_grant_attribute_clauses_def)
qed

section \<open>Where the filter is looser than the engine\<close>

definition code_cond :: condition where
  "code_cond = \<lparr>ctype = ''match'', caddr = None,
     cconfig = [(''attribute'', JStr ''principal.attributes.code''), (''operator'', JStr ''regex''), (''value'', JStr ''x'')]\<rparr>"

definition code_principal :: principal where
  "code_principal = \<lparr>pr_id = ''u'', pr_provider = None, pr_subject_id = None, pr_display_name = None, pr_roles = [],
     pr_custom_policies = [mk_pol ''p1'' ALLOW 0 [''.*''] [], mk_pol ''p2'' DENY 0 [''.*''] [code_cond]],
     pr_attributes = [(''code'', JStr ''ax'')], pr_is_active = True, pr_valid_until = None\<rparr>"

text \<open>
  The two implementations of the \<open>regex\<close> operator differ: the engine searches anywhere in the
  value, the compiler matches at its start.  A principal whose attribute contains the pattern of a
  DENY further in is refused by the engine on every path, while the compiled filter admits every
  document.
\<close>

theorem regex_deny_leaks:
  "fst (evaluate_access (plain_env None 0) (demo_store Map.empty (\<lambda>_. Inr None) (Inr [])) [] path v None
          (pr_custom_policies code_principal) None None (Some (plain_ctx\<lparr>cx_principal := Some code_principal\<rparr>), 0::nat))
     = Inr (False, ''Explicit DENY by policy p2'')
   \<and> compile_read_filter plain_lib [] (demo_store Map.empty (\<lambda>_. Inr None) (Inr [])) [] None None None (Some code_principal) None
     = Inr (AccessFilter False True [] [] False [])"
proof
  have sub: "sublist ''x'' ''ax''" by code_simp
  have ev: "eval_condition (plain_env None 0) (stamp p (stamp q (Some (plain_ctx\<lparr>cx_principal := Some code_principal\<rparr>)))) code_cond w
              = (Inr True, w :: nat)" for p q w
    by (simp add: eval_condition.simps code_cond_def stamp_def map_configs_def leaf_eval_def run_simps plain_env_def
        match_eval_def get_value_def jget_def dget_or_def compare_vals_def safe_regex_matches_def effect_aware_def
        code_principal_def plain_lib_def sub)
  show "fst (evaluate_access (plain_env None 0) (demo_store Map.empty (\<lambda>_. Inr None) (Inr [])) [] path v None
          (pr_custom_policies code_principal) None None (Some (plain_ctx\<lparr>cx_principal := Some code_principal\<rparr>), 0::nat))
     = Inr (False, ''Explicit DENY by policy p2'')"
    using ev
    by (simp add: evaluate_access_def demo_simps decide_access_def evaluate_all_def plain_env_def
        better_def winner_def verdict_def code_principal_def)
next
  have "compile_conditions plain_lib [code_cond] [(''code'', JStr ''ax'')] = Inr (CondResult UNSATISFIABLE [])"
    by (simp add: compile_conditions_def compile_condition.simps code_cond_def compile_attribute_match_def jget_def
        dget_or_def match_compare_def Let_def plain_lib_def)
  moreover have "compile_conditions plain_lib [] [(''code'', JStr ''ax'')] = Inr (CondResult SATISFIED [])"
    by (simp add: compile_conditions_def predicate_result_def)
  moreover have "policy_matches_read_scope plain_lib (mk_pol i e prio [''.*''] conds) [''/'']" for i e prio conds
    by (simp add: policy_matches_read_scope_def matches_resource_def plain_lib_def)
  ultimately show "compile_read_filter plain_lib [] (demo_store Map.empty (\<lambda>_. Inr None) (Inr [])) [] None None None (Some code_principal) None
     = Inr (AccessFilter False True [] [] False [])"
    by (simp add: compile_read_filter_def demo_simps read_scope_probe_paths_def code_principal_def
        scope_predicates_def scan_filter_def compile_grant_attribute_clauses_def)
qed

lemma attribute_clauses_effect:
  "attribute_clauses_loop reg st cat col (map (gr_effect_update h) rows) clauses unc =
   attribute_clauses_loop reg st cat col rows clauses unc"
  by (induction rows arbitrary: clauses unc)
     (auto simp: Let_def raw_predicates_def split: sum.splits prod.splits bool.splits)

text \<open>
  The effect of a grant is ignored when its attribute predicates are compiled: turning every
  grant of a principal into a deny grant leaves the compiled clauses, all of them ALLOW clauses, as
  they were.
\<close>

theorem grant_effect_ignored:
  assumes "is_grants st = Some rg" and "is_grants st' = Some (\<lambda>p s c. map_sum id (map (gr_effect_update (\<lambda>_. ''deny''))) (rg p s c))"
    and "is_has_iam st' = is_has_iam st" and "is_json_loads st' = is_json_loads st"
  shows "compile_grant_attribute_clauses reg st' pid schema cat col = compile_grant_attribute_clauses reg st pid schema cat col"
proof -
  have same: "attribute_clauses_loop reg st' cat col rows clauses unc = attribute_clauses_loop reg st cat col rows clauses unc"
    for rows clauses unc
  proof (induction rows arbitrary: clauses unc)
    case (Cons g rows)
    have "raw_predicates st' g = raw_predicates st g" unfolding raw_predicates_def assms(4) ..
    then show ?case by (auto simp: Let_def Cons.IH split: sum.splits prod.splits bool.splits)
  qed simp
  show ?thesis
    using assms(1-3) same attribute_clauses_effect
    by (auto simp: compile_grant_attribute_clauses_def split: option.splits sum.splits)
qed

definition abac_grant :: grant where
  "abac_grant = (mk_grant ''g1'' ''policy'' ''p1'' ''deny'')\<lparr>gr_attribute_predicates :=
     JList [JObj [(''key'', JStr ''dept''), (''op'', JStr ''eq''), (''values'', JList [JStr ''x''])]]\<rparr>"

theorem grant_effect_ignored_witness:
  "compile_grant_attribute_clauses predicate_registry
     (demo_store Map.empty (\<lambda>_. Inr None) (Inr [abac_grant])) (Some ''u'') ''iam'' None None
   = compile_grant_attribute_clauses predicate_registry
     (demo_store Map.empty (\<lambda>_. Inr None) (Inr [abac_grant\<lparr>gr_effect := ''allow''\<rparr>])) (Some ''u'') ''iam'' None None"
  by (rule grant_effect_ignored [where rg = "\<lambda>_ _ _. Inr [abac_grant\<lparr>gr_effect := ''allow''\<rparr>]"])
     (simp_all add: demo_store_def abac_grant_def mk_grant_def)

end
