(* ===== verification/Listing_Visibility.thy ===== *)
theory Listing_Visibility
  imports Read_Filter
begin

text \<open>
  Consumers of the compiled read scope.  \<open>modules/storage/access_scope.py\<close> compiles the scope of a
  search request; \<open>modules/iam/listing_visibility.py\<close> computes which catalogs, collections and assets
  a caller may list, with a per-caller cache; \<open>models/protocols/visibility.py\<close> turns the resulting
  filter into an allowlist of ids.  Clocks are in microseconds.
\<close>

section \<open>Search scope\<close>

text \<open>\<open>principal_role\<close> may be absent, one role or a list of roles.\<close>

datatype role_state = NoRole | OneRole string | Roles "string list"

definition principals_from_request_state :: "string option \<Rightarrow> role_state \<Rightarrow> string list" where
  "principals_from_request_state principal_id principal_role =
     (case nonempty principal_id of None \<Rightarrow> [] | Some p \<Rightarrow> [p]) @
     (case principal_role of Roles rs \<Rightarrow> rs | OneRole r \<Rightarrow> (if r = [] then [] else [r]) | NoRole \<Rightarrow> [])"

text \<open>
  \<open>IamModule.compile_read_filter\<close>; the engine is \<open>None\<close> until the policy service has been started.
\<close>

record iam_module =
  im_lib :: pylib
  im_registry :: "(string \<times> compiler) list"
  im_engine :: "iam_store option"

definition module_compile_read_filter ::
  "iam_module \<Rightarrow> string list \<Rightarrow> string option \<Rightarrow> string option \<Rightarrow> principal option \<Rightarrow> string option \<Rightarrow> py_exn + access_filter" where
  "module_compile_read_filter M principals catalog_id collection_id pr principal_id =
     (case im_engine M of
        None \<Rightarrow> Inr (deny_everything False)
      | Some st \<Rightarrow> compile_read_filter (im_lib M) (im_registry M) st principals catalog_id collection_id None pr principal_id)"

definition compile_read_access_filter ::
  "iam_module option \<Rightarrow> string option \<Rightarrow> string list \<Rightarrow> string list \<Rightarrow> principal option \<Rightarrow> py_exn + access_filter" where
  "compile_read_access_filter perms catalog_id collections principals pr =
     (case perms of
        None \<Rightarrow> Inr (deny_everything False)
      | Some M \<Rightarrow>
          (case collections of
             [] \<Rightarrow> module_compile_read_filter M principals catalog_id None pr None
           | [c] \<Rightarrow> module_compile_read_filter M principals catalog_id (Some c) pr None
           | _ \<Rightarrow>
               bind_e (map_e (\<lambda>c. module_compile_read_filter M principals catalog_id (Some c) pr None) collections)
                 (\<lambda>subs. Inr (union_of subs))))"

text \<open>
  \<open>collection_uses_pg_access_envelope\<close>: a driver without a configuration accessor is \<open>None\<close>; the
  configuration may fail to load.
\<close>

definition collection_uses_pg_access_envelope :: "py_exn + (py_exn + string list) option list \<Rightarrow> bool" where
  "collection_uses_pg_access_envelope resolved =
     (case resolved of
        Inl _ \<Rightarrow> False
      | Inr drivers \<Rightarrow>
          list_ex (\<lambda>d. case d of Some (Inr types) \<Rightarrow> ''access_envelope'' \<in> set types | _ \<Rightarrow> False) drivers)"

section \<open>Listing filters\<close>

record request_visibility =
  rv_principals :: "string list"
  rv_principal :: "principal option"
  rv_principal_id :: "string option"

definition rv_cache_key :: "request_visibility \<Rightarrow> string list" where
  "rv_cache_key v = sort (rv_principals v) @ [case rv_principal_id v of None \<Rightarrow> [] | Some p \<Rightarrow> p]"

definition ids_filter :: "string list \<Rightarrow> access_filter" where
  "ids_filter shown =
     (if shown = [] then deny_everything False
      else from_clauses [AccessClause [FieldPredicate ''id'' (sort shown)]] [] False)"

definition compile_scope :: "iam_module \<Rightarrow> request_visibility \<Rightarrow> string option \<Rightarrow> string option \<Rightarrow> py_exn + access_filter" where
  "compile_scope M v catalog_id collection_id =
     module_compile_read_filter M (rv_principals v) catalog_id collection_id (rv_principal v) (rv_principal_id v)"

text \<open>
  The paged enumeration of ids: pages of 500 until a short page or 10000 entries.  The argument
  \<open>page\<close> is the listing call with the given offset.
\<close>

function enumerate_ids :: "(nat \<Rightarrow> py_exn + string list) \<Rightarrow> nat \<Rightarrow> py_exn + string list" where
  "enumerate_ids page offset =
     (if offset < 10000 then
        bind_e (page offset) (\<lambda>ids.
          if ids = [] \<or> length ids < 500 then Inr ids
          else bind_e (enumerate_ids page (offset + 500)) (\<lambda>rest. Inr (ids @ rest)))
      else Inr [])"
  by pat_completeness auto

termination by (relation "measure (\<lambda>(p, n). 10000 - n)") auto

declare enumerate_ids.simps [simp del]

text \<open>The ids whose scope does not compile to \<open>deny_everything\<close>.\<close>

definition visible_ids :: "(string \<Rightarrow> py_exn + access_filter) \<Rightarrow> string list \<Rightarrow> py_exn + string list" where
  "visible_ids scope ids =
     bind_e (map_e scope ids) (\<lambda>fs. Inr (map fst (filter (\<lambda>(i, f). \<not> deny_all f) (zip ids fs))))"

definition compute_catalog_filter ::
  "iam_module \<Rightarrow> (nat \<Rightarrow> py_exn + string list) \<Rightarrow> request_visibility \<Rightarrow> py_exn + access_filter" where
  "compute_catalog_filter M list_catalogs v =
     bind_e (compile_scope M v None None) (\<lambda>platform.
       if allow_all platform \<and> deny platform = [] \<and> union_subs platform = [] then Inr allow_everything
       else bind_e (enumerate_ids list_catalogs 0) (\<lambda>ids.
            bind_e (visible_ids (\<lambda>c. compile_scope M v (Some c) None) ids) (\<lambda>shown. Inr (ids_filter shown))))"

definition compute_collection_filter ::
  "iam_module \<Rightarrow> (nat \<Rightarrow> py_exn + string list) \<Rightarrow> request_visibility \<Rightarrow> string \<Rightarrow> py_exn + access_filter" where
  "compute_collection_filter M list_collections v catalog_id =
     bind_e (compile_scope M v (Some catalog_id) None) (\<lambda>cat_scope.
       if deny_all cat_scope then Inr (deny_everything False)
       else bind_e (enumerate_ids list_collections 0) (\<lambda>ids.
            bind_e (visible_ids (\<lambda>c. compile_scope M v (Some catalog_id) (Some c)) ids) (\<lambda>shown. Inr (ids_filter shown))))"

text \<open>
  The per-asset call passes the keyword \<open>asset_id\<close>, which \<open>IamModule.compile_read_filter\<close> does not
  declare: Python raises \<open>TypeError\<close> before the body runs.
\<close>

definition compile_asset :: "iam_module \<Rightarrow> request_visibility \<Rightarrow> string \<Rightarrow> string option \<Rightarrow> string \<Rightarrow> py_exn + access_filter" where
  "compile_asset M v catalog_id collection_id asset_id = Inl TypeError"

definition compute_asset_filter ::
  "iam_module \<Rightarrow> (nat \<Rightarrow> py_exn + string list) \<Rightarrow> request_visibility \<Rightarrow> string \<Rightarrow> string option \<Rightarrow> py_exn + access_filter" where
  "compute_asset_filter M list_assets v catalog_id collection_id =
     bind_e (compile_scope M v (Some catalog_id) collection_id) (\<lambda>col_scope.
       if deny_all col_scope then Inr (deny_everything False)
       else bind_e (enumerate_ids list_assets 0) (\<lambda>ids.
            bind_e (visible_ids (compile_asset M v catalog_id collection_id) ids) (\<lambda>shown. Inr (ids_filter shown))))"

section \<open>The cache\<close>

type_synonym vis_cache = "(string list \<times> int \<times> access_filter) list"

definition ttl_micros :: int where "ttl_micros = 60000000"

definition cache_maxsize :: nat where "cache_maxsize = 512"

definition cache_pop :: "string list \<Rightarrow> vis_cache \<Rightarrow> vis_cache" where
  "cache_pop key c = filter (\<lambda>e. fst e \<noteq> key) c"

definition cache_get :: "string list \<Rightarrow> int \<Rightarrow> vis_cache \<Rightarrow> access_filter option \<times> vis_cache" where
  "cache_get key now c =
     (case map_of c key of
        None \<Rightarrow> (None, c)
      | Some (expiry, af) \<Rightarrow> if expiry < now then (None, cache_pop key c) else (Some af, c))"

fun evict_oldest :: "vis_cache \<Rightarrow> vis_cache" where
  "evict_oldest c = (if length c \<ge> cache_maxsize then (case c of [] \<Rightarrow> [] | _ # rest \<Rightarrow> evict_oldest rest) else c)"

declare evict_oldest.simps [simp del]

definition cache_put :: "string list \<Rightarrow> access_filter \<Rightarrow> int \<Rightarrow> vis_cache \<Rightarrow> vis_cache" where
  "cache_put key af now c =
     (let c1 = (if length c \<ge> cache_maxsize
                then evict_oldest (filter (\<lambda>e. \<not> fst (snd e) < now) c) else c)
      in dset key (now + ttl_micros, af) c1)"

text \<open>
  The three entry points share their shape: the cache, then the computation, where any exception
  denies and is not cached.  \<open>t1\<close> and \<open>t2\<close> are the clock at the lookup and at the store.
\<close>

definition cached_filter :: "string list \<Rightarrow> py_exn + access_filter \<Rightarrow> int \<Rightarrow> int \<Rightarrow> vis_cache \<Rightarrow> access_filter \<times> vis_cache" where
  "cached_filter key compute t1 t2 c =
     (case cache_get key t1 c of
        (Some af, c') \<Rightarrow> (af, c')
      | (None, c') \<Rightarrow>
          (case compute of
             Inl _ \<Rightarrow> (deny_everything False, c')
           | Inr af \<Rightarrow> (af, cache_put key af t2 c')))"

definition catalog_listing_filter ::
  "iam_module \<Rightarrow> (nat \<Rightarrow> py_exn + string list) \<Rightarrow> request_visibility \<Rightarrow> int \<Rightarrow> int \<Rightarrow> vis_cache \<Rightarrow> access_filter \<times> vis_cache" where
  "catalog_listing_filter M list_catalogs v =
     cached_filter (''catalog'' # rv_cache_key v) (compute_catalog_filter M list_catalogs v)"

definition collection_listing_filter ::
  "iam_module \<Rightarrow> (nat \<Rightarrow> py_exn + string list) \<Rightarrow> request_visibility \<Rightarrow> string \<Rightarrow> int \<Rightarrow> int \<Rightarrow> vis_cache \<Rightarrow> access_filter \<times> vis_cache" where
  "collection_listing_filter M list_collections v catalog_id =
     cached_filter (''collection'' # catalog_id # rv_cache_key v) (compute_collection_filter M list_collections v catalog_id)"

definition asset_listing_filter ::
  "iam_module \<Rightarrow> (nat \<Rightarrow> py_exn + string list) \<Rightarrow> request_visibility \<Rightarrow> string \<Rightarrow> string option \<Rightarrow> int \<Rightarrow> int \<Rightarrow> vis_cache \<Rightarrow>
   access_filter \<times> vis_cache" where
  "asset_listing_filter M list_assets v catalog_id collection_id =
     cached_filter (''asset'' # catalog_id # (case collection_id of None \<Rightarrow> [] | Some c \<Rightarrow> c) # rv_cache_key v)
       (compute_asset_filter M list_assets v catalog_id collection_id)"

section \<open>The id allowlist\<close>

text \<open>The process-wide counters of listings that failed closed, by reason.\<close>

definition signal_fail_closed :: "string \<Rightarrow> (string \<times> nat) list \<Rightarrow> (string \<times> nat) list" where
  "signal_fail_closed reason counts = dset reason (dget_or counts reason 0 + 1) counts"

definition id_values :: "string \<Rightarrow> clause \<Rightarrow> string list" where
  "id_values field c =
     (case predicates c of
        [FieldPredicate f vs] \<Rightarrow> if f = field then vs else []
      | _ \<Rightarrow> [])"

definition extract_id_constraint ::
  "access_filter \<Rightarrow> string \<Rightarrow> (string \<times> nat) list \<Rightarrow> string set option \<times> (string \<times> nat) list" where
  "extract_id_constraint af field counts =
     (if deny_all af then (Some {}, counts)
      else if is_unconditional af then (None, counts)
      else if union_subs af \<noteq> [] \<or> deny af \<noteq> [] \<or> allow_all af then
        (Some {}, signal_fail_closed ''unsupported_filter_shape'' counts)
      else (Some (set (concat (map (id_values field) (allow af)))), counts))"

text \<open>
  \<open>_resolve_listing_ids\<close>: no snapshot means no filtering, a missing or failing provider an empty list.
\<close>

definition resolve_listing_ids ::
  "request_visibility option \<Rightarrow> (request_visibility \<Rightarrow> py_exn + access_filter) option \<Rightarrow> (string \<times> nat) list \<Rightarrow>
   string set option \<times> (string \<times> nat) list" where
  "resolve_listing_ids visibility provider counts =
     (case visibility of
        None \<Rightarrow> (None, counts)
      | Some v \<Rightarrow>
          (case provider of
             None \<Rightarrow> (Some {}, signal_fail_closed ''provider_missing'' counts)
           | Some listing \<Rightarrow>
               (case listing v of
                  Inl _ \<Rightarrow> (Some {}, signal_fail_closed ''provider_error'' counts)
                | Inr af \<Rightarrow> extract_id_constraint af ''id'' counts)))"

section \<open>Tenant isolation\<close>

definition pinned :: "pylib \<Rightarrow> string option \<Rightarrow> string option \<Rightarrow> clause \<Rightarrow> bool" where
  "pinned L cat col c \<longleftrightarrow> set (scope_predicates cat col) \<subseteq> set (predicates c)"

lemma scope_clause_pinned [simp]: "pinned L cat col (scope_clause ps cat col)"
  by (simp add: pinned_def scope_clause_def)

lemma attribute_clauses_pinned:
  "list_all (pinned L cat col) clauses \<Longrightarrow>
   list_all (pinned L cat col) (fst (attribute_clauses_loop reg st cat col rows clauses unc))"
  by (induction rows arbitrary: clauses unc) (auto simp: Let_def split: sum.splits prod.splits bool.splits)

lemma compile_grant_clauses_pinned:
  "list_all (pinned L cat col) (fst (compile_grant_attribute_clauses reg st pid schema cat col))"
  by (auto simp: compile_grant_attribute_clauses_def attribute_clauses_pinned split: option.splits sum.splits)

lemma pinned_matches:
  assumes "pinned L (Some cat) col c" "clause_matches L c d = Some True"
  shows "field_matches ''catalog_id'' [cat] d \<and> (\<forall>x. col = Some x \<longrightarrow> field_matches ''collection_id'' [x] d)"
  using assms all_m_TrueD [of "\<lambda>p. pred_matches L p d" "predicates c"]
  by (fastforce simp: pinned_def clause_matches_def scope_predicates_def split: option.splits)

lemma compile_read_filter_pinned:
  assumes "compile_read_filter L reg st principals (Some cat) col asset pr pid = Inr f" "admits L f d = Some True"
  shows "field_matches ''catalog_id'' [cat] d \<and> (\<forall>x. col = Some x \<longrightarrow> field_matches ''collection_id'' [x] d)"
proof -
  obtain schema pols s where s: "policy_scan L (case pr of None \<Rightarrow> [] | Some p \<Rightarrow> pr_attributes p)
        (read_scope_probe_paths (Some cat) col asset) (Some cat) col pols [] [] False False = Inr s"
      and f: "f = scan_filter (compile_grant_attribute_clauses reg st pid schema (Some cat) col) s"
    using assms(1) by (auto simp: compile_read_filter_def elim!: bind_e_InrE)
  obtain al de unc aa where go: "s = Go al de unc aa"
    using s f assms(2) by (cases s) (auto simp: scan_filter_def deny_everything_def dest!: policy_scan_stop)
  have "\<not> aa" using policy_scan_allow [OF s [unfolded go]] by (auto simp: scope_predicates_def)
  moreover have "list_all (pinned L (Some cat) col) al"
    using policy_scan_allow [OF s [unfolded go]] by (auto simp: list_all_iff)
  moreover have "any_m (\<lambda>c. clause_matches L c d) (al @ fst (compile_grant_attribute_clauses reg st pid schema (Some cat) col))
      = Some True" if "\<not> aa"
    using assms(2) f go that
    by (auto simp: scan_filter_def deny_everything_def from_clauses_def Let_def split: if_splits option.splits)
  ultimately obtain c where "c \<in> set (al @ fst (compile_grant_attribute_clauses reg st pid schema (Some cat) col))"
      "clause_matches L c d = Some True" "list_all (pinned L (Some cat) col) al"
    using any_m_TrueD by blast
  then show ?thesis
    using pinned_matches compile_grant_clauses_pinned [of L "Some cat" col reg st pid schema]
    by (auto simp: list_all_iff)
qed

lemma module_filter_pinned:
  assumes "module_compile_read_filter M principals (Some cat) col pr pid = Inr f" "admits (im_lib M) f d = Some True"
  shows "field_matches ''catalog_id'' [cat] d \<and> (\<forall>x. col = Some x \<longrightarrow> field_matches ''collection_id'' [x] d)"
  using assms compile_read_filter_pinned
  by (fastforce simp: module_compile_read_filter_def deny_everything_def split: option.splits)

lemma admits_union_ofD:
  "admits L (union_of subs) d = Some True \<Longrightarrow> \<exists>s\<in>set subs. admits L s d = Some True"
proof -
  let ?live = "filter (\<lambda>s. \<not> deny_all s) subs"
  assume a: "admits L (union_of subs) d = Some True"
  show ?thesis
  proof (cases "\<exists>x y zs. ?live = x # y # zs")
    case True
    then obtain x y zs where l: "?live = x # y # zs" by blast
    then have "any_m (\<lambda>s. admits L s d) ?live = Some True" using a by (simp add: union_of_def Let_def)
    then have "\<exists>s\<in>set ?live. admits L s d = Some True" by (rule any_m_TrueD)
    then show ?thesis by auto
  next
    case False
    then consider "?live = []" | x where "?live = [x]" by (metis neq_Nil_conv)
    then show ?thesis
    proof cases
      case 1
      then show ?thesis using a by (simp add: union_of_def Let_def deny_everything_def)
    next
      case (2 x)
      then have "x \<in> set subs" by (metis filter_is_subset in_mono list.set_intros(1))
      moreover have "admits L x d = Some True" using a 2 by (simp add: union_of_def Let_def split: if_splits)
      ultimately show ?thesis by blast
    qed
  qed
qed

text \<open>
  C10.  Tenant isolation of the search scope.  Whatever the policies, conditions and grants, a filter
  compiled for a catalog admits only documents of that catalog, and one compiled for a list of
  collections only documents of one of those collections.
\<close>

theorem read_scope_isolated:
  assumes "compile_read_access_filter (Some M) (Some cat) collections principals pr = Inr f"
    and "admits (im_lib M) f d = Some True"
  shows "field_matches ''catalog_id'' [cat] d \<and>
         (collections \<noteq> [] \<longrightarrow> (\<exists>c\<in>set collections. field_matches ''collection_id'' [c] d))"
proof (cases "\<exists>x y zs. collections = x # y # zs")
  case True
  then obtain subs where subs: "map_e (\<lambda>c. module_compile_read_filter M principals (Some cat) (Some c) pr None) collections = Inr subs"
      "f = union_of subs"
    using assms(1) by (auto simp: compile_read_access_filter_def elim!: bind_e_InrE split: sum.splits)
  obtain s where s: "s \<in> set subs" "admits (im_lib M) s d = Some True"
    using admits_union_ofD assms(2) subs(2) by blast
  then obtain c where "c \<in> set collections" "module_compile_read_filter M principals (Some cat) (Some c) pr None = Inr s"
    using map_e_InrD [OF subs(1)] by blast
  then show ?thesis using module_filter_pinned s(2) by blast
next
  case False
  then consider "collections = []" | c where "collections = [c]" by (metis neq_Nil_conv)
  then show ?thesis
    by cases (use assms module_filter_pinned in \<open>fastforce simp: compile_read_access_filter_def\<close>)+
qed

definition pub_module :: iam_module where
  "pub_module = \<lparr>im_lib = plain_lib, im_registry = [], im_engine = Some pub_store\<rparr>"

definition col_doc :: doc where
  "col_doc = [''catalog_id'' \<mapsto> DScalar (SStr ''c''), ''collection_id'' \<mapsto> DScalar (SStr ''a''), ''visibility'' \<mapsto> DScalar (SStr ''public'')]"

lemma wild_relevant [simp]:
  "paths \<noteq> [] \<Longrightarrow> policy_matches_read_scope plain_lib (mk_pol i e prio [''.*''] conds) paths"
  by (cases paths) (simp_all add: policy_matches_read_scope_def matches_resource_def plain_lib_def)

lemma probe_paths_not_Nil [simp]: "read_scope_probe_paths cat col asset \<noteq> []"
  by (simp add: read_scope_probe_paths_def split: option.splits)

lemma pub_resolve_col:
  "resolve_effective_policies plain_lib pub_store [''viewer''] ''iam'' (Some ''c'') [] None col ctx =
     (Inr [mk_pol ''p1'' ALLOW 0 [''.*''] [public_cond], mk_pol ''p2'' DENY 0 [''.*''] [dept_cond]], ctx)"
  by (simp add: pub_store_def demo_simps validate_schema_name_def schema_ident_def ident_start_def ident_char_def)

lemma pub_module_filter:
  "module_compile_read_filter pub_module [''viewer''] (Some ''c'') (Some x) None None =
     Inr (AccessFilter False False
       [AccessClause [FieldPredicate ''catalog_id'' [''c''], FieldPredicate ''collection_id'' [x], FieldPredicate ''visibility'' [''public'']]]
       [] False [])"
  by (simp add: module_compile_read_filter_def pub_module_def compile_read_filter_def pub_resolve(1) pub_resolve_col pub_compile
      scope_clause_def scope_predicates_def scan_filter_def from_clauses_def compile_grant_attribute_clauses_def)

theorem read_scope_isolated_witness:
  "\<exists>f. compile_read_access_filter (Some pub_module) (Some ''c'') [''a'', ''b''] [''viewer''] None = Inr f \<and>
       admits (im_lib pub_module) f col_doc = Some True \<and>
       field_matches ''catalog_id'' [''c''] col_doc \<and> (\<exists>c\<in>set [''a'', ''b'']. field_matches ''collection_id'' [c] col_doc)"
proof -
  let ?f = "\<lambda>x. AccessFilter False False
       [AccessClause [FieldPredicate ''catalog_id'' [''c''], FieldPredicate ''collection_id'' [x], FieldPredicate ''visibility'' [''public'']]]
       [] False []"
  have 1: "compile_read_access_filter (Some pub_module) (Some ''c'') [''a'', ''b''] [''viewer''] None = Inr (union_of [?f ''a'', ?f ''b''])"
    by (simp add: compile_read_access_filter_def pub_module_filter)
  have 2: "admits (im_lib pub_module) (union_of [?f ''a'', ?f ''b'']) col_doc = Some True"
    by (simp add: union_of_def pub_module_def clause_matches_def field_matches_def col_doc_def doc_get_def)
  show ?thesis using read_scope_isolated [OF 1 2] 1 2 by auto
qed

section \<open>Listings\<close>

lemma flat_policies_grants: "flat_policies (st\<lparr>is_grants := g\<rparr>) ps schema cat custom = flat_policies st ps schema cat custom"
proof -
  have rs: "resolve_schema (st\<lparr>is_grants := g\<rparr>) cat strict = resolve_schema st cat strict" for cat strict
    by (cases "nonempty cat") (simp_all add: resolve_schema_def)
  have gp: "get_policy (st\<lparr>is_grants := g\<rparr>) i cat = get_policy st i cat" for i cat
    by (simp add: get_policy_def rs)
  have fp: "fetch_policy (st\<lparr>is_grants := g\<rparr>) cat i = fetch_policy st cat i" for cat i
    unfolding fetch_policy_def gp ..
  have ap: "add_policies (st\<lparr>is_grants := g\<rparr>) cat dn ids acc = add_policies st cat dn ids acc" for cat dn ids acc
    by (induction ids arbitrary: acc) (auto simp: fp split: sum.splits option.splits)
  have rr: "resolve_roles (st\<lparr>is_grants := g\<rparr>) xs ids rs = resolve_roles st xs ids rs" for xs ids rs
    by (induction st xs ids rs rule: resolve_roles.induct) (auto split: sum.splits option.splits)
  show ?thesis by (simp add: flat_policies_def rr ap)
qed

text \<open>
  The search scope never looks at grants: the compiled filter is the same whatever the grants
  table holds, so a deny grant that makes the engine refuse a collection does not remove its
  documents from search.
\<close>

theorem read_scope_ignores_grants:
  "compile_read_access_filter (Some \<lparr>im_lib = L, im_registry = reg, im_engine = Some (st\<lparr>is_grants := g\<rparr>)\<rparr>) cat cols principals pr
   = compile_read_access_filter (Some \<lparr>im_lib = L, im_registry = reg, im_engine = Some st\<rparr>) cat cols principals pr"
proof -
  have rs: "resolve_schema (st\<lparr>is_grants := g\<rparr>) cat False = resolve_schema st cat False" for cat
    by (cases "nonempty cat") (simp_all add: resolve_schema_def)
  have "resolve_effective_policies L (st\<lparr>is_grants := g\<rparr>) principals schema cat custom None col None
        = resolve_effective_policies L st principals schema cat custom None col None" for schema custom col
    by (auto simp: resolve_effective_policies_def flat_policies_grants split: sum.splits)
  then have "module_compile_read_filter \<lparr>im_lib = L, im_registry = reg, im_engine = Some (st\<lparr>is_grants := g\<rparr>)\<rparr> principals cat col pr None
      = module_compile_read_filter \<lparr>im_lib = L, im_registry = reg, im_engine = Some st\<rparr> principals cat col pr None" for col
    by (simp add: module_compile_read_filter_def compile_read_filter_def rs compile_grant_attribute_clauses_def)
  then show ?thesis by (simp add: compile_read_access_filter_def split: list.splits)
qed

lemma visible_ids_asset: "visible_ids (compile_asset M v cat col) ids = (if ids = [] then Inr [] else Inl TypeError)"
  by (cases ids) (simp_all add: visible_ids_def compile_asset_def)

lemma compute_asset_denies: "compute_asset_filter M pages v cat col = Inr f \<Longrightarrow> f = deny_everything False"
  by (auto simp: compute_asset_filter_def visible_ids_asset ids_filter_def elim!: bind_e_InrE split: if_splits)

text \<open>
  Asset listings are always empty while authorization is active: on a cache miss the asset
  filter is \<open>deny_everything\<close> for every caller, platform administrators included, because the
  per-asset compilation always fails.
\<close>

theorem asset_listing_always_denied:
  assumes "fst (cache_get (''asset'' # cat # (case col of None \<Rightarrow> [] | Some c \<Rightarrow> c) # rv_cache_key v) t1 c) = None"
  shows "fst (asset_listing_filter M pages v cat col t1 t2 c) = deny_everything False"
  using assms compute_asset_denies [of M pages v cat col]
  by (auto simp: asset_listing_filter_def cached_filter_def split: prod.splits sum.splits option.splits)

theorem asset_listing_always_denied_witness:
  "fst (asset_listing_filter pub_module (\<lambda>_. Inr [''asset-1'']) \<lparr>rv_principals = [''viewer''], rv_principal = None, rv_principal_id = None\<rparr>
      ''c'' (Some ''a'') 0 0 []) = deny_everything False"
  by (rule asset_listing_always_denied) (simp add: cache_get_def)

definition b_denied :: "policy list" where
  "b_denied = [mk_pol ''p1'' ALLOW 0 [''.*''] [],
     mk_pol ''p2'' DENY 0 [''/stac/catalogs/c/collections/b'', ''/features/catalogs/c/collections/b''] []]"

definition b_store :: iam_store where
  "b_store = demo_store Map.empty (\<lambda>_. Inr None) (Inr [])"

definition b_module :: iam_module where
  "b_module = \<lparr>im_lib = plain_lib, im_registry = [], im_engine = Some b_store\<rparr>"

definition b_visibility :: request_visibility where
  "b_visibility = \<lparr>rv_principals = [], rv_principal = Some (code_principal\<lparr>pr_custom_policies := b_denied\<rparr>), rv_principal_id = None\<rparr>"

lemma b_resolve:
  "resolve_schema b_store (Some ''c'') False = Inr ''iam''"
  "resolve_effective_policies plain_lib b_store [] ''iam'' (Some ''c'') b_denied None col ctx = (Inr b_denied, ctx)"
  by (simp_all add: b_store_def demo_simps validate_schema_name_def schema_ident_def ident_start_def ident_char_def)

lemma plain_re_match: "re_match plain_lib p s = Some (p = ''.*'' \<or> prefix p s)"
  by (simp add: plain_lib_def)

lemma b_scope:
  "compile_scope b_module b_visibility (Some ''c'') None =
     Inr (AccessFilter False False [scope_clause [] (Some ''c'') None] [] False [])"
  "compile_scope b_module b_visibility (Some ''c'') (Some ''a'') =
     Inr (AccessFilter False False [scope_clause [] (Some ''c'') (Some ''a'')] [] False [])"
  "compile_scope b_module b_visibility (Some ''c'') (Some ''b'') =
     Inr (AccessFilter False False [scope_clause [] (Some ''c'') (Some ''b'')] [scope_clause [] (Some ''c'') (Some ''b'')] False [])"
  by (simp_all add: compile_scope_def module_compile_read_filter_def compile_read_filter_def b_module_def b_visibility_def
      b_resolve code_principal_def compile_grant_attribute_clauses_def)
     (simp_all add: b_denied_def compile_conditions_def predicate_result_def policy_has_read_action_def read_actions_def
      matches_action_def policy_matches_read_scope_def matches_resource_def plain_re_match read_scope_probe_paths_def nonempty_def
      scan_filter_def from_clauses_def scope_predicates_def Let_def)

text \<open>
  A collection that is denied to a caller is still listed.  The listing keeps every id whose
  scope is not literally \<open>deny_everything\<close>; where an ALLOW and a DENY both cover a collection, the
  compiled scope admits no document and the engine refuses the read, and the listing shows it.
\<close>

theorem denied_collection_listed:
  "compute_collection_filter b_module (\<lambda>_. Inr [''a'', ''b'']) b_visibility ''c'' = Inr (ids_filter [''a'', ''b''])
   \<and> (\<exists>f. compile_scope b_module b_visibility (Some ''c'') (Some ''b'') = Inr f \<and> (\<forall>d. admits plain_lib f d \<noteq> Some True))
   \<and> fst (evaluate_access (plain_env None 0) b_store [] ''/stac/catalogs/c/collections/b/items'' ''GET'' (Some ''c'') b_denied None
            (Some ''b'') (None, 0::nat)) = Inr (False, ''Explicit DENY by policy p2'')"
proof (intro conjI)
  show "compute_collection_filter b_module (\<lambda>_. Inr [''a'', ''b'']) b_visibility ''c'' = Inr (ids_filter [''a'', ''b''])"
    by (simp add: compute_collection_filter_def b_scope enumerate_ids.simps visible_ids_def)
  show "\<exists>f. compile_scope b_module b_visibility (Some ''c'') (Some ''b'') = Inr f \<and> (\<forall>d. admits plain_lib f d \<noteq> Some True)"
    by (simp add: b_scope split: option.splits)
  show "fst (evaluate_access (plain_env None 0) b_store [] ''/stac/catalogs/c/collections/b/items'' ''GET'' (Some ''c'') b_denied None
            (Some ''b'') (None, 0::nat)) = Inr (False, ''Explicit DENY by policy p2'')"
    by (simp add: evaluate_access_def b_resolve plain_env_def)
       (simp add: b_denied_def decide_access_def evaluate_all_def applies_to_def method_match_def matches_resource_def
          plain_lib_def run_simps better_def winner_def verdict_def)
qed

definition row_doc :: "string \<Rightarrow> doc" where
  "row_doc i = [''id'' \<mapsto> DScalar (SStr i)]"

lemma id_values_match:
  assumes "i \<in> set (id_values ''id'' c)"
  shows "clause_matches L c (row_doc i) = Some True"
proof -
  obtain vs where "predicates c = [FieldPredicate ''id'' vs]" "i \<in> set vs"
    using assms unfolding id_values_def
    by (cases "predicates c" rule: remdups_adj.cases) (auto split: predicate.splits if_splits)
  then show ?thesis by (simp add: clause_matches_def field_matches_def row_doc_def doc_get_def)
qed

text \<open>
  The projection of a listing filter to an allowlist never widens it: every id in the allowlist
  is a row the filter admits, and no restriction is only returned for a filter that admits every
  row.
\<close>

theorem extract_never_widens:
  assumes "wf_filter f"
  shows "case fst (extract_id_constraint f ''id'' counts) of
           None \<Rightarrow> \<forall>i. admits L f (row_doc i) = Some True
         | Some S \<Rightarrow> \<forall>i\<in>S. admits L f (row_doc i) = Some True"
proof (cases f)
  case (AccessFilter da aa al de unc un)
  have "admits L f (row_doc i) = Some True"
    if "\<not> da" "\<not> aa" "de = []" "un = []" "c \<in> set al" "i \<in> set (id_values ''id'' c)" for i c
  proof -
    have "clause_holds L c (row_doc i)"
      using id_values_match [OF that(6), of L] clause_matches_wf [of c L "row_doc i"] assms that(5) AccessFilter
      by (auto simp: list_all_iff)
    then have "visible L f (row_doc i)" using that(1-5) AccessFilter by (auto simp: list_ex_iff)
    then show ?thesis using admits_visible [OF assms] by simp
  qed
  then show ?thesis
    using AccessFilter by (auto simp: extract_id_constraint_def is_unconditional_def)
qed

theorem extract_never_widens_witness:
  "case fst (extract_id_constraint (ids_filter [''b'', ''a'']) ''id'' []) of
     None \<Rightarrow> \<forall>i. admits plain_lib (ids_filter [''b'', ''a'']) (row_doc i) = Some True
   | Some S \<Rightarrow> \<forall>i\<in>S. admits plain_lib (ids_filter [''b'', ''a'']) (row_doc i) = Some True"
  by (rule extract_never_widens) (simp add: ids_filter_def from_clauses_def wf_clause_def)

section \<open>Enumeration and cache\<close>

definition slice_pages :: "string list \<Rightarrow> nat \<Rightarrow> py_exn + string list" where
  "slice_pages xs offset = Inr (take 500 (drop offset xs))"

lemma enumerate_from:
  "n \<le> 20 \<Longrightarrow> enumerate_ids (slice_pages xs) (500 * n) = Inr (take (10000 - 500 * n) (drop (500 * n) xs))"
proof (induction "20 - n" arbitrary: n)
  case 0
  then show ?case by (simp add: enumerate_ids.simps)
next
  case (Suc k)
  then have n: "n < 20" by simp
  let ?p = "take 500 (drop (500 * n) xs)"
  have ih: "enumerate_ids (slice_pages xs) (500 * n + 500) = Inr (take (9500 - 500 * n) (drop (500 * n + 500) xs))"
    using Suc(1) [of "Suc n"] Suc(2) n by (simp add: algebra_simps)
  show ?case
  proof (cases "length ?p < 500")
    case True
    then have "length (drop (500 * n) xs) < 500" by simp
    moreover have "500 \<le> 10000 - 500 * n" using n by simp
    ultimately have "take (10000 - 500 * n) (drop (500 * n) xs) = drop (500 * n) xs" "?p = drop (500 * n) xs" by auto
    then show ?thesis using True n by (simp add: enumerate_ids.simps [of _ "500 * n"] slice_pages_def)
  next
    case False
    have "10000 - 500 * n = 500 + (9500 - 500 * n)" using n by simp
    then have "take (10000 - 500 * n) (drop (500 * n) xs) = ?p @ take (9500 - 500 * n) (drop (500 * n + 500) xs)"
      by (simp only: take_add drop_drop) (simp add: add.commute)
    moreover have "?p \<noteq> []" using False by auto
    ultimately show ?thesis
      using False n ih by (subst enumerate_ids.simps) (simp add: slice_pages_def)
  qed
qed

text \<open>
  The paged enumeration terminates and returns the first 10000 entries of the listing it pages
  through, each once and in order, whatever its length.
\<close>

theorem enumerate_ids_complete:
  "enumerate_ids (slice_pages xs) 0 = Inr (take 10000 xs)"
  using enumerate_from [of 0 xs] by simp

lemma evict_oldest_suffix: "\<exists>n. evict_oldest c = drop n c"
proof (induction c)
  case (Cons e c)
  then obtain n where "evict_oldest c = drop n c" by blast
  then have "evict_oldest (e # c) = (if length (e # c) \<ge> cache_maxsize then drop (Suc n) (e # c) else drop 0 (e # c))"
    by (simp add: evict_oldest.simps [of "e # c"])
  then show ?case by metis
qed (simp add: evict_oldest.simps)

lemma evict_oldest_length: "length (evict_oldest c) < cache_maxsize"
proof (induction c)
  case (Cons e c)
  then show ?case by (simp add: evict_oldest.simps [of "e # c"])
qed (simp add: evict_oldest.simps cache_maxsize_def)

definition cache_ok :: "vis_cache \<Rightarrow> bool" where
  "cache_ok c \<longleftrightarrow> distinct (map fst c) \<and> length c \<le> cache_maxsize"

lemma length_dset: "length (dset k v d) \<le> Suc (length d)"
  by (induction d) auto

lemma cache_put_ok:
  assumes "cache_ok c"
  shows "cache_ok (cache_put key af now c)"
proof -
  let ?c1 = "if length c \<ge> cache_maxsize then evict_oldest (filter (\<lambda>e. \<not> fst (snd e) < now) c) else c"
  obtain n where n: "evict_oldest (filter (\<lambda>e. \<not> fst (snd e) < now) c) = drop n (filter (\<lambda>e. \<not> fst (snd e) < now) c)"
    using evict_oldest_suffix by blast
  have "distinct (map fst (filter (\<lambda>e. \<not> fst (snd e) < now) c))"
    using assms by (simp add: cache_ok_def distinct_map_filter)
  then have "distinct (map fst ?c1)"
    using assms n by (auto simp: cache_ok_def drop_map [symmetric])
  moreover have "length ?c1 < cache_maxsize" using evict_oldest_length by auto
  ultimately show ?thesis
    using length_dset [of key "(now + ttl_micros, af)" ?c1] by (simp add: cache_ok_def cache_put_def Let_def del: dset.simps)
qed

lemma cache_get_ok: "cache_ok c \<Longrightarrow> cache_ok (snd (cache_get key now c))"
  by (auto simp: cache_ok_def cache_get_def cache_pop_def distinct_map_filter intro: le_trans [OF length_filter_le] split: option.splits)

text \<open>
  The per-caller cache keeps at most 512 entries with distinct keys through every operation, and
  what it serves is fresh: a stored filter is returned for its own key for 60 seconds and never
  after.
\<close>

theorem listing_cache_invariant:
  assumes "cache_ok c"
  shows "cache_ok (snd (cached_filter key compute t1 t2 c)) \<and> length (snd (cached_filter key compute t1 t2 c)) \<le> 512 \<and>
         fst (cache_get key now (cache_put key af t2 c)) = (if now \<le> t2 + 60000000 then Some af else None)"
proof (intro conjI)
  show ok: "cache_ok (snd (cached_filter key compute t1 t2 c))"
    using cache_get_ok [OF assms, of key t1] cache_put_ok
    by (auto simp: cached_filter_def split: prod.splits option.splits sum.splits)
  then show "length (snd (cached_filter key compute t1 t2 c)) \<le> 512"
    by (simp add: cache_ok_def cache_maxsize_def)
  show "fst (cache_get key now (cache_put key af t2 c)) = (if now \<le> t2 + 60000000 then Some af else None)"
    by (simp add: cache_get_def cache_put_def ttl_micros_def Let_def)
qed

theorem listing_cache_invariant_witness:
  "cache_ok (snd (cached_filter [''catalog'', ''viewer''] (Inr allow_everything) 0 0 [])) \<and>
   length (snd (cached_filter [''catalog'', ''viewer''] (Inr allow_everything) 0 0 [])) \<le> 512 \<and>
   fst (cache_get [''catalog'', ''viewer''] 61000000 (cache_put [''catalog'', ''viewer''] allow_everything 0 [])) = None"
  using listing_cache_invariant [of "[]" "[''catalog'', ''viewer'']" "Inr allow_everything" 0 0 61000000 allow_everything]
  by (simp add: cache_ok_def)

end
