(* ===== verification/Iam_Middleware.thy ===== *)
theory Iam_Middleware
  imports Listing_Visibility
begin

text \<open>
  The request gates of the IAM extension: \<open>IamMiddleware.dispatch\<close> (\<open>extensions/iam/middleware.py\<close>), which
  authenticates, evaluates policies and conditions and publishes the caller for listings, and
  \<open>TenantScopeMiddleware.dispatch\<close> with its route rules (\<open>tenant_scope_middleware.py\<close>,
  \<open>tenant_scope_registry.py\<close>).  A gate either answers itself or forwards the request; an exception
  that leaves the gate is a server error.  Authentication, the membership lookup and the handler
  behind the gates are parameters; request statistics and audit events are not modelled.
\<close>

section \<open>Requests and responses\<close>

record http_request =
  hr_method :: string
  hr_raw_path :: string
  hr_root_path :: string
  hr_query :: "(string \<times> string) list"
  hr_state_catalog :: "string option"
  hr_state_collection :: "string option"
  hr_request :: request

text \<open>\<open>Respond status detail headers\<close>; a detail taken from an exception's message is \<open>None\<close>.\<close>

datatype http_result =
    Respond nat "string option" "(string \<times> string) list"
  | Forward "request_visibility option" "(string \<times> string) list"

text \<open>What \<open>authenticate_and_get_role\<close> does: refuse the token, raise, or return roles and principal.\<close>

datatype auth = InvalidToken | AuthFails py_exn | Authenticated "string list" "principal option"

record 'w iam_env =
  ie_cond :: "'w cond_env"
  ie_store :: iam_store
  ie_ready :: bool
  ie_resolve_schema :: "string option \<Rightarrow> py_exn + string"
  ie_auth :: "http_request \<Rightarrow> auth"
  ie_catalog_roles :: "(string \<Rightarrow> string \<Rightarrow> py_exn + (string \<times> string list) list) option"
  ie_admin_role :: string
  ie_anonymous :: string
  ie_fresh :: nat

section \<open>Rate-limit headers\<close>

definition json_int :: "json \<Rightarrow> int option" where
  "json_int j = (case j of JScalar (SInt i) \<Rightarrow> Some i | _ \<Rightarrow> None)"

text \<open>
  The most restrictive inspection payload.  The payloads come from the two limit handlers, which
  report integers.
\<close>

fun best_inspection :: "dict list \<Rightarrow> dict \<Rightarrow> dict" where
  "best_inspection [] best = best"
| "best_inspection (entry # rest) best =
     (if jget entry ''type'' \<notin> {JStr ''rate_limit'', JStr ''max_count''} then best_inspection rest best
      else (case json_int (jget entry ''remaining'') of
              None \<Rightarrow> best_inspection rest best
            | Some r \<Rightarrow>
                (case json_int (jget best ''remaining'') of
                   None \<Rightarrow> best_inspection rest entry
                 | Some b \<Rightarrow> best_inspection rest (if r < b then entry else best))))"

definition build_rate_limit_headers :: "dict list \<Rightarrow> bool \<Rightarrow> int \<Rightarrow> (string \<times> string) list" where
  "build_rate_limit_headers inspections deny_flag now =
     (let best = best_inspection inspections [];
          reset_at = json_int (jget best ''reset_at'') in
      if best = [] then []
      else
        (case json_int (jget best ''limit'') of None \<Rightarrow> [] | Some l \<Rightarrow> [(''X-RateLimit-Limit'', int_str l)]) @
        (case json_int (jget best ''remaining'') of None \<Rightarrow> [] | Some r \<Rightarrow> [(''X-RateLimit-Remaining'', int_str (max r 0))]) @
        (case reset_at of None \<Rightarrow> [] | Some t \<Rightarrow> [(''X-RateLimit-Reset'', int_str t)]) @
        (if deny_flag \<and> jget best ''type'' = JStr ''rate_limit'' then
           (case reset_at of
              Some t \<Rightarrow> [(''Retry-After'', int_str (max (t - now) 1))]
            | None \<Rightarrow>
                [(''Retry-After'', int_str (case json_int (jget best ''window_seconds'') of
                     None \<Rightarrow> 60 | Some w \<Rightarrow> if w = 0 then 60 else w))])
         else []))"

section \<open>The IAM gate\<close>

definition catalog_admin_sentinel :: string where
  "catalog_admin_sentinel = ''catalog_admin''"

definition augment_with_catalog_sentinels :: "'w iam_env \<Rightarrow> string list \<Rightarrow> principal option \<Rightarrow> string list" where
  "augment_with_catalog_sentinels G roles pr =
     (case pr of
        None \<Rightarrow> roles
      | Some p \<Rightarrow>
          (case (nonempty (pr_provider p), nonempty (pr_subject_id p), ie_catalog_roles G) of
             (Some provider, Some subject, Some lookup) \<Rightarrow>
               (case lookup provider subject of
                  Inl _ \<Rightarrow> roles
                | Inr catalog_roles \<Rightarrow>
                    if \<not> list_ex (\<lambda>(c, rs). ie_admin_role G \<in> set rs) catalog_roles then roles
                    else if catalog_admin_sentinel \<in> set roles then roles
                    else roles @ [catalog_admin_sentinel])
           | _ \<Rightarrow> roles))"

text \<open>The path relative to the service root, and the scopes read off it.\<close>

definition service_path :: "http_request \<Rightarrow> string" where
  "service_path rq =
     (let root = hr_root_path rq; raw = hr_raw_path rq in
      if root \<noteq> [] \<and> root \<noteq> ''/'' \<and> prefix root raw
      then (let p = drop (length root) raw in if p = [] then ''/'' else p)
      else raw)"

definition path_segment_after :: "string \<Rightarrow> string \<Rightarrow> string option" where
  "path_segment_after name path =
     (if \<not> sublist (''/'' @ name @ ''/'') path then None
      else (case dropWhile (\<lambda>x. x \<noteq> name) (split_on CHR ''/'' path) of _ # x # _ \<Rightarrow> Some x | _ \<Rightarrow> None))"

definition request_catalog :: "http_request \<Rightarrow> string option" where
  "request_catalog rq =
     (case nonempty (hr_state_catalog rq) of
        Some c \<Rightarrow> Some c
      | None \<Rightarrow> (case path_segment_after ''catalogs'' (service_path rq) of Some c \<Rightarrow> Some c | None \<Rightarrow> hr_state_catalog rq))"

definition request_collection :: "http_request \<Rightarrow> string option" where
  "request_collection rq =
     (case nonempty (hr_state_collection rq) of
        Some c \<Rightarrow> Some c
      | None \<Rightarrow> (case nonempty (path_segment_after ''collections'' (service_path rq)) of
                  Some c \<Rightarrow> Some c | None \<Rightarrow> hr_state_collection rq))"

text \<open>
  \<open>(principal_obj.display_name or principal_obj.subject_id) if principal_obj else (roles[0] or anonymous)\<close>;
  a principal with neither name has no id, and limits scoped to the principal skip it.
\<close>

definition effective_principal_id :: "'w iam_env \<Rightarrow> string list \<Rightarrow> principal option \<Rightarrow> string option" where
  "effective_principal_id G roles pr =
     (case pr of
        Some p \<Rightarrow> (case nonempty (pr_display_name p) of Some n \<Rightarrow> Some n | None \<Rightarrow> pr_subject_id p)
      | None \<Rightarrow> Some (case roles of r # _ \<Rightarrow> r | [] \<Rightarrow> ie_anonymous G))"

text \<open>
  The identities checked, the caller's id in front of the roles.  Resolution skips every falsy
  identity, so a missing id stands in the list as the empty text; the listing cache key, which sorts the
  identities, is defined for callers that have an id.
\<close>

definition principals_to_check :: "'w iam_env \<Rightarrow> string list \<Rightarrow> principal option \<Rightarrow> string list" where
  "principals_to_check G roles pr =
     (case effective_principal_id G roles pr of None \<Rightarrow> [] | Some n \<Rightarrow> n) # roles"

definition request_ctx :: "'w iam_env \<Rightarrow> http_request \<Rightarrow> string list \<Rightarrow> principal option \<Rightarrow> eval_ctx" where
  "request_ctx G rq roles pr =
     \<lparr>cx_request = Some (hr_request rq), cx_principal_id = effective_principal_id G roles pr,
      cx_path = service_path rq, cx_method = hr_method rq, cx_query = hr_query rq, cx_requested_ttl = 0,
      cx_catalog_id = request_catalog rq, cx_principal = pr, cx_policy_of_config = (\<lambda>_. None),
      cx_extras = [''client_ip'' \<mapsto> JStr (case rq_host (hr_request rq) of None \<Rightarrow> ''unknown'' | Some h \<Rightarrow> h),
                   ''user_agent'' \<mapsto> JStr (case rq_header (hr_request rq) ''user-agent'' of None \<Rightarrow> [] | Some h \<Rightarrow> h),
                   ''referer'' \<mapsto> JStr (case rq_header (hr_request rq) ''referer'' of None \<Rightarrow> [] | Some h \<Rightarrow> h)],
      cx_effect = None, cx_quota = [], cx_quota_seen = [], cx_fresh = ie_fresh G\<rparr>"

text \<open>The policy ids of the principal's own conditions, later policies overwriting earlier ones.\<close>

fun map_all_configs :: "policy list \<Rightarrow> eval_ctx \<Rightarrow> eval_ctx" where
  "map_all_configs [] ctx = ctx"
| "map_all_configs (p # ps) ctx = map_all_configs ps (map_configs (pol_id p) (pol_conditions p) ctx)"

definition iam_status :: "py_exn \<Rightarrow> nat option" where
  "iam_status e =
     (case e of
        IamError \<Rightarrow> Some 500 | AccessDeniedError \<Rightarrow> Some 403 | RateLimitExceededError \<Rightarrow> Some 429
      | QuotaExceededError \<Rightarrow> Some 403 | _ \<Rightarrow> None)"

text \<open>Step 5 and the hand-over to the handler.\<close>

definition enforce_conditions ::
  "'w iam_env \<Rightarrow> condition list \<Rightarrow> eval_ctx \<Rightarrow> request_visibility \<Rightarrow> ('w, py_exn, http_result) run" where
  "enforce_conditions G conds ctx rv w =
     (if conds = [] then (Inr (Forward (Some rv) []), w)
      else (case evaluate_all (ie_cond G) (Some ctx) conds w of
              (Inl e, w1) \<Rightarrow>
                (case iam_status e of
                   Some st \<Rightarrow>
                     if st = 429 then
                       (case inspect_all (ie_cond G) ctx conds w1 of
                          (Inl e', w2) \<Rightarrow> (Inl e', w2)
                        | (Inr ins, w2) \<Rightarrow>
                            (Inr (Respond st None (build_rate_limit_headers ins True (en_now (ie_cond G) div 1000000))), w2))
                     else (Inr (Respond st None []), w1)
                 | None \<Rightarrow>
                     (Inr (Respond 403 (Some ''Access denied: authorization condition could not be evaluated.'') []), w1))
            | (Inr False, w1) \<Rightarrow> (Inr (Respond 429 (Some ''Rate limit or Quota exceeded.'') []), w1)
            | (Inr True, w1) \<Rightarrow>
                (case inspect_all (ie_cond G) ctx conds w1 of
                   (Inl _, w2) \<Rightarrow> (Inr (Forward (Some rv) []), w2)
                 | (Inr ins, w2) \<Rightarrow>
                     (Inr (Forward (Some rv) (build_rate_limit_headers ins False (en_now (ie_cond G) div 1000000))), w2))))"

definition authorize ::
  "'w iam_env \<Rightarrow> http_request \<Rightarrow> string list \<Rightarrow> principal option \<Rightarrow> ('w, py_exn, http_result) run" where
  "authorize G rq roles pr w =
     (let E = ie_cond G; path = service_path rq; meth = hr_method rq;
          custom = (case pr of None \<Rightarrow> [] | Some p \<Rightarrow> pr_custom_policies p);
          pid = (case pr of None \<Rightarrow> None | Some p \<Rightarrow> is_uuid (ie_store G) (pr_id p));
          principals = principals_to_check G roles pr;
          ctx = map_all_configs custom (request_ctx G rq roles pr);
          go = (\<lambda>w. case evaluate_access E (ie_store G) principals path meth (request_catalog rq) [] pid
                            (request_collection rq) (Some ctx, w) of
                  (Inl e, (_, w')) \<Rightarrow> (Inl e, w')
                | (Inr (False, reason), (_, w')) \<Rightarrow>
                    (Inr (Respond 403 (Some (''Access denied by Global Security policy: '' @ reason)) []), w')
                | (Inr (True, _), (ctx', w')) \<Rightarrow>
                    (case ctx' of
                       None \<Rightarrow> (Inl RuntimeError, w')
                     | Some cx \<Rightarrow>
                         enforce_conditions G (concat (map pol_conditions custom) @ cx_quota cx) cx
                           \<lparr>rv_principals = principals, rv_principal = pr, rv_principal_id = pid\<rparr> w'))
      in if custom = [] then go w
         else (case evaluate_policy_statements E custom meth path None w of
                 (Inl e, w') \<Rightarrow> (Inl e, w')
               | (Inr False, w') \<Rightarrow> (Inr (Respond 403 (Some ''Access denied by Principal policy.'') []), w')
               | (Inr True, w') \<Rightarrow> go w'))"

definition iam_dispatch :: "'w iam_env \<Rightarrow> http_request \<Rightarrow> ('w, py_exn, http_result) run" where
  "iam_dispatch G rq w =
     (if \<not> ie_ready G then (Inr (Forward None []), w)
      else (case ie_resolve_schema G (request_catalog rq) of
              Inl e \<Rightarrow> (Inl e, w)
            | Inr _ \<Rightarrow>
                (case ie_auth G rq of
                   InvalidToken \<Rightarrow> (Inr (Respond 401 None [(''WWW-Authenticate'', ''Bearer'')]), w)
                 | AuthFails e \<Rightarrow> (Inl e, w)
                 | Authenticated roles pr \<Rightarrow> authorize G rq (augment_with_catalog_sentinels G roles pr) pr w)))"

section \<open>The tenant-scope gate\<close>

text \<open>
  The compiled patterns as functions from a path to the named groups of the match.  The dollar sign
  also matches before a final line break, and the dot does not match a line break.
\<close>

definition nl :: char where "nl = CHR 0x0A"

definition tail_ok :: "string \<Rightarrow> bool" where
  "tail_ok rest \<longleftrightarrow>
     (case rest of
        [] \<Rightarrow> True
      | c # cs \<Rightarrow> c = CHR ''/'' \<and> nl \<notin> set (if cs \<noteq> [] \<and> last cs = nl then butlast cs else cs))"

definition strip_prefix :: "string \<Rightarrow> string \<Rightarrow> string option" where
  "strip_prefix p s = (if prefix p s then Some (drop (length p) s) else None)"

definition segment :: "string \<Rightarrow> string \<times> string" where
  "segment s = (takeWhile (\<lambda>c. c \<noteq> CHR ''/'') s, dropWhile (\<lambda>c. c \<noteq> CHR ''/'') s)"

type_synonym groups = "string \<Rightarrow> string option"

definition platform_pattern :: "string \<Rightarrow> groups option" where
  "platform_pattern path =
     (let s = (if path \<noteq> [] \<and> last path = nl then butlast path else path) in
      if \<exists>x\<in>{''stats'', ''logs'', ''events'', ''tasks'', ''ogc-compliance''}.
           s = ''/web/dashboard/'' @ x \<or> s = ''/web/dashboard/'' @ x @ ''/''
      then Some Map.empty else None)"

definition per_catalog_pattern :: "string \<Rightarrow> string \<Rightarrow> groups option" where
  "per_catalog_pattern base path =
     (case strip_prefix base path of
        None \<Rightarrow> None
      | Some s \<Rightarrow>
          (case segment s of (cat, rest) \<Rightarrow>
             if cat \<noteq> [] \<and> tail_ok rest then Some [''catalog_id'' \<mapsto> cat] else None))"

definition per_collection_pattern :: "string \<Rightarrow> groups option" where
  "per_collection_pattern path =
     (case strip_prefix ''/web/dashboard/catalogs/'' path of
        None \<Rightarrow> None
      | Some s \<Rightarrow>
          (case segment s of (cat, rest) \<Rightarrow>
             (case strip_prefix ''/collections/'' rest of
                None \<Rightarrow> None
              | Some t \<Rightarrow>
                  (case segment t of (col, rest') \<Rightarrow>
                     if cat \<noteq> [] \<and> col \<noteq> [] \<and> tail_ok rest'
                     then Some [''catalog_id'' \<mapsto> cat, ''collection_id'' \<mapsto> col] else None))))"

record tenant_rule =
  tr_id :: string
  tr_pattern :: "string \<Rightarrow> groups option"
  tr_catalog_source :: string
  tr_default :: string
  tr_allow_anonymous :: bool
  tr_collection_source :: "string option"

definition tenant_scoped_routes :: "tenant_rule list" where
  "tenant_scoped_routes =
     [\<lparr>tr_id = ''dashboard_platform'', tr_pattern = platform_pattern, tr_catalog_source = ''default:_system_'',
       tr_default = ''_system_'', tr_allow_anonymous = False, tr_collection_source = None\<rparr>,
      \<lparr>tr_id = ''dashboard_per_collection'', tr_pattern = per_collection_pattern, tr_catalog_source = ''regex_group:catalog_id'',
       tr_default = ''_system_'', tr_allow_anonymous = False, tr_collection_source = Some ''regex_group:collection_id''\<rparr>,
      \<lparr>tr_id = ''dashboard_per_catalog'', tr_pattern = per_catalog_pattern ''/web/dashboard/catalogs/'',
       tr_catalog_source = ''regex_group:catalog_id'',
       tr_default = ''_system_'', tr_allow_anonymous = False, tr_collection_source = None\<rparr>,
      \<lparr>tr_id = ''admin_per_catalog'', tr_pattern = per_catalog_pattern ''/admin/catalogs/'',
       tr_catalog_source = ''regex_group:catalog_id'',
       tr_default = ''_system_'', tr_allow_anonymous = False, tr_collection_source = None\<rparr>]"

definition match_tenant_scope_rule :: "string \<Rightarrow> tenant_rule option" where
  "match_tenant_scope_rule path = find (\<lambda>r. tr_pattern r path \<noteq> None) tenant_scoped_routes"

text \<open>\<open>source.partition(":")\<close>, and the value a source names.\<close>

definition source_kind :: "string \<Rightarrow> string" where
  "source_kind s = takeWhile (\<lambda>c. c \<noteq> CHR '':'') s"

definition source_key :: "string \<Rightarrow> string" where
  "source_key s = drop 1 (dropWhile (\<lambda>c. c \<noteq> CHR '':'') s)"

definition extract_from_source :: "http_request \<Rightarrow> tenant_rule \<Rightarrow> string \<Rightarrow> string option \<Rightarrow> string option" where
  "extract_from_source rq rule source dflt =
     (let kind = source_kind source; key = source_key source;
          or_dflt = (\<lambda>v. case v of None \<Rightarrow> dflt | Some x \<Rightarrow> Some x) in
      if kind = ''query'' then or_dflt (dget (hr_query rq) key)
      else if kind = ''header'' then or_dflt (rq_header (hr_request rq) key)
      else if kind = ''regex_group'' then
        (case tr_pattern rule (hr_raw_path rq) of
           None \<Rightarrow> dflt
         | Some g \<Rightarrow> or_dflt (nonempty (g key)))
      else if kind = ''default'' then (if key \<noteq> [] then Some key else dflt)
      else dflt)"

definition extract_catalog_id :: "http_request \<Rightarrow> tenant_rule \<Rightarrow> string" where
  "extract_catalog_id rq rule =
     (case nonempty (extract_from_source rq rule (tr_catalog_source rule) (Some (tr_default rule))) of
        None \<Rightarrow> tr_default rule | Some c \<Rightarrow> c)"

definition extract_collection_id :: "http_request \<Rightarrow> tenant_rule \<Rightarrow> string option" where
  "extract_collection_id rq rule =
     (case nonempty (tr_collection_source rule) of
        None \<Rightarrow> None | Some src \<Rightarrow> extract_from_source rq rule src None)"

text \<open>What the gate decides, with the scope it pins on the request.\<close>

datatype tenant_result = TenantRespond nat string | TenantForward

definition tenant_dispatch ::
  "'w cond_env \<Rightarrow> http_request \<Rightarrow> principal option \<Rightarrow> string list \<Rightarrow> tenant_result \<times> (string \<times> string option) option" where
  "tenant_dispatch E rq pr roles =
     (case match_tenant_scope_rule (hr_raw_path rq) of
        None \<Rightarrow> (TenantForward, None)
      | Some rule \<Rightarrow>
          (let catalog_id = extract_catalog_id rq rule;
               scope = Some (catalog_id, extract_collection_id rq rule) in
           (case pr of
              None \<Rightarrow>
                if \<not> tr_allow_anonymous rule then (TenantRespond 401 ''Authentication required'', scope)
                else (TenantForward, scope)
            | Some p \<Rightarrow>
                if en_sysadmin E \<in> set roles then (TenantForward, scope)
                else
                  (case en_membership E of
                     None \<Rightarrow> (TenantRespond 503 ''IAM service unavailable'', scope)
                   | Some lookup \<Rightarrow>
                       (case (nonempty (pr_provider p), nonempty (pr_subject_id p)) of
                          (Some provider, Some subject) \<Rightarrow>
                            (let m = lookup provider subject in
                             if ms_platform m then (TenantForward, scope)
                             else if catalog_id = ''_system_'' then
                               (TenantRespond 403 ''Platform-scope dashboard requires sysadmin'', scope)
                             else if catalog_id \<notin> set (ms_catalogs m) then
                               (TenantRespond 403 ''Not authorized for this catalog'', scope)
                             else (TenantForward, scope))
                        | _ \<Rightarrow> (TenantRespond 403 ''Identity not resolvable'', scope))))))"

section \<open>Complete mediation\<close>

text \<open>
  C4.  Complete mediation.  While authorization is active, a request reaches its handler only if
  authentication succeeded, the principal's own statements allow it, the policy engine allows it for
  exactly the principals that are then published for listings, and every collected condition, the
  principal's own and the quotas of its grants, passed.
\<close>

theorem iam_dispatch_mediates:
  assumes "ie_ready G" and "iam_dispatch G rq w = (Inr (Forward rv headers), w')"
  shows "\<exists>roles0 pr roles reason cx w1 w2.
    ie_auth G rq = Authenticated roles0 pr \<and> roles = augment_with_catalog_sentinels G roles0 pr \<and>
    (\<forall>p. pr = Some p \<longrightarrow> pr_custom_policies p \<noteq> [] \<longrightarrow>
       evaluate_policy_statements (ie_cond G) (pr_custom_policies p) (hr_method rq) (service_path rq) None w = (Inr True, w1)) \<and>
    evaluate_access (ie_cond G) (ie_store G) (principals_to_check G roles pr) (service_path rq) (hr_method rq)
      (request_catalog rq) [] (case pr of None \<Rightarrow> None | Some p \<Rightarrow> is_uuid (ie_store G) (pr_id p)) (request_collection rq)
      (Some (map_all_configs (case pr of None \<Rightarrow> [] | Some p \<Rightarrow> pr_custom_policies p) (request_ctx G rq roles pr)), w1)
      = (Inr (True, reason), (Some cx, w2)) \<and>
    (let conds = concat (map pol_conditions (case pr of None \<Rightarrow> [] | Some p \<Rightarrow> pr_custom_policies p)) @ cx_quota cx in
     conds \<noteq> [] \<longrightarrow> (\<exists>w3. evaluate_all (ie_cond G) (Some cx) conds w2 = (Inr True, w3))) \<and>
    (\<exists>v. rv = Some v \<and> rv_principals v = principals_to_check G roles pr \<and> rv_principal v = pr)"
proof -
  obtain roles0 pr where auth: "ie_auth G rq = Authenticated roles0 pr"
      and go: "authorize G rq (augment_with_catalog_sentinels G roles0 pr) pr w = (Inr (Forward rv headers), w')"
    using assms by (auto simp: iam_dispatch_def split: sum.splits auth.splits)
  define roles where "roles = augment_with_catalog_sentinels G roles0 pr"
  define custom where "custom = (case pr of None \<Rightarrow> [] | Some p \<Rightarrow> pr_custom_policies p)"
  define pid where "pid = (case pr of None \<Rightarrow> None | Some p \<Rightarrow> is_uuid (ie_store G) (pr_id p))"
  define ctx where "ctx = map_all_configs custom (request_ctx G rq roles pr)"
  let ?access = "\<lambda>w. evaluate_access (ie_cond G) (ie_store G) (principals_to_check G roles pr) (service_path rq)
      (hr_method rq) (request_catalog rq) [] pid (request_collection rq) (Some ctx, w)"
  obtain w1 reason cx w2 where stm: "custom \<noteq> [] \<Longrightarrow>
        evaluate_policy_statements (ie_cond G) custom (hr_method rq) (service_path rq) None w = (Inr True, w1)"
      and acc: "?access w1 = (Inr (True, reason), (Some cx, w2))"
      and enf: "enforce_conditions G (concat (map pol_conditions custom) @ cx_quota cx) cx
        \<lparr>rv_principals = principals_to_check G roles pr, rv_principal = pr, rv_principal_id = pid\<rparr> w2
        = (Inr (Forward rv headers), w')"
    using go unfolding authorize_def Let_def custom_def [symmetric] pid_def [symmetric] roles_def [symmetric] ctx_def [symmetric]
    by (cases "custom = []") (auto split: prod.splits sum.splits bool.splits option.splits)
  have "\<exists>w3. evaluate_all (ie_cond G) (Some cx) (concat (map pol_conditions custom) @ cx_quota cx) w2 = (Inr True, w3)"
    if "concat (map pol_conditions custom) @ cx_quota cx \<noteq> []"
    using enf that by (auto simp: enforce_conditions_def split: prod.splits sum.splits bool.splits option.splits if_splits)
  moreover have "rv = Some \<lparr>rv_principals = principals_to_check G roles pr, rv_principal = pr, rv_principal_id = pid\<rparr>"
    using enf by (auto simp: enforce_conditions_def split: prod.splits sum.splits bool.splits option.splits if_splits)
  ultimately show ?thesis
    using auth stm acc
    by (intro exI [of _ roles0] exI [of _ pr] exI [of _ roles] exI [of _ reason] exI [of _ cx] exI [of _ w1] exI [of _ w2])
       (auto simp: roles_def custom_def pid_def ctx_def Let_def)
qed

text \<open>A gate whose only stored policy allows everything to editors, and requests through it.\<close>

definition demo_gate :: "nat counter option \<Rightarrow> string list \<Rightarrow> principal option \<Rightarrow> nat iam_env" where
  "demo_gate ct roles pr =
     \<lparr>ie_cond = plain_env ct 0,
      ie_store = demo_store [''editor'' \<mapsto> [''p1'']] (\<lambda>i. Inr (Some (mk_pol i ALLOW 0 [''.*''] []))) (Inr []),
      ie_ready = True, ie_resolve_schema = (\<lambda>_. Inr ''iam''), ie_auth = (\<lambda>_. Authenticated roles pr),
      ie_catalog_roles = None, ie_admin_role = ''admin'', ie_anonymous = ''anonymous'', ie_fresh = 100\<rparr>"

definition demo_request :: "string \<Rightarrow> string option \<Rightarrow> http_request" where
  "demo_request path client =
     \<lparr>hr_method = ''GET'', hr_raw_path = path, hr_root_path = [], hr_query = [], hr_state_catalog = None,
      hr_state_collection = None,
      hr_request = \<lparr>rq_header = (\<lambda>h. if h = ''x-client'' then client else None), rq_host = None, rq_json = None\<rparr>\<rparr>"

definition demo_principal :: "policy list \<Rightarrow> principal" where
  "demo_principal custom =
     \<lparr>pr_id = ''u'', pr_provider = Some ''idp'', pr_subject_id = Some ''ann'', pr_display_name = None, pr_roles = [],
      pr_custom_policies = custom, pr_attributes = [], pr_is_active = True, pr_valid_until = None\<rparr>"

lemma path_segment_short: "length path < length name + 2 \<Longrightarrow> path_segment_after name path = None"
  by (auto simp: path_segment_after_def dest: sublist_length_le)

lemma demo_request_scope [simp]:
  "service_path (demo_request ''/x'' client) = ''/x''" "request_catalog (demo_request ''/x'' client) = None"
  "request_collection (demo_request ''/x'' client) = None" "hr_method (demo_request path client) = ''GET''"
  by (simp_all add: service_path_def request_catalog_def request_collection_def path_segment_short demo_request_def nonempty_def)

lemma demo_gate_sel [simp]:
  "ie_cond (demo_gate ct roles pr) = plain_env ct 0" "ie_ready (demo_gate ct roles pr)"
  "ie_store (demo_gate ct roles pr) =
     demo_store [''editor'' \<mapsto> [''p1'']] (\<lambda>i. Inr (Some (mk_pol i ALLOW 0 [''.*''] []))) (Inr [])"
  "ie_auth (demo_gate ct roles pr) rq = Authenticated roles pr" "ie_resolve_schema (demo_gate ct roles pr) cat = Inr ''iam''"
  "augment_with_catalog_sentinels (demo_gate ct roles pr) rs p = rs"
  by (simp_all add: demo_gate_def augment_with_catalog_sentinels_def split: option.splits)

lemma demo_principal_sel [simp]:
  "pr_custom_policies (demo_principal ps) = ps" "pr_id (demo_principal ps) = ''u''"
  "effective_principal_id G rs (Some (demo_principal ps)) = Some ''ann''"
  "principals_to_check G rs (Some (demo_principal ps)) = ''ann'' # rs"
  by (simp_all add: demo_principal_def principals_to_check_def effective_principal_id_def nonempty_def)

lemma plain_env_lib [simp]: "en_lib (plain_env ct now) = plain_lib" "en_plugins (plain_env ct now) t = None"
  by (simp_all add: plain_env_def)

lemma plain_lib_str: "lib_str plain_lib (JStr s) = s"
  by (simp add: plain_lib_def)

lemma request_ctx_sel [simp]:
  "cx_quota (request_ctx G rq rs pr) = []" "cx_request (request_ctx G rq rs pr) = Some (hr_request rq)"
  by (simp_all add: request_ctx_def)

lemma demo_header [simp]: "rq_header (hr_request (demo_request path client)) ''x-client'' = client"
  by (simp add: demo_request_def)

text \<open>The editor is allowed by the stored policy, whatever the context.\<close>

lemma demo_access [simp]:
  "evaluate_access (plain_env ct 0) (demo_store [''editor'' \<mapsto> [''p1'']] (\<lambda>i. Inr (Some (mk_pol i ALLOW 0 [''.*''] []))) (Inr []))
     [n, ''editor''] ''/x'' ''GET'' None [] pid None (Some cx, w) = (Inr (True, ''Allowed by policy p1''), (stamp (mk_pol ''p1'' ALLOW 0 [''.*''] []) (Some cx), w))"
  by (cases "n = ''editor''"; cases pid)
     (simp_all add: evaluate_access_def decide_access_def demo_simps Let_def evaluate_all_def verdict_def winner_def better_def)

theorem iam_dispatch_mediates_witness:
  "\<exists>roles0 pr reason cx w2.
    ie_auth (demo_gate None [''editor''] None) (demo_request ''/x'' None) = Authenticated roles0 pr \<and>
    fst (evaluate_access (plain_env None 0) (ie_store (demo_gate None [''editor''] None))
      [''editor'', ''editor''] ''/x'' ''GET'' None [] None None
      (Some (request_ctx (demo_gate None [''editor''] None) (demo_request ''/x'' None) [''editor''] None), w2)) = Inr (True, reason)"
proof -
  let ?G = "demo_gate None [''editor''] None" and ?rq = "demo_request ''/x'' None"
  obtain rv headers w' where "iam_dispatch ?G ?rq 0 = (Inr (Forward rv headers), w')"
    by (simp add: iam_dispatch_def authorize_def Let_def principals_to_check_def effective_principal_id_def stamp_def map_configs_def enforce_conditions_def)
  from iam_dispatch_mediates [OF _ this] show ?thesis
    by (auto simp: demo_gate_def demo_request_def service_path_def augment_with_catalog_sentinels_def
        principals_to_check_def effective_principal_id_def request_catalog_def request_collection_def path_segment_after_def nonempty_def)
qed

section \<open>Conditions in a principal's own policies\<close>

text \<open>
  A usage limit in a principal's own policies cannot be enforced: the statements are evaluated
  without a request context, so the first applicable statement with a \<open>rate_limit\<close> or \<open>max_count\<close>
  condition raises \<open>AttributeError\<close> out of the gate, before any counter is touched.
\<close>

theorem principal_limits_unusable:
  assumes "pr_custom_policies p = q # qs" and "applies_to (en_lib (ie_cond G)) (hr_method rq) (service_path rq) q"
    and "pol_conditions q = c # cs" and "ctype c \<in> {''rate_limit'', ''max_count''}" and "en_plugins (ie_cond G) (ctype c) = None"
  shows "authorize G rq roles (Some p) w = (Inl AttributeError, w)"
proof -
  have "eval_condition (ie_cond G) None c w = (Inl AttributeError, w)"
    using assms(4,5) by (subst eval_condition.simps) (auto simp: leaf_eval_none_def builtin_types_def)
  then have "evaluate_policy_statements (ie_cond G) (pr_custom_policies p) (hr_method rq) (service_path rq) None w
      = (Inl AttributeError, w)"
    using assms(1-3) by (simp add: evaluate_policy_statements_def evaluate_all_def)
  then show ?thesis using assms(1) by (simp add: authorize_def Let_def)
qed

theorem principal_limits_unusable_witness:
  "authorize (demo_gate None [''editor''] None) (demo_request ''/x'' None) [''editor'']
     (Some (demo_principal [mk_pol ''mine'' ALLOW 0 [''.*''] [\<lparr>ctype = ''rate_limit'', caddr = Some 7, cconfig = [(''limit'', JInt 5)]\<rparr>]])) 0
   = (Inl AttributeError, 0)"
  by (rule principal_limits_unusable) (rule demo_principal_sel | simp)+

definition bot_cond :: condition where
  "bot_cond = \<lparr>ctype = ''match'', caddr = None, cconfig = [(''attribute'', JStr ''header.x-client''), (''value'', JStr ''bot'')]\<rparr>"

text \<open>
  A conditional DENY in a principal's own policies works the wrong way round.  The statement is
  evaluated without a request, so its \<open>match\<close> is false and the DENY never fires; its condition is
  then required of every request.  A DENY of the client \<open>bot\<close> lets exactly that client through.
\<close>

theorem principal_deny_inverted:
  "let u = Some (demo_principal [mk_pol ''mine'' ALLOW 0 [''.*''] [], mk_pol ''bots'' DENY 9 [''.*''] [bot_cond]]);
       G = demo_gate None [''editor''] u
   in (\<exists>rv. fst (iam_dispatch G (demo_request ''/x'' (Some ''bot'')) 0) = Inr (Forward (Some rv) []))
      \<and> fst (iam_dispatch G (demo_request ''/x'' (Some ''web'')) 0) = Inr (Respond 429 (Some ''Rate limit or Quota exceeded.'') [])
      \<and> fst (iam_dispatch G (demo_request ''/x'' None) 0) = Inr (Respond 429 (Some ''Rate limit or Quota exceeded.'') [])"
  by (simp add: iam_dispatch_def authorize_def Let_def stamp_def map_configs_def enforce_conditions_def bot_cond_def
      evaluate_policy_statements_def evaluate_all_def eval_condition.simps leaf_eval_none_def leaf_eval_def match_eval_def get_value_def
      opt_json_def compare_vals_def plain_lib_str jget_def dget_or_def inspect_one_def run_simps build_rate_limit_headers_def)

section \<open>The tenant-scope gate holds for catalog paths\<close>

lemma segment_append: "CHR ''/'' \<notin> set cat \<Longrightarrow> rest = [] \<or> hd rest = CHR ''/'' \<Longrightarrow> segment (cat @ rest) = (cat, rest)"
  by (cases rest) (auto simp: segment_def takeWhile_append dropWhile_append2)

lemma strip_prefix_append [simp]: "strip_prefix p (p @ s) = Some s"
  by (simp add: strip_prefix_def)

lemma platform_pattern_catalog:
  assumes "cat \<noteq> []" and "base \<in> {''/web/dashboard/catalogs/'', ''/admin/catalogs/''}"
  shows "platform_pattern (base @ cat) = None"
proof -
  obtain z where "(if last (base @ cat) = nl then butlast (base @ cat) else base @ cat) = base @ z"
    using assms(1) that [of "butlast cat"] that [of cat] by (cases "last cat = nl") (auto simp: butlast_append)
  then show ?thesis using assms by (auto simp: platform_pattern_def Let_def)
qed

text \<open>The rule that is found for a catalog path resolves the catalog the path names.\<close>

lemma catalog_path_rule:
  assumes "base \<in> {''/web/dashboard/catalogs/'', ''/admin/catalogs/''}" "cat \<noteq> []" "CHR ''/'' \<notin> set cat"
    and "rest = [] \<or> (\<exists>cs. rest = CHR ''/'' # cs \<and> nl \<notin> set cs)"
  shows "\<exists>r g. match_tenant_scope_rule (base @ cat @ rest) = Some r \<and> tr_pattern r (base @ cat @ rest) = Some g \<and>
           g ''catalog_id'' = Some cat \<and> tr_catalog_source r = ''regex_group:catalog_id'' \<and> \<not> tr_allow_anonymous r"
proof -
  have seg: "segment (cat @ rest) = (cat, rest)" using assms(3,4) by (intro segment_append) auto
  have tail: "tail_ok rest" using assms(4) by (auto simp: tail_ok_def dest: in_set_butlastD)
  have plat: "platform_pattern (base @ cat @ rest) = None" using assms(1,2) by (intro platform_pattern_catalog) auto
  from assms(1) consider "base = ''/web/dashboard/catalogs/''" | "base = ''/admin/catalogs/''" by blast
  then show ?thesis
  proof cases
    case 1
    have cat: "per_catalog_pattern base (base @ cat @ rest) = Some [''catalog_id'' \<mapsto> cat]"
      using assms(2) seg tail unfolding per_catalog_pattern_def strip_prefix_append by simp
    show ?thesis
    proof (cases "per_collection_pattern (base @ cat @ rest)")
      case None
      then show ?thesis
        using plat cat unfolding 1 by (simp add: match_tenant_scope_rule_def tenant_scoped_routes_def)
    next
      case (Some g)
      then have "g ''catalog_id'' = Some cat"
        unfolding 1 per_collection_pattern_def strip_prefix_append using seg
        by (auto split: option.splits prod.splits if_splits)
      then show ?thesis
        using plat Some unfolding 1 by (simp add: match_tenant_scope_rule_def tenant_scoped_routes_def)
    qed
  next
    case 2
    have "per_catalog_pattern base (base @ cat @ rest) = Some [''catalog_id'' \<mapsto> cat]"
      using assms(2) seg tail unfolding per_catalog_pattern_def strip_prefix_append by simp
    moreover have "per_collection_pattern (base @ cat @ rest) = None"
        "per_catalog_pattern ''/web/dashboard/catalogs/'' (base @ cat @ rest) = None"
      using 2 by (simp_all add: per_collection_pattern_def per_catalog_pattern_def strip_prefix_def)
    ultimately show ?thesis
      using plat unfolding 2 by (simp add: match_tenant_scope_rule_def tenant_scoped_routes_def)
  qed
qed

text \<open>
  C11.  Tenant isolation at the gate, on a deployment without a root path: when the raw path of the
  request starts with the dashboard's or the administration's catalog prefix itself, it is forwarded
  only for an authenticated caller who is a system administrator, has a platform grant, or is a member
  of the very catalog the path names; that catalog is pinned as the request's scope.  Behind a root
  path the raw path carries a prefix the rules do not match (\<open>tenant_gate_off_under_root_path\<close>).
\<close>

theorem tenant_gate_enforced:
  assumes path: "hr_raw_path rq = base @ cat @ rest" "base \<in> {''/web/dashboard/catalogs/'', ''/admin/catalogs/''}"
      "cat \<noteq> []" "CHR ''/'' \<notin> set cat" "rest = [] \<or> (\<exists>cs. rest = CHR ''/'' # cs \<and> nl \<notin> set cs)"
    and fwd: "tenant_dispatch E rq pr roles = (TenantForward, scope)"
  shows "\<exists>p col. pr = Some p \<and> scope = Some (cat, col) \<and>
    (en_sysadmin E \<in> set roles \<or>
     (\<exists>lookup prov sub. en_membership E = Some lookup \<and> pr_provider p = Some prov \<and> pr_subject_id p = Some sub \<and>
        (ms_platform (lookup prov sub) \<or> cat \<noteq> ''_system_'' \<and> cat \<in> set (ms_catalogs (lookup prov sub)))))"
proof -
  from catalog_path_rule [OF path(2-5)] obtain r g where
    r: "match_tenant_scope_rule (hr_raw_path rq) = Some r" "tr_pattern r (hr_raw_path rq) = Some g"
       "g ''catalog_id'' = Some cat" "tr_catalog_source r = ''regex_group:catalog_id''" "\<not> tr_allow_anonymous r"
    using path(1) by auto
  have c: "extract_catalog_id rq r = cat"
    using r path(3)
    by (simp add: extract_catalog_id_def extract_from_source_def source_kind_def source_key_def Let_def nonempty_def)
  have ne: "nonempty x = Some y \<Longrightarrow> x = Some y" for x :: "string option" and y :: string
    by (auto simp: nonempty_def split: option.splits if_splits)
  show ?thesis
    using fwd r c unfolding tenant_dispatch_def
    by (auto simp: Let_def dest!: ne split: option.splits if_splits)
qed

definition member_env :: "nat cond_env" where
  "member_env = (plain_env None 0)\<lparr>en_membership :=
     Some (\<lambda>_ _. \<lparr>ms_platform = False, ms_catalogs = [''c''], ms_catalog_roles = (\<lambda>_. [])\<rparr>)\<rparr>"

theorem tenant_gate_enforced_witness:
  "\<exists>p col. Some (demo_principal []) = Some p \<and> Some (''c'', None :: string option) = Some (''c'', col) \<and>
    (en_sysadmin member_env \<in> set [] \<or>
     (\<exists>lookup prov sub. en_membership member_env = Some lookup \<and> pr_provider p = Some prov \<and> pr_subject_id p = Some sub \<and>
        (ms_platform (lookup prov sub) \<or> ''c'' \<noteq> ''_system_'' \<and> ''c'' \<in> set (ms_catalogs (lookup prov sub)))))"
  by (rule tenant_gate_enforced [where base = "''/admin/catalogs/''" and rest = "''/users''" and
        rq = "demo_request ''/admin/catalogs/c/users'' None"])
     (simp_all add: demo_request_def nl_def, code_simp)

text \<open>
  The gate matches the path with the deployment's root path still in front, while the IAM gate
  strips it.  Below a root path such as \<open>/api\<close> no rule ever matches, and everybody, anonymous callers
  included, passes.
\<close>

theorem tenant_gate_off_under_root_path:
  "tenant_dispatch E (rq\<lparr>hr_root_path := ''/api'', hr_raw_path := ''/api'' @ path\<rparr>) pr roles = (TenantForward, None)
   \<and> service_path (rq\<lparr>hr_root_path := ''/api'', hr_raw_path := ''/api'' @ path\<rparr>) = (if path = [] then ''/'' else path)"
proof -
  have "platform_pattern (''/api'' @ path) = None"
    by (cases path rule: rev_cases) (auto simp: platform_pattern_def Let_def)
  then have "match_tenant_scope_rule (''/api'' @ path) = None"
    by (simp add: match_tenant_scope_rule_def tenant_scoped_routes_def per_collection_pattern_def
        per_catalog_pattern_def strip_prefix_def)
  then show ?thesis by (simp add: tenant_dispatch_def service_path_def Let_def)
qed

end
