(* ===== verification/Hilbert.thy ===== *)
theory Hilbert
  imports Prelude "HOL-Library.Word"
begin

text \<open>
  Tile identifiers of the PMTiles writer (\<open>modules/tiles/writers/pmtiles_writer.py\<close>): the mapping of
  a tile \<open>z/x/y\<close> to its position on the Hilbert curve, offset by the number of tiles of the lower zoom
  levels.  The loop works on Python's unbounded integers, where the reflected coordinates become
  negative; \<open>AND\<close> reads them in two's complement.
\<close>

unbundle bit_operations_syntax

section \<open>The source\<close>

text \<open>One turn of the loop: the quadrant, and the coordinates rotated into it.\<close>

definition quadrant_bit :: "int \<Rightarrow> int \<Rightarrow> int" where
  "quadrant_bit t s = (if t AND s > 0 then 1 else 0)"

definition rotate_xy :: "int \<Rightarrow> int \<Rightarrow> int \<Rightarrow> int \<Rightarrow> int \<Rightarrow> int \<times> int" where
  "rotate_xy s rx ry tx ty =
     (if ry = 0 then (if rx = 1 then (s - 1 - ty, s - 1 - tx) else (ty, tx)) else (tx, ty))"

function hilbert_loop :: "int \<Rightarrow> int \<Rightarrow> int \<Rightarrow> int \<Rightarrow> int" where
  "hilbert_loop s tx ty d =
     (if s > 0 then
        (let rx = quadrant_bit tx s; ry = quadrant_bit ty s in
         case rotate_xy s rx ry tx ty of (tx', ty') \<Rightarrow>
           hilbert_loop (drop_bit 1 s) tx' ty' (d + s * s * ((3 * rx) XOR ry)))
      else d)"
  by pat_completeness auto

termination
  by (relation "measure (\<lambda>(s, tx, ty, d). nat s)") (auto simp: drop_bit_eq_div)

declare hilbert_loop.simps [simp del]

definition builtin_zxy_to_tileid :: "nat \<Rightarrow> int \<Rightarrow> int \<Rightarrow> int" where
  "builtin_zxy_to_tileid z x y =
     (if z = 0 then 0 else (4 ^ z - 1) div 3 + hilbert_loop (push_bit (z - 1) 1) x y 0)"

text \<open>The optional library, where it is installed, is a parameter.\<close>

definition zxy_to_tileid :: "(nat \<Rightarrow> int \<Rightarrow> int \<Rightarrow> int) option \<Rightarrow> nat \<Rightarrow> int \<Rightarrow> int \<Rightarrow> int" where
  "zxy_to_tileid lib z x y = (case lib of Some f \<Rightarrow> f z x y | None \<Rightarrow> builtin_zxy_to_tileid z x y)"

section \<open>The curve, one quadrant at a time\<close>

text \<open>
  The specification: the curve of order \<open>k + 1\<close> visits the quadrants in the order lower left, upper
  left, upper right, lower right; the first is transposed and the last is reflected.
\<close>

definition sub_point :: "int \<Rightarrow> int \<Rightarrow> int \<Rightarrow> int \<times> int" where
  "sub_point s x y =
     (if y < s then (if x < s then (y, x) else (s - 1 - y, 2 * s - 1 - x)) else (if x < s then (x, y - s) else (x - s, y - s)))"

definition sub_index :: "int \<Rightarrow> int \<Rightarrow> int \<Rightarrow> int" where
  "sub_index s x y = (if x < s then (if y < s then 0 else 1) else (if y < s then 3 else 2))"

fun hil :: "nat \<Rightarrow> int \<Rightarrow> int \<Rightarrow> int" where
  "hil 0 x y = 0"
| "hil (Suc k) x y = 4 ^ k * sub_index (2 ^ k) x y + (case sub_point (2 ^ k) x y of (x', y') \<Rightarrow> hil k x' y')"

definition square :: "nat \<Rightarrow> (int \<times> int) set" where
  "square k = {0..<2 ^ k} \<times> {0..<2 ^ k}"

lemma square_iff: "(x, y) \<in> square k \<longleftrightarrow> 0 \<le> x \<and> x < 2 ^ k \<and> 0 \<le> y \<and> y < 2 ^ k"
  by (auto simp: square_def)

lemma sub_point_square: "(x, y) \<in> square (Suc k) \<Longrightarrow> sub_point (2 ^ k) x y \<in> square k"
  by (auto simp: square_def sub_point_def)

lemma hil_range:
  assumes "(x, y) \<in> square k"
  shows "0 \<le> hil k x y \<and> hil k x y < 4 ^ k"
  using assms
proof (induction k arbitrary: x y)
  case (Suc k)
  obtain x' y' where p: "sub_point (2 ^ k) x y = (x', y')" by fastforce
  then have "0 \<le> hil k x' y' \<and> hil k x' y' < 4 ^ k"
    using Suc.IH sub_point_square [OF Suc.prems] by simp
  moreover have "0 \<le> sub_index (2 ^ k) x y" "sub_index (2 ^ k) x y \<le> 3" by (auto simp: sub_index_def)
  ultimately show ?case using p by (auto simp: sub_index_def)
qed simp

lemma base_digit_unique:
  fixes a b r s n :: int
  assumes "n * a + r = n * b + s" "0 \<le> r" "r < n" "0 \<le> s" "s < n"
  shows "a = b \<and> r = s"
proof -
  have "(n * a + r) div n = a" "(n * b + s) div n = b" using assms(2-5) by auto
  then have "a = b" using assms(1) by simp
  then show ?thesis using assms(1) by simp
qed

lemma sub_point_inj:
  "(x, y) \<in> square (Suc k) \<Longrightarrow> (x', y') \<in> square (Suc k) \<Longrightarrow> sub_index (2 ^ k) x y = sub_index (2 ^ k) x' y' \<Longrightarrow>
   sub_point (2 ^ k) x y = sub_point (2 ^ k) x' y' \<Longrightarrow> x = x' \<and> y = y'"
  by (auto simp: square_iff sub_index_def sub_point_def split: if_splits)

lemma hil_inj:
  "(x, y) \<in> square k \<Longrightarrow> (x', y') \<in> square k \<Longrightarrow> hil k x y = hil k x' y' \<Longrightarrow> x = x' \<and> y = y'"
proof (induction k arbitrary: x y x' y')
  case (Suc k)
  obtain u v u' v' where p: "sub_point (2 ^ k) x y = (u, v)" "sub_point (2 ^ k) x' y' = (u', v')" by fastforce
  then have sq: "(u, v) \<in> square k" "(u', v') \<in> square k"
    using sub_point_square [OF Suc.prems(1)] sub_point_square [OF Suc.prems(2)] by simp_all
  have "sub_index (2 ^ k) x y = sub_index (2 ^ k) x' y' \<and> hil k u v = hil k u' v'"
    using Suc.prems(3) hil_range [OF sq(1)] hil_range [OF sq(2)] p by (intro base_digit_unique) auto
  then show ?case using Suc.IH [OF sq] sub_point_inj [OF Suc.prems(1,2)] p by simp
qed (simp add: square_def)

text \<open>The curve starts in the lower left corner and ends in the lower right one.\<close>

lemma hil_start: "hil k 0 0 = 0"
  by (induction k) (simp_all add: sub_point_def sub_index_def)

lemma hil_end: "hil k (2 ^ k - 1) 0 = 4 ^ k - 1"
proof (induction k)
  case (Suc k)
  have "\<not> 2 ^ k < (1 :: int)" using zero_less_power [of "2 :: int" k] by linarith
  with Suc show ?case by (simp add: sub_point_def sub_index_def)
qed simp

lemma hil_image: "(\<lambda>(x, y). hil k x y) ` square k = {0..<4 ^ k}"
proof (rule card_subset_eq)
  have "inj_on (\<lambda>(x, y). hil k x y) (square k)" by (auto intro!: inj_onI dest: hil_inj)
  then have "card ((\<lambda>(x, y). hil k x y) ` square k) = card (square k)" by (rule card_image)
  also have "\<dots> = card {0..<(4::int) ^ k}"
    by (simp add: square_def card_cartesian_product nat_power_eq flip: power_mult_distrib)
  finally show "card ((\<lambda>(x, y). hil k x y) ` square k) = card {0..<(4::int) ^ k}" .
qed (auto dest: hil_range)

text \<open>Consecutive positions of the curve are neighbouring cells.\<close>

lemma neighbour_in_quadrant:
  assumes "(x, y) \<in> square (Suc k)" "(x', y') \<in> square (Suc k)" "sub_index (2 ^ k) x y = sub_index (2 ^ k) x' y'"
    and "sub_point (2 ^ k) x y = (u, v)" "sub_point (2 ^ k) x' y' = (u', v')"
  shows "\<bar>x - x'\<bar> + \<bar>y - y'\<bar> = \<bar>u - u'\<bar> + \<bar>v - v'\<bar>"
  using assms by (auto simp: square_iff sub_index_def sub_point_def split: if_splits)

lemma neighbour_across:
  assumes "(x, y) \<in> square (Suc k)" "(x', y') \<in> square (Suc k)" "sub_index (2 ^ k) x' y' = sub_index (2 ^ k) x y + 1"
    and "sub_point (2 ^ k) x y = (2 ^ k - 1, 0)" "sub_point (2 ^ k) x' y' = (0, 0)"
  shows "\<bar>x - x'\<bar> + \<bar>y - y'\<bar> = 1"
  using assms by (auto simp: square_iff sub_index_def sub_point_def split: if_splits)

lemma digit_successor:
  fixes a b r s n :: int
  assumes "n * b + s = n * a + r + 1" "0 \<le> r" "r < n" "0 \<le> s" "s < n"
  shows "a = b \<and> s = r + 1 \<or> b = a + 1 \<and> r = n - 1 \<and> s = 0"
proof (cases "r + 1 < n")
  case True
  then show ?thesis using base_digit_unique [of n b s a "r + 1"] assms by auto
next
  case False
  then have "r = n - 1" using assms(3) by simp
  then show ?thesis using base_digit_unique [of n b s "a + 1" 0] assms by (auto simp: algebra_simps)
qed

lemma hil_neighbours:
  "(x, y) \<in> square k \<Longrightarrow> (x', y') \<in> square k \<Longrightarrow> hil k x' y' = hil k x y + 1 \<Longrightarrow> \<bar>x - x'\<bar> + \<bar>y - y'\<bar> = 1"
proof (induction k arbitrary: x y x' y')
  case (Suc k)
  obtain u v u' v' where p: "sub_point (2 ^ k) x y = (u, v)" "sub_point (2 ^ k) x' y' = (u', v')" by fastforce
  then have sq: "(u, v) \<in> square k" "(u', v') \<in> square k"
    using sub_point_square [OF Suc.prems(1)] sub_point_square [OF Suc.prems(2)] by simp_all
  have "sub_index (2 ^ k) x y = sub_index (2 ^ k) x' y' \<and> hil k u' v' = hil k u v + 1 \<or>
        sub_index (2 ^ k) x' y' = sub_index (2 ^ k) x y + 1 \<and> hil k u v = 4 ^ k - 1 \<and> hil k u' v' = 0"
    using Suc.prems(3) hil_range [OF sq(1)] hil_range [OF sq(2)] p by (intro digit_successor) auto
  then show ?case
  proof
    assume "sub_index (2 ^ k) x y = sub_index (2 ^ k) x' y' \<and> hil k u' v' = hil k u v + 1"
    then show ?thesis using Suc.IH [OF sq] neighbour_in_quadrant [OF Suc.prems(1,2) _ p] by simp
  next
    assume cross: "sub_index (2 ^ k) x' y' = sub_index (2 ^ k) x y + 1 \<and> hil k u v = 4 ^ k - 1 \<and> hil k u' v' = 0"
    have "u = 2 ^ k - 1 \<and> v = 0"
      using cross hil_end [of k] by (intro hil_inj [OF sq(1)]) (simp_all add: square_iff)
    moreover have "u' = 0 \<and> v' = 0"
      using cross hil_start [of k] by (intro hil_inj [OF sq(2)]) (simp_all add: square_iff)
    ultimately show ?thesis using neighbour_across [OF Suc.prems(1,2)] cross p by simp
  qed
qed simp

section \<open>The loop computes the curve\<close>

lemma quadrant_bit_exp: "quadrant_bit t (2 ^ k) = (t div 2 ^ k) mod 2"
proof -
  have "t AND 2 ^ k = (if bit t k then 2 ^ k else 0)"
    by (auto intro!: bit_eqI simp: bit_simps)
  then show ?thesis
    by (auto simp: quadrant_bit_def bit_iff_odd odd_iff_mod_2_eq_one not_mod_2_eq_1_eq_0)
qed

text \<open>Only the low bits of the coordinates matter.\<close>

lemma mod_reflect: "(2 ^ k - 1 - t) mod 2 ^ k = 2 ^ k - 1 - t mod (2 ^ k :: int)"
proof -
  have "(2 ^ k - 1 - t) mod 2 ^ k = (2 ^ k - 1 - t mod 2 ^ k) mod (2 ^ k :: int)" by (simp add: mod_diff_right_eq)
  also have "\<dots> = 2 ^ k - 1 - t mod 2 ^ k"
    using pos_mod_bound [of "2 ^ k" t] pos_mod_sign [of "2 ^ k" t] zero_less_power [of "2 :: int" k]
    by (intro mod_pos_pos_trivial) linarith+
  finally show ?thesis .
qed

lemma mod_double_exp: "t mod (2 * 2 ^ k) = t mod 2 ^ k + 2 ^ k * ((t div 2 ^ k) mod (2::int))"
  using zmod_zmult2_eq [of 2 t "2 ^ k"] by (simp add: mult.commute add.commute)

lemma sub_point_digits:
  assumes "0 \<le> a" "a < s" "0 \<le> b" "b < s" "rx = 0 \<or> rx = 1" "ry = 0 \<or> ry = 1"
  shows "sub_point s (a + s * rx) (b + s * ry) = rotate_xy s rx ry a b"
    and "sub_index s (a + s * rx) (b + s * ry) = (3 * rx) XOR ry"
  using assms by (auto simp: sub_point_def sub_index_def rotate_xy_def)

lemma rotate_xy_mod:
  "rotate_xy (2 ^ k) rx ry tx ty = (tx', ty') \<Longrightarrow>
   rotate_xy (2 ^ k) rx ry (tx mod 2 ^ k) (ty mod 2 ^ k) = (tx' mod 2 ^ k, ty' mod 2 ^ k)"
  by (auto simp: rotate_xy_def mod_reflect split: if_splits)

lemma hilbert_loop_hil:
  "hilbert_loop (2 ^ k) tx ty d = d + hil (Suc k) (tx mod 2 ^ Suc k) (ty mod 2 ^ Suc k)"
proof (induction k arbitrary: tx ty d)
  case 0
  have "tx mod 2 = 0 \<or> tx mod 2 = 1" "ty mod 2 = 0 \<or> ty mod 2 = 1" by auto
  then show ?case
    using quadrant_bit_exp [of tx 0] quadrant_bit_exp [of ty 0]
    by (auto simp: hilbert_loop.simps [of 1] hilbert_loop.simps [of 0] rotate_xy_def sub_index_def sub_point_def)
next
  case (Suc k)
  let ?s = "2 ^ Suc k :: int"
  define rx ry where "rx = (tx div ?s) mod 2" and "ry = (ty div ?s) mod 2"
  obtain tx' ty' where rot: "rotate_xy ?s rx ry tx ty = (tx', ty')" by fastforce
  have step: "hilbert_loop ?s tx ty d = hilbert_loop (2 ^ k) tx' ty' (d + ?s * ?s * ((3 * rx) XOR ry))"
    using rot quadrant_bit_exp [of tx "Suc k"] quadrant_bit_exp [of ty "Suc k"]
    by (subst hilbert_loop.simps) (simp add: rx_def ry_def drop_bit_eq_div Let_def)
  have r: "rx = 0 \<or> rx = 1" "ry = 0 \<or> ry = 1" by (auto simp: rx_def ry_def)
  have b: "0 \<le> tx mod ?s" "tx mod ?s < ?s" "0 \<le> ty mod ?s" "ty mod ?s < ?s" by simp_all
  have dig: "tx mod (2 * ?s) = tx mod ?s + ?s * rx" "ty mod (2 * ?s) = ty mod ?s + ?s * ry"
    using mod_double_exp [of tx "Suc k"] mod_double_exp [of ty "Suc k"] by (simp_all add: rx_def ry_def)
  note sub = sub_point_digits [OF b r, folded dig] rotate_xy_mod [OF rot]
  have sq: "?s * ?s = 4 ^ Suc k" by (simp flip: power_mult_distrib)
  show ?case
    unfolding step Suc.IH hil.simps(2) [of "Suc k"] using sub sq by simp
qed

section \<open>Tile identifiers\<close>

text \<open>The number of tiles below a zoom level.\<close>

definition level_base :: "nat \<Rightarrow> int" where
  "level_base z = (4 ^ z - 1) div 3"

lemma level_base_0: "level_base 0 = 0"
  by (simp add: level_base_def)

lemma level_base_Suc: "level_base (Suc z) = level_base z + 4 ^ z"
proof -
  have "3 dvd (4 ^ z - 1 :: int)" by (induction z) (simp_all add: dvd_def, presburger)
  then obtain n where n: "4 ^ z = 1 + 3 * (n :: int)" unfolding dvd_def by (metis add.commute diff_add_cancel)
  then have "(4 ^ Suc z - 1) div 3 = n + 4 ^ z" by simp
  moreover have "(4 ^ z - 1) div 3 = n" using n by simp
  ultimately show ?thesis by (simp add: level_base_def)
qed

lemma level_base_mono: "z \<le> z' \<Longrightarrow> level_base z \<le> level_base z'"
proof (induction z')
  case (Suc z')
  have "level_base z' \<le> level_base (Suc z')" by (simp add: level_base_Suc)
  then show ?case using Suc by (cases "z = Suc z'") auto
qed simp

lemma tileid_hil:
  assumes "(x, y) \<in> square z"
  shows "builtin_zxy_to_tileid z x y = level_base z + hil z x y"
proof (cases z)
  case (Suc k)
  have "push_bit k 1 = (2 ^ k :: int)" by (simp add: push_bit_eq_mult)
  moreover have "x mod 2 ^ Suc k = x" "y mod 2 ^ Suc k = y" using assms Suc by (simp_all add: square_iff)
  ultimately show ?thesis
    using Suc hilbert_loop_hil [of k x y 0] by (simp add: builtin_zxy_to_tileid_def level_base_def)
qed (simp add: builtin_zxy_to_tileid_def level_base_0)

lemma tileid_level:
  "(x, y) \<in> square z \<Longrightarrow> level_base z \<le> builtin_zxy_to_tileid z x y \<and> builtin_zxy_to_tileid z x y < level_base (Suc z)"
  using hil_range by (fastforce simp: tileid_hil level_base_Suc)

definition tiles_upto :: "nat \<Rightarrow> (nat \<times> int \<times> int) set" where
  "tiles_upto Z = {(z, x, y). z \<le> Z \<and> 0 \<le> x \<and> x < 2 ^ z \<and> 0 \<le> y \<and> y < 2 ^ z}"

lemma tiles_upto_iff: "(z, x, y) \<in> tiles_upto Z \<longleftrightarrow> z \<le> Z \<and> (x, y) \<in> square z"
  by (auto simp: tiles_upto_def square_iff)

lemma tileid_inj:
  assumes "(x, y) \<in> square z" "(x', y') \<in> square z'" "builtin_zxy_to_tileid z x y = builtin_zxy_to_tileid z' x' y'"
  shows "z = z' \<and> x = x' \<and> y = y'"
proof -
  have "z = z'"
    using tileid_level [OF assms(1)] tileid_level [OF assms(2)] assms(3) level_base_mono [of "Suc z" z'] level_base_mono [of "Suc z'" z]
    by (cases z z' rule: linorder_cases) auto
  then show ?thesis using assms hil_inj [of x y z x' y'] by (simp add: tileid_hil)
qed

lemma tileid_surj:
  "0 \<le> i \<Longrightarrow> i < level_base (Suc Z) \<Longrightarrow> \<exists>z x y. (z, x, y) \<in> tiles_upto Z \<and> builtin_zxy_to_tileid z x y = i"
proof (induction Z)
  case 0
  then show ?case by (intro exI [of _ 0]) (auto simp: level_base_Suc level_base_0 tiles_upto_def builtin_zxy_to_tileid_def)
next
  case (Suc Z)
  show ?case
  proof (cases "i < level_base (Suc Z)")
    case True
    then obtain z x y where "(z, x, y) \<in> tiles_upto Z" "builtin_zxy_to_tileid z x y = i" using Suc.IH Suc.prems(1) by auto
    then show ?thesis by (intro exI [of _ z] exI [of _ x] exI [of _ y]) (simp add: tiles_upto_iff)
  next
    case False
    then have "i - level_base (Suc Z) \<in> {0..<4 ^ Suc Z}" using Suc.prems(2) level_base_Suc [of "Suc Z"] by auto
    then obtain x y where "(x, y) \<in> square (Suc Z)" "hil (Suc Z) x y = i - level_base (Suc Z)"
      unfolding hil_image [symmetric] by auto
    then show ?thesis by (intro exI [of _ "Suc Z"] exI [of _ x] exI [of _ y]) (auto simp: tileid_hil tiles_upto_iff)
  qed
qed

text \<open>
  C17.  Tile identifiers are a bijection: the tiles of the zoom levels up to any \<open>Z\<close> are numbered by
  exactly the integers below the number of those tiles, so that no two tiles of an archive share an
  identifier and none is skipped.
\<close>

theorem tileid_bijective:
  "bij_betw (\<lambda>(z, x, y). builtin_zxy_to_tileid z x y) (tiles_upto Z) {0..<(4 ^ (Z + 1) - 1) div 3}"
proof (rule bij_betwI')
  fix p q assume "p \<in> tiles_upto Z" "q \<in> tiles_upto Z"
  then show "((case p of (z, x, y) \<Rightarrow> builtin_zxy_to_tileid z x y) = (case q of (z, x, y) \<Rightarrow> builtin_zxy_to_tileid z x y)) = (p = q)"
    by (auto simp: tiles_upto_iff dest: tileid_inj split: prod.splits)
next
  fix p assume p: "p \<in> tiles_upto Z"
  obtain z x y where q: "p = (z, x, y)" by (cases p)
  have "level_base (Suc z) \<le> level_base (Suc Z)" using level_base_mono [of "Suc z" "Suc Z"] p q
    by (auto simp: tiles_upto_def)
  moreover have "0 \<le> level_base z" using level_base_mono [of 0 z] level_base_0 by simp
  ultimately show "(case p of (z, x, y) \<Rightarrow> builtin_zxy_to_tileid z x y) \<in> {0..<(4 ^ (Z + 1) - 1) div 3}"
    using tileid_level [of x y z] p q by (auto simp: tiles_upto_iff level_base_def)
next
  fix i :: int assume "i \<in> {0..<(4 ^ (Z + 1) - 1) div 3}"
  then obtain z x y where "(z, x, y) \<in> tiles_upto Z" "builtin_zxy_to_tileid z x y = i"
    using tileid_surj [of i Z] by (auto simp: level_base_def)
  then show "\<exists>p\<in>tiles_upto Z. i = (case p of (z, x, y) \<Rightarrow> builtin_zxy_to_tileid z x y)"
    by (intro bexI [of _ "(z, x, y)"]) auto
qed

text \<open>
  Locality: two tiles of a zoom level whose identifiers are consecutive share an edge, which is
  what clustering the archive by identifier is for.
\<close>

theorem consecutive_tiles_adjacent:
  assumes "(x, y) \<in> square z" "(x', y') \<in> square z"
    and "builtin_zxy_to_tileid z x' y' = builtin_zxy_to_tileid z x y + 1"
  shows "\<bar>x - x'\<bar> + \<bar>y - y'\<bar> = 1"
  using assms hil_neighbours [of x y z x' y'] by (simp add: tileid_hil)

theorem consecutive_tiles_adjacent_witness:
  "builtin_zxy_to_tileid 2 1 2 = 12 \<and> builtin_zxy_to_tileid 2 2 2 = 13 \<and> \<bar>1 - 2\<bar> + \<bar>2 - 2\<bar> = (1 :: int)"
proof -
  have ids: "builtin_zxy_to_tileid 2 1 2 = 12" "builtin_zxy_to_tileid 2 2 2 = 13" by code_simp+
  show ?thesis using ids consecutive_tiles_adjacent [of 1 2 2 2 2] by (simp add: square_iff)
qed

end
