(* ===== verification/Pmtiles.thy ===== *)
theory Pmtiles
  imports Hilbert "HOL-Library.Monad_Syntax"
begin

text \<open>
  The built-in PMTiles v3 writer (\<open>modules/tiles/writers/pmtiles_writer.py\<close>): varints, directories,
  the header and the assembly of an archive with one directory or with leaf directories.  Bytes are
  8-bit words.  A value that is \<open>None\<close> stands for a loop that does not return; an error is the left
  summand.  The reader at the end of the definitions is the specification: it follows the PMTiles v3
  format, and the theorems say that it finds in an archive what the writer was given.
\<close>

unbundle bit_operations_syntax

type_synonym bytes = "8 word list"

datatype archive_error = StructError | FloatError | JsonError

section \<open>Varints and directories\<close>

text \<open>The loop of \<open>_write_varint\<close> shifts arithmetically; a negative number never becomes zero.\<close>

partial_function (option) write_varint :: "bytes \<Rightarrow> int \<Rightarrow> bytes option" where
  "write_varint buf value =
     (let byte = value AND 0x7F; value' = drop_bit 7 value in
      if value' \<noteq> 0 then write_varint (buf @ [word_of_int (byte OR 0x80)]) value'
      else Some (buf @ [word_of_int byte]))"

record entry =
  tile_id :: int
  offset :: int
  length_of :: int
  run_length :: int

fun write_ids :: "int \<Rightarrow> entry list \<Rightarrow> bytes \<Rightarrow> bytes option" where
  "write_ids last_id [] buf = Some buf"
| "write_ids last_id (e # es) buf = do { b \<leftarrow> write_varint buf (tile_id e - last_id); write_ids (tile_id e) es b }"

fun write_each :: "(entry \<Rightarrow> int) \<Rightarrow> entry list \<Rightarrow> bytes \<Rightarrow> bytes option" where
  "write_each f [] buf = Some buf"
| "write_each f (e # es) buf = do { b \<leftarrow> write_varint buf (f e); write_each f es b }"

definition offset_code :: "entry option \<Rightarrow> entry \<Rightarrow> int" where
  "offset_code prev e =
     (case prev of
        Some p \<Rightarrow> if run_length p = 1 \<and> offset e = offset p + length_of p then 0 else offset e + 1
      | None \<Rightarrow> offset e + 1)"

fun write_offsets :: "entry option \<Rightarrow> entry list \<Rightarrow> bytes \<Rightarrow> bytes option" where
  "write_offsets prev [] buf = Some buf"
| "write_offsets prev (e # es) buf = do { b \<leftarrow> write_varint buf (offset_code prev e); write_offsets (Some e) es b }"

definition serialize_directory :: "entry list \<Rightarrow> bytes option" where
  "serialize_directory entries = do {
     b \<leftarrow> write_varint [] (int (length entries));
     b \<leftarrow> write_ids 0 entries b;
     b \<leftarrow> write_each run_length entries b;
     b \<leftarrow> write_each length_of entries b;
     write_offsets None entries b }"

section \<open>The header\<close>

definition header_size :: nat where "header_size = 127"
definition max_root_entries :: nat where "max_root_entries = 16384"
definition leaf_size :: nat where "leaf_size = 4096"

text \<open>\<open>struct.pack_into("<Q", h, at, v)\<close>, \<open>struct.pack_into("<i", h, at, v)\<close> and \<open>h[at] = v\<close>.\<close>

definition le_bytes :: "nat \<Rightarrow> int \<Rightarrow> bytes" where
  "le_bytes n v = map (\<lambda>i. word_of_int (drop_bit (8 * i) v)) [0..<n]"

definition put :: "nat \<Rightarrow> bytes \<Rightarrow> bytes \<Rightarrow> bytes" where
  "put pos bs h = take pos h @ bs @ drop (pos + length bs) h"

definition pack_Q :: "nat \<Rightarrow> int \<Rightarrow> bytes \<Rightarrow> archive_error + bytes" where
  "pack_Q pos v h = (if 0 \<le> v \<and> v < 2 ^ 64 then Inr (put pos (le_bytes 8 v) h) else Inl StructError)"

definition pack_i :: "nat \<Rightarrow> int \<Rightarrow> bytes \<Rightarrow> archive_error + bytes" where
  "pack_i pos v h = (if - (2 ^ 31) \<le> v \<and> v < 2 ^ 31 then Inr (put pos (le_bytes 4 v) h) else Inl StructError)"

fun pack_all :: "(nat \<Rightarrow> int \<Rightarrow> bytes \<Rightarrow> archive_error + bytes) \<Rightarrow> (nat \<times> int) list \<Rightarrow> bytes \<Rightarrow> archive_error + bytes" where
  "pack_all pack [] h = Inr h"
| "pack_all pack ((pos, v) # fs) h = (case pack pos v h of Inl e \<Rightarrow> Inl e | Inr h' \<Rightarrow> pack_all pack fs h')"

text \<open>
  Coordinates are floats: \<open>fl_e7 c\<close> is \<open>int(c * 1e7)\<close>, which raises on an infinity or a NaN, and
  \<open>fl_mid a b\<close> is \<open>(a + b) / 2.0\<close>.
\<close>

record 'f float_ops =
  fl_e7 :: "'f \<Rightarrow> int option"
  fl_mid :: "'f \<Rightarrow> 'f \<Rightarrow> 'f"

record 'f bbox =
  min_lon :: 'f
  min_lat :: 'f
  max_lon :: 'f
  max_lat :: 'f

definition e7 :: "'f float_ops \<Rightarrow> 'f \<Rightarrow> archive_error + int" where
  "e7 F c = (case fl_e7 F c of None \<Rightarrow> Inl FloatError | Some i \<Rightarrow> Inr i)"

text \<open>The eleven section fields, in the order of the header.\<close>

record sections =
  root_dir_offset :: int
  root_dir_length :: int
  metadata_offset :: int
  metadata_length :: int
  leaf_dirs_offset :: int
  leaf_dirs_length :: int
  tile_data_offset :: int
  tile_data_length :: int
  n_addressed_tiles :: int
  n_tile_entries :: int
  n_tile_contents :: int

definition section_fields :: "sections \<Rightarrow> (nat \<times> int) list" where
  "section_fields sec =
     [(8, root_dir_offset sec), (16, root_dir_length sec), (24, metadata_offset sec), (32, metadata_length sec),
       (40, leaf_dirs_offset sec), (48, leaf_dirs_length sec), (56, tile_data_offset sec), (64, tile_data_length sec),
       (72, n_addressed_tiles sec), (80, n_tile_entries sec), (88, n_tile_contents sec)]"

definition pmtiles_magic :: bytes where
  "pmtiles_magic = [0x50, 0x4D, 0x54, 0x69, 0x6C, 0x65, 0x73]"

fun pack_e7 :: "'f float_ops \<Rightarrow> (nat \<times> 'f) list \<Rightarrow> bytes \<Rightarrow> archive_error + bytes" where
  "pack_e7 F [] h = Inr h"
| "pack_e7 F ((pos, c) # fs) h =
     (case e7 F c of Inl e \<Rightarrow> Inl e
      | Inr v \<Rightarrow> (case pack_i pos v h of Inl e \<Rightarrow> Inl e | Inr h' \<Rightarrow> pack_e7 F fs h'))"

definition byte_of :: "int \<Rightarrow> bytes" where
  "byte_of v = [word_of_int (v AND 0xFF)]"

definition write_header ::
  "'f float_ops \<Rightarrow> sections \<Rightarrow> bool \<Rightarrow> int \<Rightarrow> int \<Rightarrow> int \<Rightarrow> int \<Rightarrow> int \<Rightarrow> 'f bbox \<Rightarrow> int \<Rightarrow> 'f \<Rightarrow> 'f \<Rightarrow> archive_error + bytes" where
  "write_header F sec clustered internal_compression tile_compression tile_type min_zoom max_zoom box center_zoom center_lon center_lat =
     (let h = put 7 [3] (put 0 pmtiles_magic (replicate header_size 0)) in
      case pack_all pack_Q (section_fields sec) h of
        Inl e \<Rightarrow> Inl e
      | Inr h \<Rightarrow>
          (let h = put 96 [if clustered then 1 else 0] h;
               h = put 97 [word_of_int internal_compression] h;
               h = put 98 [word_of_int tile_compression] h;
               h = put 99 [word_of_int tile_type] h;
               h = put 100 (byte_of min_zoom) h;
               h = put 101 (byte_of max_zoom) h in
           case pack_e7 F [(102, min_lon box), (106, min_lat box), (110, max_lon box), (114, max_lat box)] h of
             Inl e \<Rightarrow> Inl e
           | Inr h \<Rightarrow> pack_e7 F [(119, center_lon), (123, center_lat)] (put 118 (byte_of center_zoom) h)))"

section \<open>Archives\<close>

type_synonym raw_tiles = "(int \<times> bytes) list"

text \<open>Step 2: the data section and its entries, clustered.\<close>

fun dir_entries :: "int \<Rightarrow> raw_tiles \<Rightarrow> entry list" where
  "dir_entries data_offset [] = []"
| "dir_entries data_offset ((i, data) # raw) =
     \<lparr>tile_id = i, offset = data_offset, length_of = int (length data), run_length = 1\<rparr>
       # dir_entries (data_offset + int (length data)) raw"

text \<open>Step 3: chunks of entries become leaf directories, the root points to them.\<close>

fun chunks :: "nat \<Rightarrow> 'a list \<Rightarrow> 'a list list" where
  "chunks n [] = []"
| "chunks n (x # xs) = (x # take (n - 1) xs) # chunks n (drop (n - 1) xs)"

fun write_leaves :: "int \<Rightarrow> entry list list \<Rightarrow> (entry list \<times> bytes) option" where
  "write_leaves acc [] = Some ([], [])"
| "write_leaves acc (chunk # rest) = do {
     leaf \<leftarrow> serialize_directory chunk;
     (rootd, parts) \<leftarrow> write_leaves (acc + int (length leaf)) rest;
     Some (\<lparr>tile_id = tile_id (hd chunk), offset = acc, length_of = int (length leaf), run_length = 0\<rparr> # rootd, leaf @ parts) }"

definition build_directories :: "entry list \<Rightarrow> (bytes \<times> bytes) option" where
  "build_directories es =
     (if length es \<le> max_root_entries then do { rootd \<leftarrow> serialize_directory es; Some (rootd, []) }
      else do {
        (root_entries, leaves) \<leftarrow> write_leaves 0 (chunks leaf_size es);
        rootd \<leftarrow> serialize_directory root_entries;
        Some (rootd, leaves) })"

text \<open>Step 4: the section offsets.\<close>

definition layout :: "nat \<Rightarrow> bytes \<Rightarrow> bytes \<Rightarrow> bytes \<Rightarrow> bytes \<Rightarrow> sections" where
  "layout n rootd meta leaves data =
     (let ro = int header_size; rl = int (length rootd); mo = ro + rl; ml = int (length meta);
          lo = mo + ml; ll = int (length leaves); dof = lo + ll; dl = int (length data) in
      \<lparr>root_dir_offset = ro, root_dir_length = rl, metadata_offset = mo, metadata_length = ml, leaf_dirs_offset = lo,
       leaf_dirs_length = ll, tile_data_offset = dof, tile_data_length = dl, n_addressed_tiles = int n,
       n_tile_entries = int n, n_tile_contents = int n\<rparr>)"

record stats =
  n_tiles :: nat
  n_empty_tiles :: nat
  total_bytes :: nat

text \<open>
  The built-in path of \<open>_write_pmtiles_from_raw\<close>: the bytes it appends to the stream.  \<open>dumps\<close> is the
  outcome of \<open>json.dumps(metadata).encode("utf-8")\<close>.
\<close>

definition write_builtin ::
  "'f float_ops \<Rightarrow> archive_error + bytes \<Rightarrow> int \<Rightarrow> int \<Rightarrow> 'f bbox \<Rightarrow> raw_tiles \<Rightarrow> (archive_error + bytes \<times> stats) option" where
  "write_builtin F dumps min_zoom max_zoom box raw =
     (let es = dir_entries 0 raw; data = concat (map snd raw) in
      case dumps of
        Inl e \<Rightarrow> Some (Inl e)
      | Inr meta \<Rightarrow> do {
          (rootd, leaves) \<leftarrow> build_directories es;
          Some (case write_header F (layout (length es) rootd meta leaves data) True 1 1 1 min_zoom max_zoom box
                  ((min_zoom + max_zoom) div 2) (fl_mid F (min_lon box) (max_lon box)) (fl_mid F (min_lat box) (max_lat box)) of
                  Inl e \<Rightarrow> Inl e
                | Inr h \<Rightarrow>
                    Inr (h @ rootd @ meta @ leaves @ data,
                         \<lparr>n_tiles = length es, n_empty_tiles = 0,
                          total_bytes = header_size + length rootd + length meta + length leaves + length data\<rparr>)) })"

text \<open>
  The optional library appends to the same stream before it succeeds or fails; when it fails the
  built-in writer continues on the stream as it was left.
\<close>

type_synonym lib_writer = "raw_tiles \<Rightarrow> bytes \<Rightarrow> bytes \<times> bool"

definition write_pmtiles_from_raw ::
  "lib_writer option \<Rightarrow> 'f float_ops \<Rightarrow> archive_error + bytes \<Rightarrow> int \<Rightarrow> int \<Rightarrow> 'f bbox \<Rightarrow> raw_tiles \<Rightarrow> bytes \<Rightarrow>
   (archive_error + bytes \<times> stats) option" where
  "write_pmtiles_from_raw lib F dumps min_zoom max_zoom box raw output =
     (case (case lib of None \<Rightarrow> (output, False) | Some wr \<Rightarrow> wr raw output) of
        (out, True) \<Rightarrow> Some (Inr (out, \<lparr>n_tiles = length raw, n_empty_tiles = 0, total_bytes = length out\<rparr>))
      | (out, False) \<Rightarrow>
          map_option (map_sum id (\<lambda>(bs, st). (out @ bs, st))) (write_builtin F dumps min_zoom max_zoom box raw))"

type_synonym tile = "nat \<times> int \<times> int \<times> bytes"

definition collect_raw :: "(nat \<Rightarrow> int \<Rightarrow> int \<Rightarrow> int) option \<Rightarrow> tile list \<Rightarrow> raw_tiles" where
  "collect_raw ids tiles =
     sort_key fst (map (\<lambda>(z, x, y, data). (zxy_to_tileid ids z x y, data)) (filter (\<lambda>(z, x, y, data). data \<noteq> []) tiles))"

definition write_pmtiles ::
  "lib_writer option \<Rightarrow> (nat \<Rightarrow> int \<Rightarrow> int \<Rightarrow> int) option \<Rightarrow> 'f float_ops \<Rightarrow> archive_error + bytes \<Rightarrow> int \<Rightarrow> int \<Rightarrow> 'f bbox \<Rightarrow>
   tile list \<Rightarrow> bytes \<Rightarrow> (archive_error + bytes \<times> stats) option" where
  "write_pmtiles lib ids F dumps min_zoom max_zoom box tiles output =
     (let raw = collect_raw ids tiles;
          n_empty = length (filter (\<lambda>(z, x, y, data). data = []) tiles) in
      map_option (map_sum id (\<lambda>(out, st). (out, st\<lparr>n_empty_tiles := n_empty\<rparr>)))
        (write_pmtiles_from_raw lib F dumps min_zoom max_zoom box raw output))"

text \<open>The two-phase builder reads every tile back from a data file.\<close>

record tile_entry =
  te_tile_id :: int
  te_offset :: nat
  te_length :: nat

definition write_pmtiles_from_entries ::
  "lib_writer option \<Rightarrow> 'f float_ops \<Rightarrow> archive_error + bytes \<Rightarrow> int \<Rightarrow> int \<Rightarrow> 'f bbox \<Rightarrow> tile_entry list \<Rightarrow> bytes \<Rightarrow> bytes \<Rightarrow>
   (archive_error + bytes \<times> stats) option" where
  "write_pmtiles_from_entries lib F dumps min_zoom max_zoom box entries data_source output =
     write_pmtiles_from_raw lib F dumps min_zoom max_zoom box
       (filter (\<lambda>(i, data). data \<noteq> [])
          (map (\<lambda>e. (te_tile_id e, take (te_length e) (drop (te_offset e) data_source))) entries)) output"

section \<open>The format, read back\<close>

fun read_varint :: "bytes \<Rightarrow> (int \<times> bytes) option" where
  "read_varint [] = None"
| "read_varint (b # bs) =
     (if b < 0x80 then Some (uint b, bs)
      else (case read_varint bs of None \<Rightarrow> None | Some (v, rest) \<Rightarrow> Some (uint b - 128 + 128 * v, rest)))"

fun read_varints :: "nat \<Rightarrow> bytes \<Rightarrow> (int list \<times> bytes) option" where
  "read_varints 0 bs = Some ([], bs)"
| "read_varints (Suc n) bs = do { (v, bs) \<leftarrow> read_varint bs; (vs, bs) \<leftarrow> read_varints n bs; Some (v # vs, bs) }"

fun partial_sums :: "int \<Rightarrow> int list \<Rightarrow> int list" where
  "partial_sums acc [] = []"
| "partial_sums acc (d # ds) = (acc + d) # partial_sums (acc + d) ds"

fun read_offsets :: "int option \<Rightarrow> (int \<times> int) list \<Rightarrow> int list" where
  "read_offsets prev_end [] = []"
| "read_offsets prev_end ((code, len) # cs) =
     (let off = (case prev_end of Some n \<Rightarrow> if code = 0 then n else code - 1 | None \<Rightarrow> code - 1) in
      off # read_offsets (Some (off + len)) cs)"

definition deserialize_directory :: "bytes \<Rightarrow> entry list option" where
  "deserialize_directory bs = do {
     (n, bs) \<leftarrow> read_varint bs;
     (ds, bs) \<leftarrow> read_varints (nat n) bs;
     (rs, bs) \<leftarrow> read_varints (nat n) bs;
     (ls, bs) \<leftarrow> read_varints (nat n) bs;
     (os, bs) \<leftarrow> read_varints (nat n) bs;
     Some (map (\<lambda>(i, r, l, off). \<lparr>tile_id = i, offset = off, length_of = l, run_length = r\<rparr>)
             (zip (partial_sums 0 ds) (zip rs (zip ls (read_offsets None (zip os ls)))))) }"

definition find_entry :: "entry list \<Rightarrow> int \<Rightarrow> entry option" where
  "find_entry es i =
     (case rev (filter (\<lambda>e. tile_id e \<le> i) es) of
        [] \<Rightarrow> None
      | e # _ \<Rightarrow> if run_length e = 0 \<or> i < tile_id e + run_length e then Some e else None)"

definition le_int :: "bytes \<Rightarrow> int" where
  "le_int bs = foldr (\<lambda>b acc. uint b + 256 * acc) bs 0"

definition slice :: "int \<Rightarrow> int \<Rightarrow> bytes \<Rightarrow> bytes" where
  "slice off len bs = take (nat len) (drop (nat off) bs)"

definition header_field :: "nat \<Rightarrow> bytes \<Rightarrow> int" where
  "header_field pos h = le_int (slice (int pos) 8 h)"

text \<open>A lookup follows at most three leaf levels.\<close>

fun lookup_in :: "nat \<Rightarrow> bytes \<Rightarrow> bytes \<Rightarrow> int \<Rightarrow> bytes option" where
  "lookup_in 0 archive dir i = None"
| "lookup_in (Suc depth) archive dir i = do {
     es \<leftarrow> deserialize_directory dir;
     e \<leftarrow> find_entry es i;
     if run_length e = 0
     then lookup_in depth archive (slice (header_field 40 archive + offset e) (length_of e) archive) i
     else Some (slice (header_field 56 archive + offset e) (length_of e) archive) }"

definition get_tile :: "bytes \<Rightarrow> int \<Rightarrow> bytes option" where
  "get_tile archive i =
     (if take 8 archive = pmtiles_magic @ [3]
      then lookup_in 4 archive (slice (header_field 8 archive) (header_field 16 archive) archive) i
      else None)"

section \<open>Varints\<close>

fun varint_bytes :: "nat \<Rightarrow> bytes" where
  "varint_bytes n = (if n < 128 then [of_nat n] else of_nat (n mod 128 + 128) # varint_bytes (n div 128))"

declare varint_bytes.simps [simp del]

lemma and_127: "(v :: int) AND 0x7F = v mod 128"
  using take_bit_eq_mask [of 7 v] by (simp add: take_bit_eq_mod mask_eq_exp_minus_1)

lemma or_128:
  assumes "0 \<le> (b :: int)" "b < 128"
  shows "b OR 0x80 = b + 128"
proof -
  have "b AND 128 = 0"
  proof (rule bit_eqI)
    fix n
    have "\<not> bit b 7" using assms by (simp add: bit_iff_odd)
    then show "bit (b AND 128) n \<longleftrightarrow> bit (0 :: int) n"
      using bit_exp_iff [of 7 n, where 'a = int] by (auto simp: bit_simps)
  qed
  then show ?thesis using plus_and_or [of b 128] by simp
qed

lemma write_varint_nat: "write_varint buf (int n) = Some (buf @ varint_bytes n)"
proof (induction n arbitrary: buf rule: less_induct)
  case (less n)
  have d: "drop_bit 7 (int n) = int (n div 128)" by (simp add: drop_bit_eq_div zdiv_int)
  have m: "int n AND 127 = int (n mod 128)" by (simp add: and_127 zmod_int)
  show ?case
  proof (cases "n < 128")
    case True
    then show ?thesis by (subst write_varint.simps) (simp add: Let_def d m varint_bytes.simps [of n])
  next
    case False
    have "int (n mod 128) OR 128 = int (n mod 128 + 128)" using or_128 [of "int (n mod 128)"] by simp
    then show ?thesis
      using False less.IH [of "n div 128"]
      by (subst write_varint.simps) (simp add: Let_def d m varint_bytes.simps [of n] del: of_nat_add)
  qed
qed

lemma write_varint_Some:
  assumes "write_varint buf v = Some r"
  shows "0 \<le> v"
proof (rule write_varint.raw_induct [where P = "\<lambda>_ v _. 0 \<le> v", OF _ assms])
  fix wr buf v r
  assume IH: "\<And>buf v r. wr buf v = Some r \<Longrightarrow> 0 \<le> v"
    and run: "(let byte = v AND 127; value' = drop_bit 7 v in
         if value' \<noteq> 0 then wr (buf @ [word_of_int (byte OR 128)]) value' else Some (buf @ [word_of_int byte])) = Some r"
  show "0 \<le> v"
  proof (cases "drop_bit 7 v = 0")
    case True
    then show ?thesis by (metis drop_bit_nonnegative_int_iff order_refl)
  next
    case False
    then have "0 \<le> drop_bit 7 v" using run by (intro IH [of _ "drop_bit 7 v" r]) (simp add: Let_def)
    then show ?thesis by simp
  qed
qed

lemma write_varint_total: "write_varint buf v = (if 0 \<le> v then Some (buf @ varint_bytes (nat v)) else None)"
  using write_varint_nat [of buf "nat v"] write_varint_Some [of buf v] by (cases "write_varint buf v") auto

lemma read_varint_bytes: "read_varint (varint_bytes n @ rest) = Some (int n, rest)"
proof (induction n rule: less_induct)
  case (less n)
  show ?case
  proof (cases "n < 128")
    case True
    then show ?thesis
      by (simp add: varint_bytes.simps [of n] word_less_def unsigned_of_nat take_bit_eq_mod)
  next
    case False
    have "uint (of_nat (n mod 128 + 128) :: 8 word) = int (n mod 128 + 128)"
      by (simp add: unsigned_of_nat take_bit_eq_mod del: of_nat_add)
    moreover have "\<not> (of_nat (n mod 128 + 128) :: 8 word) < 128" using calculation by (simp add: word_less_def)
    moreover have "int n = int (n mod 128) + 128 * int (n div 128)"
      by (metis mult_div_mod_eq add.commute of_nat_add of_nat_mult of_nat_numeral)
    ultimately show ?thesis
      using False less.IH [of "n div 128"] by (simp add: varint_bytes.simps [of n] del: of_nat_add)
  qed
qed

section \<open>Directories\<close>

definition enc :: "int list \<Rightarrow> bytes" where
  "enc vs = concat (map (varint_bytes \<circ> nat) vs)"

lemma enc_simps [simp]: "enc [] = []" "enc (v # vs) = varint_bytes (nat v) @ enc vs"
  by (simp_all add: enc_def)

lemma read_varints_enc: "\<forall>v\<in>set vs. 0 \<le> v \<Longrightarrow> read_varints (length vs) (enc vs @ rest) = Some (vs, rest)"
  by (induction vs) (simp_all add: read_varint_bytes)

fun deltas :: "int \<Rightarrow> int list \<Rightarrow> int list" where
  "deltas acc [] = []"
| "deltas acc (i # is) = (i - acc) # deltas i is"

lemma deltas_props [simp]: "length (deltas acc is) = length is" "partial_sums acc (deltas acc is) = is"
  by (induction "is" arbitrary: acc) simp_all

fun offset_codes :: "entry option \<Rightarrow> entry list \<Rightarrow> int list" where
  "offset_codes prev [] = []"
| "offset_codes prev (e # es) = offset_code prev e # offset_codes (Some e) es"

lemma length_offset_codes [simp]: "length (offset_codes prev es) = length es"
  by (induction es arbitrary: prev) simp_all

definition bind_nonneg :: "int list \<Rightarrow> bytes \<Rightarrow> bytes option" where
  "bind_nonneg vs buf = (if \<forall>v\<in>set vs. 0 \<le> v then Some (buf @ enc vs) else None)"

lemma bind_nonneg_simps:
  "bind_nonneg [] buf = Some buf"
  "bind_nonneg (v # vs) buf = do { b \<leftarrow> write_varint buf v; bind_nonneg vs b }"
  by (simp_all add: bind_nonneg_def write_varint_total)

lemma write_ids_total: "write_ids acc es buf = bind_nonneg (deltas acc (map tile_id es)) buf"
  by (induction es arbitrary: acc buf) (simp_all add: bind_nonneg_simps cong: Option.bind_cong)

lemma write_each_total: "write_each f es buf = bind_nonneg (map f es) buf"
  by (induction es arbitrary: buf) (simp_all add: bind_nonneg_simps cong: Option.bind_cong)

lemma write_offsets_total: "write_offsets prev es buf = bind_nonneg (offset_codes prev es) buf"
  by (induction es arbitrary: prev buf) (simp_all add: bind_nonneg_simps cong: Option.bind_cong)

lemma bind_nonneg_append: "do { b \<leftarrow> bind_nonneg us buf; bind_nonneg vs b } = bind_nonneg (us @ vs) buf"
  by (auto simp: bind_nonneg_def enc_def)

text \<open>The lists a directory is made of, and when they can be written at all.\<close>

definition directory_values :: "entry list \<Rightarrow> int list" where
  "directory_values es =
     deltas 0 (map tile_id es) @ map run_length es @ map length_of es @ offset_codes None es"

lemma serialize_total:
  "serialize_directory es =
     (if \<forall>v\<in>set (directory_values es). 0 \<le> v then Some (enc (int (length es) # directory_values es)) else None)"
proof -
  have "serialize_directory es = bind_nonneg (int (length es) # directory_values es) []"
    unfolding directory_values_def bind_nonneg_simps bind_nonneg_append [symmetric] serialize_directory_def
      write_ids_total write_each_total write_offsets_total by simp
  then show ?thesis by (auto simp: bind_nonneg_def)
qed

text \<open>A directory of non-negative entries in ascending order.\<close>

definition well_ordered :: "entry list \<Rightarrow> bool" where
  "well_ordered es \<longleftrightarrow> sorted (0 # map tile_id es) \<and> (\<forall>e\<in>set es. 0 \<le> offset e \<and> 0 \<le> length_of e \<and> 0 \<le> run_length e)"

lemma deltas_nonneg: "sorted (acc # is) \<longleftrightarrow> (\<forall>d\<in>set (deltas acc is). 0 \<le> d)"
  by (induction "is" arbitrary: acc) (auto intro: order_trans)

lemma offset_codes_nonneg: "\<forall>e\<in>set es. 0 \<le> offset e \<Longrightarrow> \<forall>c\<in>set (offset_codes prev es). 0 \<le> c"
  by (induction es arbitrary: prev) (auto simp: offset_code_def split: option.splits)

definition next_offset :: "entry option \<Rightarrow> int option" where
  "next_offset = map_option (\<lambda>p. offset p + length_of p)"

lemma read_offset_codes:
  "\<forall>e\<in>set es. 0 \<le> offset e \<Longrightarrow>
   read_offsets (next_offset prev) (zip (offset_codes prev es) (map length_of es)) = map offset es"
proof (induction es arbitrary: prev)
  case (Cons e es)
  have "(case next_offset prev of Some n \<Rightarrow> if offset_code prev e = 0 then n else offset_code prev e - 1
         | None \<Rightarrow> offset_code prev e - 1) = offset e"
    using Cons.prems by (auto simp: offset_code_def next_offset_def split: option.splits)
  moreover have "next_offset (Some e) = Some (offset e + length_of e)" by (simp add: next_offset_def)
  ultimately show ?case using Cons.IH [of "Some e"] Cons.prems by (simp add: Let_def)
qed simp

lemma rezip_entries:
  "map (\<lambda>(i, r, l, off). \<lparr>tile_id = i, offset = off, length_of = l, run_length = r\<rparr>)
     (zip (map tile_id es) (zip (map run_length es) (zip (map length_of es) (map offset es)))) = es"
  by (induction es) simp_all

lemma serialize_well_ordered:
  "well_ordered es \<Longrightarrow> serialize_directory es = Some (enc (int (length es) # directory_values es))"
  using deltas_nonneg [of 0 "map tile_id es"] offset_codes_nonneg [of es None]
  unfolding serialize_total well_ordered_def directory_values_def by auto

lemma deserialize_enc:
  assumes "well_ordered es"
  shows "deserialize_directory (enc (int (length es) # directory_values es)) = Some es"
proof -
  have nn: "\<forall>d\<in>set (deltas 0 (map tile_id es)). 0 \<le> d" "\<forall>r\<in>set (map run_length es). 0 \<le> r"
      "\<forall>l\<in>set (map length_of es). 0 \<le> l" "\<forall>c\<in>set (offset_codes None es). 0 \<le> c"
    using assms deltas_nonneg [of 0 "map tile_id es"] offset_codes_nonneg [of es None] by (auto simp: well_ordered_def)
  have app: "enc (xs @ ys) = enc xs @ enc ys" for xs ys by (simp add: enc_def)
  have offs: "read_offsets None (zip (offset_codes None es) (map length_of es)) = map offset es"
    using assms read_offset_codes [of es None] by (simp add: well_ordered_def next_offset_def)
  show ?thesis
    using read_varints_enc [OF nn(1)] read_varints_enc [OF nn(2)] read_varints_enc [OF nn(3)] read_varints_enc [OF nn(4), of "[]"]
    by (simp add: deserialize_directory_def directory_values_def read_varint_bytes app offs rezip_entries)
qed

text \<open>
  Termination of the directory writer: for entries with non-negative offsets and lengths,
  serialisation returns exactly when the tile identifiers are non-negative and in ascending order;
  otherwise a difference is negative and the varint loop runs for ever.
\<close>

theorem serialize_returns_iff_sorted:
  assumes "\<forall>e\<in>set es. 0 \<le> offset e \<and> 0 \<le> length_of e \<and> 0 \<le> run_length e"
  shows "(\<exists>bs. serialize_directory es = Some bs) \<longleftrightarrow> sorted (0 # map tile_id es)"
  unfolding serialize_total using assms deltas_nonneg [of 0 "map tile_id es"] offset_codes_nonneg [of es None]
  by (auto simp: directory_values_def)

theorem serialize_returns_iff_sorted_witness:
  "(\<exists>bs. serialize_directory [\<lparr>tile_id = 5, offset = 0, length_of = 3, run_length = 1\<rparr>] = Some bs)
   \<and> \<not> (\<exists>bs. serialize_directory [\<lparr>tile_id = 5, offset = 0, length_of = 3, run_length = 1\<rparr>,
                                \<lparr>tile_id = 2, offset = 3, length_of = 3, run_length = 1\<rparr>] = Some bs)"
  by (subst (1 2) serialize_returns_iff_sorted) auto

text \<open>
  Directories round-trip: the format's reader recovers from a serialised directory exactly the
  entries that were written, whether they point to tiles or to leaf directories.
\<close>

theorem directory_roundtrip:
  assumes "well_ordered es"
  shows "\<exists>bs. serialize_directory es = Some bs \<and> deserialize_directory bs = Some es"
  using serialize_well_ordered [OF assms] deserialize_enc [OF assms] by blast

theorem directory_roundtrip_witness:
  "let es = [\<lparr>tile_id = 5, offset = 0, length_of = 300, run_length = 1\<rparr>, \<lparr>tile_id = 9, offset = 300, length_of = 2, run_length = 1\<rparr>]
   in \<exists>bs. serialize_directory es = Some bs \<and> deserialize_directory bs = Some es"
  unfolding Let_def by (rule directory_roundtrip) (simp add: well_ordered_def)

section \<open>The header fields\<close>

lemma length_put: "pos + length bs \<le> length h \<Longrightarrow> length (put pos bs h) = length h"
  by (simp add: put_def)

lemma take_put: "n \<le> pos \<Longrightarrow> pos \<le> length h \<Longrightarrow> take n (put pos bs h) = take n h"
  by (simp add: put_def min_def)

lemma read_put: "pos \<le> length h \<Longrightarrow> take (length bs) (drop pos (put pos bs h)) = bs"
  by (simp add: put_def)

lemma length_le_bytes [simp]: "length (le_bytes n v) = n"
  by (simp add: le_bytes_def)

lemma le_bytes_Suc: "le_bytes (Suc n) v = word_of_int v # le_bytes n (drop_bit 8 v)"
  by (simp add: le_bytes_def upt_conv_Cons map_Suc_upt [symmetric] add.commute del: upt_Suc)

lemma le_int_le_bytes: "le_int (le_bytes n v) = v mod 256 ^ n"
proof (induction n arbitrary: v)
  case (Suc n)
  have "le_int (le_bytes (Suc n) v) = v mod 256 + 256 * (v div 256 mod 256 ^ n)"
    using Suc.IH [of "v div 256"]
    by (simp add: le_bytes_Suc le_int_def drop_bit_eq_div unsigned_of_int take_bit_eq_mod)
  then show ?case by (simp add: zmod_zmult2_eq)
qed (simp add: le_int_def le_bytes_def)

text \<open>Writing at or after a position keeps the bytes before it.\<close>

definition keeps :: "nat \<Rightarrow> bytes \<Rightarrow> bytes \<Rightarrow> bool" where
  "keeps n h h' \<longleftrightarrow> length h' = length h \<and> take n h' = take n h"

lemma keeps_trans: "keeps n h h' \<Longrightarrow> keeps n h' h'' \<Longrightarrow> keeps n h h''"
  by (simp add: keeps_def)

lemma keeps_put: "n \<le> pos \<Longrightarrow> pos + length bs \<le> length h \<Longrightarrow> keeps n h (put pos bs h)"
  by (simp add: keeps_def length_put take_put)

lemma keeps_refl: "keeps n h h"
  by (simp add: keeps_def)

lemma keeps_put_after: "keeps n h g \<Longrightarrow> n \<le> pos \<Longrightarrow> pos + length bs \<le> length h \<Longrightarrow> keeps n h (put pos bs g)"
  by (rule keeps_trans [OF _ keeps_put]) (auto simp: keeps_def)

lemma keeps_read: "keeps n h h' \<Longrightarrow> pos + k \<le> n \<Longrightarrow> take k (drop pos h') = take k (drop pos h)"
proof -
  assume k: "keeps n h h'" "pos + k \<le> n"
  have "take k (drop pos g) = drop pos (take (pos + k) (take n g))" for g :: bytes
    using k(2) by (simp add: take_drop add.commute min_def)
  from this [of h] this [of h'] show ?thesis using k(1) by (simp only: keeps_def)
qed

lemma pack_Q_InrD: "pack_Q pos v h = Inr h' \<Longrightarrow> 0 \<le> v \<and> v < 2 ^ 64 \<and> h' = put pos (le_bytes 8 v) h"
  by (simp add: pack_Q_def split: if_splits)

lemma pack_all_Q:
  assumes "pack_all pack_Q fs h = Inr h'" "sorted_wrt (\<lambda>p q. fst p + 8 \<le> fst q) fs" "\<forall>p\<in>set fs. fst p + 8 \<le> length h"
  shows "length h' = length h" and "\<And>n. \<forall>p\<in>set fs. n \<le> fst p \<Longrightarrow> keeps n h h'"
    and "\<And>pos v. (pos, v) \<in> set fs \<Longrightarrow> header_field pos h' = v"
proof -
  have "length h' = length h \<and> (\<forall>n. (\<forall>p\<in>set fs. n \<le> fst p) \<longrightarrow> keeps n h h') \<and>
        (\<forall>pos v. (pos, v) \<in> set fs \<longrightarrow> header_field pos h' = v)"
    using assms
  proof (induction fs arbitrary: h)
    case (Cons f fs)
    obtain pos v where f: "f = (pos, v)" by (cases f)
    obtain h1 where h1: "pack_Q pos v h = Inr h1" and rest: "pack_all pack_Q fs h1 = Inr h'"
      using Cons.prems(1) f by (auto split: sum.splits)
    note v = pack_Q_InrD [OF h1]
    have fit: "pos + 8 \<le> length h" using Cons.prems(3) f by simp
    then have l1: "length h1 = length h" using v by (simp add: length_put)
    have IH: "length h' = length h1 \<and> (\<forall>n. (\<forall>p\<in>set fs. n \<le> fst p) \<longrightarrow> keeps n h1 h') \<and>
        (\<forall>pos v. (pos, v) \<in> set fs \<longrightarrow> header_field pos h' = v)"
      using Cons.prems l1 f by (intro Cons.IH [OF rest]) auto
    then have "keeps (pos + 8) h1 h'" using Cons.prems(2) f by auto
    from keeps_read [OF this, of pos 8] have "take 8 (drop pos h') = le_bytes 8 v"
      using v fit read_put [of pos h "le_bytes 8 v"] by simp
    then have "header_field pos h' = v"
      using v le_int_le_bytes [of 8 v] by (simp add: header_field_def slice_def)
    moreover have "keeps n h h'" if "\<forall>p\<in>set (f # fs). n \<le> fst p" for n
    proof (rule keeps_trans)
      show "keeps n h h1" using that f v fit by (auto intro: keeps_put)
      show "keeps n h1 h'" using IH that by simp
    qed
    ultimately show ?case using IH f l1 by auto
  qed (simp add: keeps_def)
  then show "length h' = length h" "\<And>n. \<forall>p\<in>set fs. n \<le> fst p \<Longrightarrow> keeps n h h'"
    "\<And>pos v. (pos, v) \<in> set fs \<Longrightarrow> header_field pos h' = v" by blast+
qed

lemma pack_e7_keeps:
  "pack_e7 F fs h = Inr h' \<Longrightarrow> \<forall>p\<in>set fs. n \<le> fst p \<and> fst p + 4 \<le> length h \<Longrightarrow> keeps n h h'"
proof (induction fs arbitrary: h)
  case (Cons f fs)
  obtain pos c where f: "f = (pos, c)" by (cases f)
  obtain v where v: "pack_e7 F fs (put pos (le_bytes 4 v) h) = Inr h'"
    using Cons.prems(1) f by (auto simp: pack_i_def split: sum.splits if_splits)
  have fit: "n \<le> pos" "pos + 4 \<le> length h" using Cons.prems(2) f by auto
  then have "keeps n (put pos (le_bytes 4 v) h) h'"
    using Cons.prems(2) length_put [of pos "le_bytes 4 v" h] by (intro Cons.IH [OF v]) auto
  with fit show ?case by - (rule keeps_trans [OF keeps_put], auto)
qed (simp add: keeps_def)

lemma header_field_keeps: "keeps 96 h h' \<Longrightarrow> pos + 8 \<le> 96 \<Longrightarrow> header_field pos h' = header_field pos h"
  using keeps_read [of 96 h h' pos 8] by (simp add: header_field_def slice_def)

lemma write_header_fields:
  assumes "write_header F sec cl ic tc tt mnz mxz box cz clon clat = Inr h"
  shows "length h = header_size \<and> take 8 h = pmtiles_magic @ [3] \<and> (\<forall>(pos, v)\<in>set (section_fields sec). header_field pos h = v)"
proof -
  define h0 where "h0 = put 7 [3] (put 0 pmtiles_magic (replicate header_size 0))"
  have h0: "length h0 = 127" "take 8 h0 = pmtiles_magic @ [3]"
    by (simp_all add: h0_def put_def header_size_def pmtiles_magic_def)
  obtain h1 where h1: "pack_all pack_Q (section_fields sec) h0 = Inr h1"
    using assms by (auto simp: write_header_def h0_def Let_def split: sum.splits)
  define h2 where "h2 = put 101 (byte_of mxz) (put 100 (byte_of mnz) (put 99 [word_of_int tt] (put 98 [word_of_int tc]
    (put 97 [word_of_int ic] (put 96 [if cl then 1 else 0] h1)))))"
  obtain h3 where h3: "pack_e7 F [(102, min_lon box), (106, min_lat box), (110, max_lon box), (114, max_lat box)] h2 = Inr h3"
      and last: "pack_e7 F [(119, clon), (123, clat)] (put 118 (byte_of cz) h3) = Inr h"
    using assms h1 by (auto simp: write_header_def h0_def h2_def Let_def split: sum.splits)
  have sec: "sorted_wrt (\<lambda>p q. fst p + 8 \<le> fst q) (section_fields sec)" "\<forall>p\<in>set (section_fields sec). fst p + 8 \<le> length h0"
      "\<forall>p\<in>set (section_fields sec). 8 \<le> fst p \<and> fst p + 8 \<le> 96"
    using h0 by (simp_all add: section_fields_def)
  note q = pack_all_Q [OF h1 sec(1,2)]
  have l1: "length h1 = 127" using q(1) h0(1) by simp
  have [simp]: "length (byte_of v) = 1" for v by (simp add: byte_of_def)
  have l2: "keeps 96 h1 h2"
    unfolding h2_def by (intro keeps_put_after keeps_refl) (simp_all add: l1)
  have "keeps 96 h2 h3" using l1 l2 by (intro pack_e7_keeps [OF h3]) (auto simp: keeps_def)
  then have l3: "keeps 96 h1 h3" using l2 by (rule keeps_trans [rotated])
  then have "keeps 96 h1 (put 118 (byte_of cz) h3)" by (rule keeps_put_after) (simp_all add: l1)
  moreover have "keeps 96 (put 118 (byte_of cz) h3) h"
    using l1 l3 by (intro pack_e7_keeps [OF last]) (auto simp: keeps_def length_put)
  ultimately have k: "keeps 96 h1 h" by (rule keeps_trans)
  have "take 8 h = take 8 h1" using keeps_read [OF k, of 0 8] by simp
  also have "\<dots> = take 8 h0" using q(2) [of 8] sec(3) by (auto simp: keeps_def)
  finally show ?thesis using h0(2) k l1 q(3) sec(3) header_field_keeps [OF k] by (auto simp: keeps_def header_size_def)
qed

section \<open>Looking up tiles\<close>

lemma find_entry_append:
  "find_entry (xs @ ys) i = (if \<exists>e\<in>set ys. tile_id e \<le> i then find_entry ys i else find_entry xs i)"
proof (cases "\<exists>e\<in>set ys. tile_id e \<le> i")
  case True
  then have "rev (filter (\<lambda>e. tile_id e \<le> i) ys) \<noteq> []" by (auto simp: filter_empty_conv)
  then obtain e es where "rev (filter (\<lambda>e. tile_id e \<le> i) ys) = e # es" by (meson neq_Nil_conv)
  then show ?thesis using True by (simp add: find_entry_def)
next
  case False
  then have "filter (\<lambda>e. tile_id e \<le> i) ys = []" by (auto simp: filter_empty_conv)
  then show ?thesis using False by (simp add: find_entry_def)
qed

lemma find_entry_Cons:
  "find_entry (e # es) i =
     (if \<exists>e'\<in>set es. tile_id e' \<le> i then find_entry es i
      else if tile_id e \<le> i \<and> (run_length e = 0 \<or> i < tile_id e + run_length e) then Some e else None)"
  using find_entry_append [of "[e]" es i] by (simp add: find_entry_def)

lemma find_entry_None: "\<forall>e\<in>set es. i < tile_id e \<Longrightarrow> find_entry es i = None"
proof -
  assume "\<forall>e\<in>set es. i < tile_id e"
  then have "filter (\<lambda>e. tile_id e \<le> i) es = []" by (auto simp: filter_empty_conv)
  then show ?thesis by (simp add: find_entry_def)
qed

text \<open>The entries of the data section, and what a lookup among them finds.\<close>

lemma dir_entries_ids [simp]: "map tile_id (dir_entries off raw) = map fst raw"
  by (induction off raw rule: dir_entries.induct) simp_all

lemma length_dir_entries [simp]: "length (dir_entries off raw) = length raw"
  by (induction off raw rule: dir_entries.induct) simp_all

lemma dir_entries_bounds:
  "0 \<le> off \<Longrightarrow> e \<in> set (dir_entries off raw) \<Longrightarrow> off \<le> offset e \<and> 0 \<le> length_of e \<and> run_length e = 1"
  by (induction off raw rule: dir_entries.induct) fastforce+

definition ascending :: "raw_tiles \<Rightarrow> bool" where
  "ascending raw \<longleftrightarrow> sorted_wrt (<) (map fst raw) \<and> (\<forall>i\<in>fst ` set raw. 0 \<le> i)"

lemma dir_entries_well_ordered: "ascending raw \<Longrightarrow> well_ordered (dir_entries 0 raw)"
  using dir_entries_bounds [of 0 _ raw] by (fastforce simp: well_ordered_def ascending_def strict_sorted_imp_sorted)

lemma slice_append_right: "int (length xs) \<le> off \<Longrightarrow> slice off len (xs @ ys) = slice (off - int (length xs)) len ys"
  by (simp add: slice_def nat_diff_distrib)

lemma slice_append_left: "0 \<le> off \<Longrightarrow> 0 \<le> len \<Longrightarrow> off + len \<le> int (length xs) \<Longrightarrow> slice off len (xs @ ys) = slice off len xs"
  by (simp add: slice_def)

lemma slice_prefix: "slice 0 (int (length xs)) (xs @ ys) = xs"
  by (simp add: slice_def)

text \<open>A lookup in the entries of the data finds the tile's bytes, and nothing for an absent tile.\<close>

lemma find_dir_entries:
  assumes "sorted_wrt (<) (map fst raw)" "0 \<le> off"
  shows "case find_entry (dir_entries off raw) i of
      None \<Rightarrow> map_of raw i = None
    | Some e \<Rightarrow> run_length e = 1 \<and> off \<le> offset e \<and> 0 \<le> length_of e \<and>
        map_of raw i = Some (slice (offset e - off) (length_of e) (concat (map snd raw)))"
  using assms
proof (induction raw arbitrary: off)
  case (Cons p raw)
  obtain k data where p: "p = (k, data)" by (cases p)
  let ?es = "dir_entries (off + int (length data)) raw"
  have ids: "tile_id ` set ?es = fst ` set raw" by (metis dir_entries_ids set_map)
  have IH: "case find_entry ?es i of
      None \<Rightarrow> map_of raw i = None
    | Some e \<Rightarrow> run_length e = 1 \<and> off + int (length data) \<le> offset e \<and> 0 \<le> length_of e \<and>
        map_of raw i = Some (slice (offset e - (off + int (length data))) (length_of e) (concat (map snd raw)))"
    using Cons.prems p by (intro Cons.IH) auto
  have later: "\<forall>j\<in>fst ` set raw. k < j" using Cons.prems(1) p by auto
  show ?case
  proof (cases "\<exists>e\<in>set ?es. tile_id e \<le> i")
    case True
    then have "\<exists>j\<in>fst ` set raw. j \<le> i" using ids by (metis imageE image_eqI)
    then have "k \<noteq> i" using later by fastforce
    then show ?thesis
      using True IH p
      by (auto simp: find_entry_Cons slice_append_right algebra_simps split: option.splits)
  next
    case False
    then have no: "\<forall>j\<in>fst ` set raw. i < j" using ids by (metis imageE image_eqI not_less)
    then have "map_of raw i = None" by (auto simp: map_of_eq_None_iff)
    then show ?thesis using False p slice_prefix [of data] by (auto simp: find_entry_Cons)
  qed
qed (simp add: find_entry_def)

section \<open>Leaf directories\<close>

lemma chunks_props:
  assumes "0 < n"
  shows "concat (chunks n xs) = xs \<and> (\<forall>c\<in>set (chunks n xs). c \<noteq> [])"
  by (induction n xs rule: chunks.induct) auto

lemma well_ordered_append: "well_ordered (xs @ ys) \<Longrightarrow> well_ordered xs \<and> well_ordered ys"
  by (auto simp: well_ordered_def sorted_append)

lemma write_leaves_total:
  assumes "well_ordered (concat cs)" "\<forall>c\<in>set cs. c \<noteq> []" "0 \<le> acc"
  shows "\<exists>rs bs. write_leaves acc cs = Some (rs, bs) \<and> map tile_id rs = map (tile_id \<circ> hd) cs \<and>
           (\<forall>r\<in>set rs. acc \<le> offset r \<and> 0 \<le> length_of r \<and> run_length r = 0)"
  using assms
proof (induction cs arbitrary: acc)
  case (Cons c cs)
  let ?leaf = "enc (int (length c) # directory_values c)"
  have wo: "well_ordered c" "well_ordered (concat cs)" using Cons.prems(1) well_ordered_append [of c "concat cs"] by auto
  obtain rs bs where "write_leaves (acc + int (length ?leaf)) cs = Some (rs, bs)" "map tile_id rs = map (tile_id \<circ> hd) cs"
      "\<forall>r\<in>set rs. acc + int (length ?leaf) \<le> offset r \<and> 0 \<le> length_of r \<and> run_length r = 0"
    using Cons.IH [OF wo(2), of "acc + int (length ?leaf)"] Cons.prems(2,3) by (auto simp del: enc_simps)
  then show ?case using serialize_well_ordered [OF wo(1)] by (fastforce simp del: enc_simps)
qed simp

definition leaf_bytes :: "entry list \<Rightarrow> bytes" where
  "leaf_bytes c = enc (int (length c) # directory_values c)"

lemma write_leaves_ConsE:
  assumes "write_leaves acc (c # cs) = Some (rs, bs)" "well_ordered c"
  obtains rs' bs' where "write_leaves (acc + int (length (leaf_bytes c))) cs = Some (rs', bs')"
    "rs = \<lparr>tile_id = tile_id (hd c), offset = acc, length_of = int (length (leaf_bytes c)), run_length = 0\<rparr> # rs'"
    "bs = leaf_bytes c @ bs'"
  using assms(1) serialize_well_ordered [OF assms(2), folded leaf_bytes_def]
  by (auto simp: Option.bind_eq_Some_conv)

lemma hd_least:
  assumes "well_ordered (concat cs)" "d \<in> set cs" "e \<in> set d"
  shows "tile_id (hd d) \<le> tile_id e"
proof -
  have "well_ordered d" using assms(1,2) by (induction cs) (auto dest: well_ordered_append)
  then show ?thesis using assms(3) by (cases d) (auto simp: well_ordered_def)
qed

lemma write_leaves_ids:
  assumes "write_leaves acc cs = Some (rs, bs)" "well_ordered (concat cs)" "\<forall>c\<in>set cs. c \<noteq> []" "0 \<le> acc"
  shows "tile_id ` set rs = tile_id ` hd ` set cs"
  using write_leaves_total [OF assms(2-4)] assms(1) by (metis Pair_inject image_comp list.set_map option.inject)

text \<open>Following the root to a leaf finds what a lookup in all entries finds.\<close>

definition leads_to :: "int \<Rightarrow> bytes \<Rightarrow> int \<Rightarrow> entry option \<Rightarrow> entry option \<Rightarrow> bool" where
  "leads_to acc bs i found result \<longleftrightarrow>
     (case found of
        None \<Rightarrow> result = None
      | Some r \<Rightarrow> run_length r = 0 \<and> acc \<le> offset r \<and> 0 \<le> length_of r \<and> offset r - acc + length_of r \<le> int (length bs) \<and>
          (\<exists>c. deserialize_directory (slice (offset r - acc) (length_of r) bs) = Some c \<and> find_entry c i = result))"

lemma leads_to_shift: "leads_to (acc + int (length leaf)) bs i found result \<Longrightarrow> leads_to acc (leaf @ bs) i found result"
  by (auto simp: leads_to_def slice_append_right diff_diff_eq split: option.splits)

lemma find_through_leaves:
  assumes "write_leaves acc cs = Some (rs, bs)" "well_ordered (concat cs)" "\<forall>c\<in>set cs. c \<noteq> []" "0 \<le> acc"
  shows "leads_to acc bs i (find_entry rs i) (find_entry (concat cs) i)"
  using assms
proof (induction cs arbitrary: acc rs bs)
  case (Cons c cs)
  have wo: "well_ordered c" "well_ordered (concat cs)" using Cons.prems(2) well_ordered_append [of c "concat cs"] by auto
  obtain rs' bs' where w: "write_leaves (acc + int (length (leaf_bytes c))) cs = Some (rs', bs')"
      and rs: "rs = \<lparr>tile_id = tile_id (hd c), offset = acc, length_of = int (length (leaf_bytes c)), run_length = 0\<rparr> # rs'"
      and bs: "bs = leaf_bytes c @ bs'"
    by (rule write_leaves_ConsE [OF Cons.prems(1) wo(1)])
  have ids: "tile_id ` set rs' = tile_id ` hd ` set cs" using Cons.prems(3,4) by (intro write_leaves_ids [OF w wo(2)]) auto
  show ?case
  proof (cases "\<exists>r\<in>set rs'. tile_id r \<le> i")
    case True
    then obtain d where "d \<in> set cs" "tile_id (hd d) \<le> i" using ids by (metis imageE image_eqI)
    then have "\<exists>e\<in>set (concat cs). tile_id e \<le> i" using Cons.prems(3) by (auto intro!: bexI [of _ d] bexI [of _ "hd d"])
    then have cat: "find_entry (concat (c # cs)) i = find_entry (concat cs) i" by (simp add: find_entry_append)
    have "leads_to (acc + int (length (leaf_bytes c))) bs' i (find_entry rs' i) (find_entry (concat cs) i)"
      using Cons.prems(3,4) by (intro Cons.IH [OF w wo(2)]) auto
    then have "leads_to acc bs i (find_entry rs' i) (find_entry (concat cs) i)" unfolding bs by (rule leads_to_shift)
    moreover have "find_entry rs i = find_entry rs' i" using True unfolding rs by (simp add: find_entry_Cons)
    ultimately show ?thesis unfolding cat by simp
  next
    case False
    have "i < tile_id (hd d)" if "d \<in> set cs" for d
    proof -
      have "tile_id (hd d) \<in> tile_id ` set rs'" unfolding ids using that by simp
      then show ?thesis using False by (auto simp: not_le)
    qed
    then have "\<forall>e\<in>set (concat cs). i < tile_id e" using hd_least [OF wo(2)] by fastforce
    then have cat: "find_entry (concat (c # cs)) i = find_entry c i" by (force simp: find_entry_append)
    have low: "find_entry c i = None" if "i < tile_id (hd c)"
      using that hd_least [of "[c]" c] wo(1) by (intro find_entry_None) fastforce
    have "deserialize_directory (slice 0 (int (length (leaf_bytes c))) (leaf_bytes c @ bs')) = Some c"
      using deserialize_enc [OF wo(1)] unfolding slice_prefix leaf_bytes_def .
    then show ?thesis
      using False low unfolding rs bs cat by (auto simp: find_entry_Cons leads_to_def)
  qed
qed (simp add: find_entry_def leads_to_def)

lemma sorted_leaf_ids:
  "well_ordered (concat cs) \<Longrightarrow> \<forall>c\<in>set cs. c \<noteq> [] \<Longrightarrow> sorted (0 # map (tile_id \<circ> hd) cs)"
proof (induction cs)
  case (Cons c cs)
  have wo: "well_ordered c" "well_ordered (concat cs)" using Cons.prems(1) well_ordered_append [of c "concat cs"] by auto
  have hd_mem: "hd c \<in> set c" "\<And>d. d \<in> set cs \<Longrightarrow> hd d \<in> set (concat cs)"
    using Cons.prems(2) by (auto intro!: bexI [where x = d for d])
  have "tile_id (hd c) \<le> tile_id (hd d)" if "d \<in> set cs" for d
    using Cons.prems(1) hd_mem(1) hd_mem(2) [OF that] by (auto simp: well_ordered_def sorted_append)
  moreover have "0 \<le> tile_id (hd c)" using wo(1) hd_mem(1) by (auto simp: well_ordered_def)
  ultimately show ?case using Cons.IH wo(2) Cons.prems(2) by auto
qed simp

lemma write_leaves_well_ordered:
  assumes "write_leaves 0 cs = Some (rs, bs)" "well_ordered (concat cs)" "\<forall>c\<in>set cs. c \<noteq> []"
  shows "well_ordered rs"
  using write_leaves_total [OF assms(2,3), of 0] assms(1) sorted_leaf_ids [OF assms(2,3)]
  by (auto simp: well_ordered_def)

section \<open>The archive read back\<close>

lemma header_field_append: "pos + 8 \<le> length h \<Longrightarrow> header_field pos (h @ rest) = header_field pos h"
  by (simp add: header_field_def slice_def)

text \<open>The five parts of an archive under a header that describes them.\<close>

record parts =
  hdr :: bytes
  rootd :: bytes
  meta :: bytes
  leaves :: bytes
  tdata :: bytes

definition whole :: "parts \<Rightarrow> bytes" where
  "whole p = hdr p @ rootd p @ meta p @ leaves p @ tdata p"

definition well_headed :: "nat \<Rightarrow> parts \<Rightarrow> bool" where
  "well_headed n p \<longleftrightarrow> length (hdr p) = header_size \<and> take 8 (hdr p) = pmtiles_magic @ [3] \<and>
     (\<forall>(pos, v)\<in>set (section_fields (layout n (rootd p) (meta p) (leaves p) (tdata p))). header_field pos (hdr p) = v)"

lemma whole_magic: "well_headed n p \<Longrightarrow> take 8 (whole p) = pmtiles_magic @ [3]"
  by (simp add: well_headed_def whole_def header_size_def)

lemma whole_fields:
  assumes "well_headed n p"
  shows "header_field 8 (whole p) = int (length (hdr p))" "header_field 16 (whole p) = int (length (rootd p))"
    "header_field 40 (whole p) = int (length (hdr p @ rootd p @ meta p))"
    "header_field 56 (whole p) = int (length (hdr p @ rootd p @ meta p @ leaves p))"
  using assms unfolding whole_def well_headed_def
  by (simp_all add: header_field_append section_fields_def layout_def Let_def header_size_def)

lemma root_slice: "well_headed n p \<Longrightarrow> slice (header_field 8 (whole p)) (header_field 16 (whole p)) (whole p) = rootd p"
  by (simp add: whole_fields) (simp add: whole_def slice_append_right slice_prefix)

lemma leaf_slice:
  assumes "well_headed n p" "0 \<le> off" "0 \<le> len" "off + len \<le> int (length (leaves p))"
  shows "slice (header_field 40 (whole p) + off) len (whole p) = slice off len (leaves p)"
proof -
  have "whole p = (hdr p @ rootd p @ meta p) @ leaves p @ tdata p" by (simp add: whole_def)
  then show ?thesis
    using assms(2-4) slice_append_right [of "hdr p @ rootd p @ meta p" "header_field 40 (whole p) + off" len "leaves p @ tdata p"]
    unfolding whole_fields(3) [OF assms(1)] by (simp add: slice_append_left)
qed

lemma data_slice:
  assumes "well_headed n p" "0 \<le> off"
  shows "slice (header_field 56 (whole p) + off) len (whole p) = slice off len (tdata p)"
proof -
  have "whole p = (hdr p @ rootd p @ meta p @ leaves p) @ tdata p" by (simp add: whole_def)
  then show ?thesis
    using assms(2) slice_append_right [of "hdr p @ rootd p @ meta p @ leaves p" "header_field 56 (whole p) + off" len "tdata p"]
    unfolding whole_fields(4) [OF assms(1)] by simp
qed

text \<open>What the entry found for a tile says about the tile's bytes.\<close>

definition points_to :: "bytes \<Rightarrow> entry option \<Rightarrow> bytes option \<Rightarrow> bool" where
  "points_to data found tile \<longleftrightarrow>
     (case found of None \<Rightarrow> tile = None
      | Some e \<Rightarrow> run_length e = 1 \<and> 0 \<le> offset e \<and> tile = Some (slice (offset e) (length_of e) data))"

lemma lookup_found:
  assumes "well_headed n p" "deserialize_directory dir = Some es" "points_to (tdata p) (find_entry es i) tile"
  shows "lookup_in (Suc depth) (whole p) dir i = tile"
  using assms(2,3) data_slice [OF assms(1)] by (auto simp: points_to_def split: option.splits)

lemma get_tile_whole: "well_headed n p \<Longrightarrow> get_tile (whole p) i = lookup_in (Suc (Suc 2)) (whole p) (rootd p) i"
proof -
  assume p: "well_headed n p"
  have "4 = Suc (Suc 2)" by simp
  then show ?thesis unfolding get_tile_def whole_magic [OF p] root_slice [OF p] by (simp only: refl if_True)
qed

lemma get_tile_root:
  assumes "well_headed n p" "deserialize_directory (rootd p) = Some es" "points_to (tdata p) (find_entry es i) tile"
  shows "get_tile (whole p) i = tile"
  unfolding get_tile_whole [OF assms(1)] by (rule lookup_found [OF assms])

lemma get_tile_leaf:
  assumes "well_headed n p" "deserialize_directory (rootd p) = Some rs"
    and "leads_to 0 (leaves p) i (find_entry rs i) found" "points_to (tdata p) found tile"
  shows "get_tile (whole p) i = tile"
proof (cases "find_entry rs i")
  case None
  then have "tile = None" using assms(3,4) by (auto simp: leads_to_def points_to_def)
  then show ?thesis unfolding get_tile_whole [OF assms(1)] lookup_in.simps(2) [of "Suc 2"] using None assms(2) by simp
next
  case (Some r)
  then obtain c where r: "run_length r = 0" "0 \<le> offset r" "0 \<le> length_of r" "offset r + length_of r \<le> int (length (leaves p))"
      and c: "deserialize_directory (slice (offset r) (length_of r) (leaves p)) = Some c" "find_entry c i = found"
    using assms(3) by (auto simp: leads_to_def)
  have "lookup_in (Suc 2) (whole p) (slice (header_field 40 (whole p) + offset r) (length_of r) (whole p)) i = tile"
    using c assms(4) leaf_slice [OF assms(1) r(2-4)] by (intro lookup_found [OF assms(1), of _ c]) simp_all
  then show ?thesis
    unfolding get_tile_whole [OF assms(1)] lookup_in.simps(2) [of "Suc 2"] using Some assms(2) r(1) by simp
qed

lemma find_points_to:
  assumes "ascending raw"
  shows "points_to (concat (map snd raw)) (find_entry (dir_entries 0 raw) i) (map_of raw i)"
  using find_dir_entries [of raw 0 i] assms by (auto simp: points_to_def ascending_def split: option.splits)

text \<open>Both directory layouts answer every lookup.\<close>

lemma build_directories_lookup:
  assumes "ascending raw"
  obtains rd lv where "build_directories (dir_entries 0 raw) = Some (rd, lv)"
    "\<And>n h mt i. well_headed n \<lparr>hdr = h, rootd = rd, meta = mt, leaves = lv, tdata = concat (map snd raw)\<rparr> \<Longrightarrow>
       get_tile (h @ rd @ mt @ lv @ concat (map snd raw)) i = map_of raw i"
proof (cases "length raw \<le> max_root_entries")
  case True
  let ?es = "dir_entries 0 raw"
  note wo = dir_entries_well_ordered [OF assms]
  show ?thesis
  proof (rule that)
    show "build_directories ?es = Some (leaf_bytes ?es, [])"
      using True serialize_well_ordered [OF wo, folded leaf_bytes_def] by (simp add: build_directories_def)
    show "get_tile (h @ leaf_bytes ?es @ mt @ [] @ concat (map snd raw)) i = map_of raw i"
      if "well_headed n \<lparr>hdr = h, rootd = leaf_bytes ?es, meta = mt, leaves = [], tdata = concat (map snd raw)\<rparr>" for n h mt i
      using get_tile_root [OF that, of ?es i] deserialize_enc [OF wo, folded leaf_bytes_def] find_points_to [OF assms]
      by (simp add: whole_def)
  qed
next
  case False
  let ?es = "dir_entries 0 raw" and ?cs = "chunks leaf_size (dir_entries 0 raw)"
  have cs: "concat ?cs = ?es" "\<forall>c\<in>set ?cs. c \<noteq> []" using chunks_props [of leaf_size ?es] by (auto simp: leaf_size_def)
  then have wo: "well_ordered (concat ?cs)" using dir_entries_well_ordered [OF assms] by simp
  obtain rs lv where w: "write_leaves 0 ?cs = Some (rs, lv)" using write_leaves_total [OF wo cs(2), of 0] by auto
  note wr = write_leaves_well_ordered [OF w wo cs(2)]
  show ?thesis
  proof (rule that)
    show "build_directories ?es = Some (leaf_bytes rs, lv)"
      using False w serialize_well_ordered [OF wr, folded leaf_bytes_def] by (simp add: build_directories_def)
    show "get_tile (h @ leaf_bytes rs @ mt @ lv @ concat (map snd raw)) i = map_of raw i"
      if "well_headed n \<lparr>hdr = h, rootd = leaf_bytes rs, meta = mt, leaves = lv, tdata = concat (map snd raw)\<rparr>" for n h mt i
      using get_tile_leaf [OF that, of rs i "find_entry ?es i"] deserialize_enc [OF wr, folded leaf_bytes_def]
        find_through_leaves [OF w wo cs(2), of i] find_points_to [OF assms] cs(1)
      by (simp add: whole_def)
  qed
qed

text \<open>When the header can be written: coordinates that fit 32 bits and sections that fit 64.\<close>

definition coord_ok :: "'f float_ops \<Rightarrow> 'f \<Rightarrow> bool" where
  "coord_ok F c \<longleftrightarrow> (case fl_e7 F c of None \<Rightarrow> False | Some v \<Rightarrow> - (2 ^ 31) \<le> v \<and> v < 2 ^ 31)"

definition box_ok :: "'f float_ops \<Rightarrow> 'f bbox \<Rightarrow> bool" where
  "box_ok F box \<longleftrightarrow> list_all (coord_ok F)
     [min_lon box, min_lat box, max_lon box, max_lat box, fl_mid F (min_lon box) (max_lon box), fl_mid F (min_lat box) (max_lat box)]"

lemma pack_e7_ok: "\<forall>p\<in>set fs. coord_ok F (snd p) \<Longrightarrow> \<exists>h'. pack_e7 F fs h = Inr h'"
proof (induction fs arbitrary: h)
  case (Cons f fs)
  obtain pos c where f: "f = (pos, c)" by (cases f)
  then obtain v where "e7 F c = Inr v" "- (2 ^ 31) \<le> v" "v < 2 ^ 31"
    using Cons.prems by (auto simp: coord_ok_def e7_def split: option.splits)
  then show ?case using Cons.IH Cons.prems f by (simp add: pack_i_def)
qed simp

lemma pack_all_ok: "\<forall>p\<in>set fs. 0 \<le> snd p \<and> snd p < 2 ^ 64 \<Longrightarrow> \<exists>h'. pack_all pack_Q fs h = Inr h'"
  by (induction fs arbitrary: h) (auto simp: pack_Q_def)

lemma write_header_ok:
  assumes "\<forall>p\<in>set (section_fields sec). 0 \<le> snd p \<and> snd p < 2 ^ 64" "box_ok F box"
  shows "\<exists>h. write_header F sec cl ic tc tt mnz mxz box cz (fl_mid F (min_lon box) (max_lon box)) (fl_mid F (min_lat box) (max_lat box)) = Inr h"
proof -
  obtain h1 where h1: "pack_all pack_Q (section_fields sec) (put 7 [3] (put 0 pmtiles_magic (replicate header_size 0))) = Inr h1"
    using pack_all_ok [OF assms(1)] by blast
  have "\<exists>h'. pack_e7 F [(102, min_lon box), (106, min_lat box), (110, max_lon box), (114, max_lat box)] h = Inr h'" for h
    using assms(2) by (intro pack_e7_ok) (auto simp: box_ok_def)
  moreover have "\<exists>h'. pack_e7 F [(119, fl_mid F (min_lon box) (max_lon box)), (123, fl_mid F (min_lat box) (max_lat box))] h = Inr h'" for h
    using assms(2) by (intro pack_e7_ok) (auto simp: box_ok_def)
  ultimately show ?thesis unfolding write_header_def Let_def h1 by (metis sum.case(2))
qed

text \<open>The built-in writer on ascending tiles: it returns, and a successful archive answers every lookup.\<close>

definition too_large :: "raw_tiles \<Rightarrow> bytes \<Rightarrow> bool" where
  "too_large raw mt \<longleftrightarrow>
     (case build_directories (dir_entries 0 raw) of
        None \<Rightarrow> False
      | Some (rd, lv) \<Rightarrow> 2 ^ 64 \<le> header_size + length rd + length mt + length lv + length (concat (map snd raw)) + length raw)"

definition writer_ok :: "'f float_ops \<Rightarrow> archive_error + bytes \<Rightarrow> 'f bbox \<Rightarrow> raw_tiles \<Rightarrow> bool" where
  "writer_ok F dumps box raw \<longleftrightarrow> box_ok F box \<and> (case dumps of Inl _ \<Rightarrow> False | Inr mt \<Rightarrow> \<not> too_large raw mt)"

lemma write_builtin_roundtrip:
  assumes "ascending raw"
  obtains r where "write_builtin F dumps mnz mxz box raw = Some r" "writer_ok F dumps box raw \<Longrightarrow> \<exists>a. r = Inr a"
    "\<And>out st. r = Inr (out, st) \<Longrightarrow>
       (\<forall>i. get_tile out i = map_of raw i) \<and> n_tiles st = length raw \<and> total_bytes st = length out"
proof (cases dumps)
  case (Inl e)
  then show ?thesis using that [of "Inl e"] by (simp add: write_builtin_def writer_ok_def)
next
  case (Inr mt)
  obtain rd lv where b: "build_directories (dir_entries 0 raw) = Some (rd, lv)"
      and get: "\<And>n h mt i. well_headed n \<lparr>hdr = h, rootd = rd, meta = mt, leaves = lv, tdata = concat (map snd raw)\<rparr> \<Longrightarrow>
       get_tile (h @ rd @ mt @ lv @ concat (map snd raw)) i = map_of raw i"
    using build_directories_lookup [OF assms] by metis
  let ?sec = "layout (length raw) rd mt lv (concat (map snd raw))"
  define w where "w = write_header F ?sec True 1 1 1 mnz mxz box ((mnz + mxz) div 2)
    (fl_mid F (min_lon box) (max_lon box)) (fl_mid F (min_lat box) (max_lat box))"
  have run: "write_builtin F dumps mnz mxz box raw = Some (case w of Inl e \<Rightarrow> Inl e
      | Inr h \<Rightarrow> Inr (h @ rd @ mt @ lv @ concat (map snd raw), \<lparr>n_tiles = length raw, n_empty_tiles = 0,
          total_bytes = header_size + length rd + length mt + length lv + length (concat (map snd raw))\<rparr>))"
    using Inr b by (simp add: write_builtin_def w_def Let_def split: sum.splits)
  show ?thesis
  proof (cases w)
    case (Inl e)
    have "\<not> writer_ok F dumps box raw"
    proof
      assume ok: "writer_ok F dumps box raw"
      then have "\<not> 2 ^ 64 \<le> header_size + length rd + length mt + length lv + length (concat (map snd raw)) + length raw"
        using Inr b by (simp add: writer_ok_def too_large_def)
      then have "\<forall>p\<in>set (section_fields ?sec). 0 \<le> snd p \<and> snd p < 2 ^ 64"
        by (simp add: section_fields_def layout_def Let_def header_size_def)
      moreover have "box_ok F box" using ok by (simp add: writer_ok_def)
      ultimately obtain h where "w = Inr h" unfolding w_def by (metis write_header_ok)
      then show False using Inl by simp
    qed
    then show ?thesis using that [OF run] Inl by simp
  next
    case (Inr h)
    from write_header_fields [OF this [unfolded w_def]]
    have "well_headed (length raw) \<lparr>hdr = h, rootd = rd, meta = mt, leaves = lv, tdata = concat (map snd raw)\<rparr>"
      and "length h = header_size" by (simp_all add: well_headed_def)
    then show ?thesis using that [OF run] get Inr by simp
  qed
qed

lemma distinct_map_sort_key: "distinct (map f (sort_key g xs)) \<longleftrightarrow> distinct (map f xs)"
  by (simp add: distinct_map)

lemma tileid_nonneg: "(x, y) \<in> square z \<Longrightarrow> 0 \<le> builtin_zxy_to_tileid z x y"
  using tileid_level [of x y z] level_base_mono [of 0 z] level_base_0 by simp

lemma tile_list_ascending:
  fixes tiles :: "tile list"
  assumes "distinct (map (\<lambda>(z, x, y, d). (z, x, y)) tiles)" "\<forall>(z, x, y, d)\<in>set tiles. (x, y) \<in> square z"
  shows "ascending (sort_key fst (map (\<lambda>(z, x, y, d). (builtin_zxy_to_tileid z x y, d)) tiles))"
proof -
  let ?raw = "map (\<lambda>(z, x, y, d). (builtin_zxy_to_tileid z x y, d)) tiles"
  let ?f = "\<lambda>(z, x, y). builtin_zxy_to_tileid z x y" and ?co = "map (\<lambda>(z, x, y, d). (z, x, y)) tiles"
  have "inj_on ?f (set ?co)"
  proof (rule inj_onI)
    fix p q assume pq: "p \<in> set ?co" "q \<in> set ?co" "?f p = ?f q"
    obtain z x y z' x' y' where e: "p = (z, x, y)" "q = (z', x', y')" by (cases p; cases q) auto
    have "(x, y) \<in> square z" "(x', y') \<in> square z'" using pq(1,2) e assms(2) by auto
    then show "p = q" using tileid_inj pq(3) e by auto
  qed
  moreover have "map fst ?raw = map ?f ?co" by (simp add: split_def)
  ultimately have d: "distinct (map fst ?raw)" using assms(1) by (simp only: distinct_map [of ?f ?co])
  have "\<forall>i\<in>fst ` set ?raw. 0 \<le> i" using assms(2) by (fastforce intro!: tileid_nonneg)
  then show ?thesis
    unfolding ascending_def strict_sorted_iff distinct_map_sort_key using d by (simp only: sorted_sort_key set_sort simp_thms)
qed

text \<open>
  C13.  An archive contains its tiles.  For distinct tiles inside their zoom level's grid the writer
  returns, and it succeeds unless the metadata cannot be serialised, a coordinate does not fit the
  header or the archive exceeds 64-bit offsets; reading the archive as PMTiles v3 then yields for
  every tile of the grid exactly the bytes that were given for it, nothing for empty and for absent
  tiles, and the reported sizes and counts are those of the archive.
\<close>

theorem write_pmtiles_roundtrip:
  fixes tiles :: "tile list"
  assumes "distinct (map (\<lambda>(z, x, y, d). (z, x, y)) tiles)" "\<forall>(z, x, y, d)\<in>set tiles. (x, y) \<in> square z"
  shows "\<exists>r. write_pmtiles None None F dumps mnz mxz box tiles [] = Some r \<and>
    (writer_ok F dumps box (collect_raw None tiles) \<longrightarrow> (\<exists>a. r = Inr a)) \<and>
    (\<forall>out st. r = Inr (out, st) \<longrightarrow>
       (\<forall>z x y d. (x, y) \<in> square z \<longrightarrow>
          (get_tile out (builtin_zxy_to_tileid z x y) = Some d \<longleftrightarrow> (z, x, y, d) \<in> set tiles \<and> d \<noteq> [])) \<and>
       n_tiles st + n_empty_tiles st = length tiles \<and> total_bytes st = length out)"
proof -
  let ?ne = "filter (\<lambda>(z, x, y, d). d \<noteq> []) tiles"
  let ?id = "\<lambda>(z, x, y, d). (builtin_zxy_to_tileid z x y, d)"
  define raw where "raw = sort_key fst (map ?id ?ne)"
  have collect: "collect_raw None tiles = raw" by (simp add: collect_raw_def raw_def zxy_to_tileid_def)
  have ne: "distinct (map (\<lambda>(z, x, y, d). (z, x, y)) ?ne)" "\<forall>(z, x, y, d)\<in>set ?ne. (x, y) \<in> square z"
    using assms by (auto simp: distinct_map_filter)
  have asc: "ascending raw" unfolding raw_def by (rule tile_list_ascending [OF ne])
  have mem: "(builtin_zxy_to_tileid z x y, d) \<in> set raw \<longleftrightarrow> (z, x, y, d) \<in> set tiles \<and> d \<noteq> []" if "(x, y) \<in> square z" for z x y d
    using that assms(2) by (force simp: raw_def dest: tileid_inj)
  have look: "map_of raw i = Some d \<longleftrightarrow> (i, d) \<in> set raw" for i d
    using asc by (auto simp: ascending_def strict_sorted_iff map_of_eq_Some_iff distinct_map)
  obtain r where r: "write_builtin F dumps mnz mxz box raw = Some r" "writer_ok F dumps box raw \<Longrightarrow> \<exists>a. r = Inr a"
    "\<And>out st. r = Inr (out, st) \<Longrightarrow>
       (\<forall>i. get_tile out i = map_of raw i) \<and> n_tiles st = length raw \<and> total_bytes st = length out"
    using write_builtin_roundtrip [OF asc] by metis
  let ?ok = "map_sum id (\<lambda>(out, st). (out, st\<lparr>n_empty_tiles := length (filter (\<lambda>(z, x, y, d). d = []) tiles)\<rparr>))"
  have run: "write_pmtiles None None F dumps mnz mxz box tiles [] = Some (?ok r)"
    using r(1) unfolding write_pmtiles_def write_pmtiles_from_raw_def collect
    by (cases r) (simp_all add: Let_def split: prod.splits)
  have count: "length raw + length (filter (\<lambda>(z, x, y, d). d = []) tiles) = length tiles"
    using sum_length_filter_compl [of "\<lambda>(z, x, y, d). d \<noteq> []" tiles] by (simp add: raw_def split_def)
  have "?ok r = Inr (out, st) \<Longrightarrow>
      (\<forall>z x y d. (x, y) \<in> square z \<longrightarrow>
          (get_tile out (builtin_zxy_to_tileid z x y) = Some d \<longleftrightarrow> (z, x, y, d) \<in> set tiles \<and> d \<noteq> [])) \<and>
       n_tiles st + n_empty_tiles st = length tiles \<and> total_bytes st = length out" for out st
  proof -
    assume ok: "?ok r = Inr (out, st)"
    then obtain st' where "r = Inr (out, st')" "st = st'\<lparr>n_empty_tiles := length (filter (\<lambda>(z, x, y, d). d = []) tiles)\<rparr>"
      by (cases r) auto
    then show ?thesis using r(3) [of out st'] count mem by (simp add: look)
  qed
  moreover have "writer_ok F dumps box raw \<longrightarrow> (\<exists>a. ?ok r = Inr a)" using r(2) by (cases r) auto
  ultimately show ?thesis using run unfolding collect by blast
qed


definition int_floats :: "int float_ops" where
  "int_floats = \<lparr>fl_e7 = (\<lambda>c. Some (c * 10000000)), fl_mid = (\<lambda>a b. (a + b) div 2)\<rparr>"

definition world :: "int bbox" where
  "world = \<lparr>min_lon = -180, min_lat = -90, max_lon = 180, max_lat = 90\<rparr>"

theorem write_pmtiles_roundtrip_witness:
  "\<exists>out st. write_pmtiles None None int_floats (Inr [0x7B, 0x7D]) 0 1 world [(1, 0, 1, [8, 9]), (1, 1, 1, []), (1, 0, 0, [7])] []
      = Some (Inr (out, st))
    \<and> get_tile out (builtin_zxy_to_tileid 1 0 1) = Some [8, 9] \<and> get_tile out (builtin_zxy_to_tileid 1 1 1) \<noteq> Some []
    \<and> n_tiles st + n_empty_tiles st = 3"
proof -
  let ?ts = "[(1, 0, 1, [8, 9]), (1, 1, 1, []), (1, 0, 0, [7])] :: tile list"
  have ids: "builtin_zxy_to_tileid 1 0 1 = 2" "builtin_zxy_to_tileid 1 0 0 = 1" by code_simp+
  have raw: "collect_raw None ?ts = [(1, [7]), (2, [8, 9])]"
    using ids by (simp add: collect_raw_def zxy_to_tileid_def)
  have "writer_ok int_floats (Inr [0x7B, 0x7D]) world (collect_raw None ?ts)"
    unfolding raw
    by (simp add: writer_ok_def box_ok_def coord_ok_def int_floats_def world_def too_large_def build_directories_def
        max_root_entries_def serialize_total directory_values_def offset_code_def varint_bytes.simps header_size_def)
  then show ?thesis
    using write_pmtiles_roundtrip [of ?ts int_floats "Inr [0x7B, 0x7D]" 0 1 world]
    by (auto simp: square_iff)
qed

end
