(* ===== verification/Task_Queue.thy ===== *)
theory Task_Queue
  imports Py_Values
begin

text \<open>
  The durable task queue of \<open>modules/tasks/tasks_module.py\<close>: the global \<open>tasks.tasks\<close> table and the
  SQL statements that create, claim, renew, finish, requeue and reap its rows, together with the
  dead-letter operations of \<open>modules/tasks/maintenance.py\<close>.

  The table is the list of its rows.  Every statement is one atomic step on it: an \<open>UPDATE\<close> maps its
  \<open>SET\<close> clause over the rows that satisfy its \<open>WHERE\<close> clause, and a comparison with a \<open>NULL\<close> column
  is not satisfied.  Rows held by another transaction, which \<open>FOR UPDATE SKIP LOCKED\<close> passes over,
  are a predicate argument.  Times are microseconds; the readings of the worker's clock and the
  database's \<open>NOW()\<close> are separate arguments, so no theorem relies on the clocks agreeing.
\<close>

named_theorems queue_simps \<open>unfolding rules of the task-table statements\<close>

section \<open>The table\<close>

datatype task_status =
    CREATED | PENDING | ACTIVE | RUNNING | COMPLETED | FAILED | DISMISSED | DEAD_LETTER

type_synonym time = int

record task_row =
  task_id :: nat
  catalog_id :: string
  scope :: string
  caller_id :: "string option"
  task_type :: string
  type_kind :: string
  execution_mode :: string
  status :: task_status
  progress :: int
  inputs :: "dict option"
  outputs :: "json option"
  error_message :: "string option"
  dedup_key :: "string option"
  timestamp :: time
  started_at :: "time option"
  finished_at :: "time option"
  dismiss_confirmed_at :: "time option"
  collection_id :: "string option"
  locked_until :: "time option"
  last_heartbeat_at :: "time option"
  owner_id :: "string option"
  runner_ref :: "string option"
  retry_count :: nat
  max_retries :: nat

type_synonym table = "task_row list"

text \<open>Statements: \<open>UPDATE ... SET f WHERE g\<close>, its row count and its \<open>RETURNING\<close> rows.\<close>

definition sql_update :: "(task_row \<Rightarrow> bool) \<Rightarrow> (task_row \<Rightarrow> task_row) \<Rightarrow> table \<Rightarrow> table" where
  "sql_update g f tbl = map (\<lambda>r. if g r then f r else r) tbl"

definition rowcount :: "(task_row \<Rightarrow> bool) \<Rightarrow> table \<Rightarrow> nat" where
  "rowcount g tbl = length (filter g tbl)"

definition returning :: "(task_row \<Rightarrow> bool) \<Rightarrow> (task_row \<Rightarrow> task_row) \<Rightarrow> table \<Rightarrow> table" where
  "returning g f tbl = map f (filter g tbl)"

text \<open>\<open>ResultHandler.ONE_DICT\<close>: the first row, or none.\<close>

definition one_dict :: "'a list \<Rightarrow> 'a option" where
  "one_dict rs = (case rs of [] \<Rightarrow> None | r # _ \<Rightarrow> Some r)"

text \<open>Comparisons with a nullable column.\<close>

definition null_less :: "time option \<Rightarrow> time \<Rightarrow> bool" where
  "null_less x t \<longleftrightarrow> (case x of None \<Rightarrow> False | Some v \<Rightarrow> v < t)"

definition null_le :: "time option \<Rightarrow> time \<Rightarrow> bool" where
  "null_le x t \<longleftrightarrow> (case x of None \<Rightarrow> False | Some v \<Rightarrow> v \<le> t)"

text \<open>\<open>COALESCE(x, v)\<close> into a nullable column.\<close>

definition coalesce :: "'a option \<Rightarrow> 'a \<Rightarrow> 'a option" where
  "coalesce x v = (case x of None \<Rightarrow> Some v | Some y \<Rightarrow> Some y)"

text \<open>The optional guards \<open>AND col = :v\<close>, added to a statement only when a value is given.\<close>

definition opt_guard :: "'a option \<Rightarrow> 'a option \<Rightarrow> bool" where
  "opt_guard v col \<longleftrightarrow> (case v of None \<Rightarrow> True | Some x \<Rightarrow> col = Some x)"

text \<open>\<open>s LIKE p\<close>: \<open>%\<close> is any text, \<open>_\<close> any character, a backslash quotes the next character.\<close>

fun sql_like :: "string \<Rightarrow> string \<Rightarrow> bool" where
  "sql_like [] s = (s = [])"
| "sql_like (p # ps) s =
     (if p = CHR ''%'' then sql_like ps s \<or> (case s of [] \<Rightarrow> False | _ # s' \<Rightarrow> sql_like (p # ps) s')
      else if p = CHR 0x5C then
        (case ps of [] \<Rightarrow> False
         | q # qs \<Rightarrow> (case s of [] \<Rightarrow> False | c # s' \<Rightarrow> c = q \<and> sql_like qs s'))
      else (case s of [] \<Rightarrow> False | c # s' \<Rightarrow> (p = CHR ''_'' \<or> p = c) \<and> sql_like ps s'))"

text \<open>\<open>SELECT DISTINCT ON (k)\<close>: the first row of each key.\<close>

function distinct_on :: "('a \<Rightarrow> 'k) \<Rightarrow> 'a list \<Rightarrow> 'a list" where
  "distinct_on k [] = []"
| "distinct_on k (x # xs) = x # distinct_on k (filter (\<lambda>y. k y \<noteq> k x) xs)"
  by pat_completeness auto
termination
  by (relation "measure (\<lambda>(k, xs). length xs)") (auto simp: le_imp_less_Suc)

section \<open>Creating rows\<close>

text \<open>
  The process-wide inputs of an insert: the task registry read by \<open>resolve_task_type_kind\<close>, the
  default title of the persistence layer and the request's correlation id.
\<close>

record task_env =
  task_kinds :: "string \<Rightarrow> string option"
  default_title :: json
  correlation_id :: "string option"

definition resolve_task_type_kind :: "task_env \<Rightarrow> string \<Rightarrow> string \<Rightarrow> string" where
  "resolve_task_type_kind env t d = (case task_kinds env t of None \<Rightarrow> d | Some k \<Rightarrow> k)"

record task_create =
  c_caller_id :: "string option"
  c_task_type :: string
  c_type :: string
  c_inputs :: "dict option"
  c_collection_id :: "string option"
  c_title :: "dict option"
  c_execution_mode :: string
  c_scope :: string
  c_max_retries :: "nat option"
  c_dedup_key :: "string option"

text \<open>\<open>_serialize_inputs\<close>: an empty payload is stored as \<open>NULL\<close>.\<close>

definition serialize_inputs :: "dict option \<Rightarrow> dict option" where
  "serialize_inputs d = (case d of None \<Rightarrow> None | Some kvs \<Rightarrow> if kvs = [] then None else Some kvs)"

text \<open>Rows that count for deduplication: \<open>status NOT IN ('COMPLETED', 'FAILED', 'DEAD_LETTER')\<close>.\<close>

definition dedup_live :: "task_row \<Rightarrow> bool" where
  "dedup_live r \<longleftrightarrow> status r \<notin> {COMPLETED, FAILED, DEAD_LETTER}"

definition dedup_match :: "string \<Rightarrow> string \<Rightarrow> task_row \<Rightarrow> bool" where
  "dedup_match schema key r \<longleftrightarrow> dedup_key r = Some key \<and> catalog_id r = schema \<and> dedup_live r"

definition get_active_task_by_dedup_key ::
    "string \<Rightarrow> string \<Rightarrow> table \<Rightarrow> (nat \<times> task_status) option" where
  "get_active_task_by_dedup_key schema key tbl =
     map_option (\<lambda>r. (task_id r, status r))
       (one_dict (sort_key (\<lambda>r. - timestamp r) (filter (dedup_match schema key) tbl)))"

text \<open>
  The inputs \<open>create_task\<close> stores: an explicit title wins, else a stored truthy one, else the
  default; the correlation id goes under the reserved key.
\<close>

definition effective_inputs :: "task_env \<Rightarrow> task_create \<Rightarrow> dict" where
  "effective_inputs env c =
     (let d = (case c_inputs c of None \<Rightarrow> [] | Some kvs \<Rightarrow> kvs);
          d1 = (case c_title c of
                  Some t \<Rightarrow> if t \<noteq> [] then dset ''title'' (JObj t) d
                            else if \<not> truthy (jget d ''title'') then dset ''title'' (default_title env) d
                            else d
                | None \<Rightarrow> if \<not> truthy (jget d ''title'') then dset ''title'' (default_title env) d else d)
      in (case correlation_id env of
            None \<Rightarrow> d1 | Some cid \<Rightarrow> dset ''_request_correlation_id'' (JStr cid) d1))"

text \<open>A fresh row with the column defaults of the table.\<close>

definition default_row :: "nat \<Rightarrow> string \<Rightarrow> string \<Rightarrow> time \<Rightarrow> task_row" where
  "default_row tid schema tt created = \<lparr>
     task_id = tid, catalog_id = schema, scope = ''CATALOG'', caller_id = None, task_type = tt,
     type_kind = ''task'', execution_mode = ''ASYNCHRONOUS'', status = PENDING, progress = 0,
     inputs = None, outputs = None, error_message = None, dedup_key = None, timestamp = created,
     started_at = None, finished_at = None, dismiss_confirmed_at = None, collection_id = None,
     locked_until = None, last_heartbeat_at = None, owner_id = None, runner_ref = None,
     retry_count = 0, max_retries = 3\<rparr>"

definition create_row ::
    "task_env \<Rightarrow> time \<Rightarrow> nat \<Rightarrow> time \<Rightarrow> task_create \<Rightarrow> string \<Rightarrow> task_status \<Rightarrow>
     string option \<Rightarrow> time option \<Rightarrow> task_row" where
  "create_row env now tid created c schema st own lock =
     (default_row tid schema (c_task_type c) created) \<lparr>
       scope := c_scope c, caller_id := c_caller_id c,
       type_kind := resolve_task_type_kind env (c_task_type c) (c_type c),
       execution_mode := c_execution_mode c,
       inputs := serialize_inputs (Some (effective_inputs env c)),
       collection_id := c_collection_id c, dedup_key := c_dedup_key c, status := st,
       max_retries := (case c_max_retries c of None \<Rightarrow> 3 | Some n \<Rightarrow> n),
       owner_id := own, locked_until := lock,
       last_heartbeat_at := (if st = ACTIVE then Some now else None)\<rparr>"

text \<open>
  The partial unique index on \<open>(catalog_id, dedup_key, timestamp)\<close>; task ids are fresh UUIDs, so
  the primary key never conflicts.
\<close>

definition index_conflict :: "task_row \<Rightarrow> table \<Rightarrow> bool" where
  "index_conflict new tbl \<longleftrightarrow>
     (case dedup_key new of
        None \<Rightarrow> False
      | Some k \<Rightarrow> dedup_live new \<and>
          list_ex (\<lambda>r. dedup_match (catalog_id new) k r \<and> timestamp r = timestamp new) tbl)"

datatype db_error = UniqueViolation

text \<open>
  \<open>create_task\<close>.  The pre-check is a plain \<open>SELECT\<close>: it reads the snapshot \<open>snap\<close>, and the insert then
  applies to the current table.  The two coincide when no other insert commits in between.
\<close>

definition create_task ::
    "task_env \<Rightarrow> time \<Rightarrow> nat \<Rightarrow> time \<Rightarrow> task_create \<Rightarrow> string \<Rightarrow> task_status \<Rightarrow>
     string option \<Rightarrow> time option \<Rightarrow> table \<Rightarrow> table \<Rightarrow> (db_error + task_row option) \<times> table" where
  "create_task env now tid created c schema st own lock snap tbl =
     (let hit = (case c_dedup_key c of
                   None \<Rightarrow> False
                 | Some k \<Rightarrow> one_dict (filter (dedup_match schema k) snap) \<noteq> None);
          new = create_row env now tid created c schema st own lock
      in if hit then (Inr None, tbl)
         else if index_conflict new tbl then (Inl UniqueViolation, tbl)
         else (Inr (Some new), tbl @ [new]))"

text \<open>
  \<open>enqueue\<close> writes its own arguments into the request, then inserts without the columns it does not
  list: the \<open>max_retries\<close> of the request is not among them, and the deduplication key is the
  argument's, not the request's.
\<close>

definition enqueue_row ::
    "task_env \<Rightarrow> nat \<Rightarrow> time \<Rightarrow> task_create \<Rightarrow> string \<Rightarrow> string option \<Rightarrow> string \<Rightarrow> string \<Rightarrow> task_row" where
  "enqueue_row env tid created c schema key mode scp =
     (default_row tid schema (c_task_type c) created) \<lparr>
       scope := scp, caller_id := c_caller_id c,
       type_kind := resolve_task_type_kind env (c_task_type c) (c_type c),
       execution_mode := mode, inputs := serialize_inputs (c_inputs c),
       collection_id := c_collection_id c, dedup_key := key\<rparr>"

definition enqueue ::
    "task_env \<Rightarrow> nat \<Rightarrow> time \<Rightarrow> task_create \<Rightarrow> string \<Rightarrow> string option \<Rightarrow> string \<Rightarrow> string \<Rightarrow>
     table \<Rightarrow> table \<Rightarrow> task_row option \<times> table" where
  "enqueue env tid created c schema key mode scp snap tbl =
     (let new = enqueue_row env tid created c schema key mode scp
      in (case key of
            None \<Rightarrow> (Some new, tbl @ [new])
          | Some k \<Rightarrow>
              if one_dict (filter (dedup_match schema k) snap) \<noteq> None then (None, tbl)
              else if index_conflict new tbl then (None, tbl)
              else (Some new, tbl @ [new])))"

section \<open>Updating columns\<close>

text \<open>
  \<open>TaskUpdate.model_dump(exclude_unset=True)\<close>: \<open>None\<close> is a field that was not set.  The nullable
  columns can be set to \<open>NULL\<close>; the others are set to a value.
\<close>

record task_update =
  u_status :: "task_status option"
  u_progress :: "int option"
  u_outputs :: "json option option"
  u_error_message :: "string option option"
  u_locked_until :: "time option option"
  u_last_heartbeat_at :: "time option option"
  u_owner_id :: "string option option"
  u_retry_count :: "nat option"
  u_dismiss_confirmed_at :: "time option option"

definition no_update :: task_update where
  "no_update = \<lparr> u_status = None, u_progress = None, u_outputs = None, u_error_message = None,
     u_locked_until = None, u_last_heartbeat_at = None, u_owner_id = None, u_retry_count = None,
     u_dismiss_confirmed_at = None \<rparr>"

definition set_or :: "'a option \<Rightarrow> 'a \<Rightarrow> 'a" where
  "set_or u old = (case u of None \<Rightarrow> old | Some v \<Rightarrow> v)"

definition apply_update :: "task_update \<Rightarrow> task_row \<Rightarrow> task_row" where
  "apply_update u r = r\<lparr>
     status := set_or (u_status u) (status r), progress := set_or (u_progress u) (progress r),
     outputs := set_or (u_outputs u) (outputs r),
     error_message := set_or (u_error_message u) (error_message r),
     locked_until := set_or (u_locked_until u) (locked_until r),
     last_heartbeat_at := set_or (u_last_heartbeat_at u) (last_heartbeat_at r),
     owner_id := set_or (u_owner_id u) (owner_id r),
     retry_count := set_or (u_retry_count u) (retry_count r),
     dismiss_confirmed_at := set_or (u_dismiss_confirmed_at u) (dismiss_confirmed_at r)\<rparr>"

definition get_task :: "nat \<Rightarrow> string \<Rightarrow> table \<Rightarrow> task_row option" where
  "get_task tid schema tbl = one_dict (filter (\<lambda>r. task_id r = tid \<and> catalog_id r = schema) tbl)"

definition update_task ::
    "nat \<Rightarrow> task_update \<Rightarrow> string \<Rightarrow> table \<Rightarrow> task_row option \<times> table" where
  "update_task tid u schema tbl =
     (if u = no_update then (get_task tid schema tbl, tbl)
      else let g = (\<lambda>r. task_id r = tid \<and> catalog_id r = schema)
           in (one_dict (returning g (apply_update u) tbl), sql_update g (apply_update u) tbl))"

section \<open>Claiming\<close>

text \<open>
  The platform-wide hard retry cap: \<open>set_hard_retry_cap\<close> refuses values below one, so the cap is
  positive throughout.
\<close>

definition default_hard_retry_cap :: nat where
  "default_hard_retry_cap = 5"

definition set_hard_retry_cap :: "int \<Rightarrow> py_exn + nat" where
  "set_hard_retry_cap v = (if v < 1 then Inl ValueError else Inr (nat v))"

text \<open>
  The mode filter of a claim: the disjuncts are added for the non-empty type lists only, and both
  lists empty is an early return.
\<close>

definition mode_filter :: "string list \<Rightarrow> string list \<Rightarrow> task_row \<Rightarrow> bool" where
  "mode_filter async_types sync_types r \<longleftrightarrow>
     (async_types \<noteq> [] \<and> execution_mode r = ''ASYNCHRONOUS'' \<and> task_type r \<in> set async_types) \<or>
     (sync_types \<noteq> [] \<and> execution_mode r = ''SYNCHRONOUS'' \<and> task_type r \<in> set sync_types)"

text \<open>
  A worker's claim parameters: its capability lists, lease length, identity and lookback window,
  the two readings \<open>t0\<close> (for the lease) and \<open>t1\<close> (for eligibility) of its clock, and the database's
  \<open>NOW()\<close>.
\<close>

record claim_cfg =
  async_types :: "string list"
  sync_types :: "string list"
  visibility_timeout :: time
  claimant :: string
  task_lookback :: time
  t0 :: time
  t1 :: time
  db_now :: time

definition pending_visible :: "claim_cfg \<Rightarrow> task_row \<Rightarrow> bool" where
  "pending_visible c r \<longleftrightarrow>
     status r = PENDING \<and> t1 c - task_lookback c \<le> timestamp r \<and>
     (locked_until r = None \<or> null_le (locked_until r) (t1 c)) \<and>
     mode_filter (async_types c) (sync_types c) r"

definition claim_set :: "claim_cfg \<Rightarrow> task_row \<Rightarrow> task_row" where
  "claim_set c r = r\<lparr>
     status := ACTIVE, locked_until := Some (t0 c + visibility_timeout c),
     owner_id := Some (claimant c), started_at := coalesce (started_at r) (db_now c),
     last_heartbeat_at := Some (db_now c)\<rparr>"

definition row_key :: "task_row \<Rightarrow> time \<times> nat" where
  "row_key r = (timestamp r, task_id r)"

definition claim_next ::
    "claim_cfg \<Rightarrow> (task_row \<Rightarrow> bool) \<Rightarrow> table \<Rightarrow> task_row option \<times> table" where
  "claim_next c held tbl =
     (if async_types c = [] \<and> sync_types c = [] then (None, tbl)
      else (case sort_key timestamp (filter (\<lambda>r. pending_visible c r \<and> \<not> held r) tbl) of
              [] \<Rightarrow> (None, tbl)
            | x # _ \<Rightarrow>
                let g = (\<lambda>r. row_key r = row_key x)
                in (one_dict (returning g (claim_set c) tbl), sql_update g (claim_set c) tbl)))"

text \<open>
  \<open>claim_batch\<close>: the oldest eligible row of every tenant, the oldest of those up to the batch size
  that no other transaction holds, claimed with their error message cleared.  The result carries
  the message each row had before.
\<close>

definition batch_eligible :: "nat \<Rightarrow> claim_cfg \<Rightarrow> task_row \<Rightarrow> bool" where
  "batch_eligible cap c r \<longleftrightarrow> pending_visible c r \<and> retry_count r < cap"

definition batch_candidates :: "nat \<Rightarrow> claim_cfg \<Rightarrow> table \<Rightarrow> table" where
  "batch_candidates cap c tbl =
     distinct_on catalog_id
       (sort_key catalog_id (sort_key timestamp (filter (batch_eligible cap c) tbl)))"

definition batch_locked ::
    "nat \<Rightarrow> claim_cfg \<Rightarrow> nat \<Rightarrow> (task_row \<Rightarrow> bool) \<Rightarrow> table \<Rightarrow> table" where
  "batch_locked cap c batch_size held tbl =
     take batch_size (filter (\<lambda>r. \<not> held r)
       (sort_key timestamp
          (filter (\<lambda>r. row_key r \<in> row_key ` set (batch_candidates cap c tbl) \<and> status r = PENDING) tbl)))"

definition batch_set :: "claim_cfg \<Rightarrow> task_row \<Rightarrow> task_row" where
  "batch_set c r = (claim_set c r)\<lparr>error_message := None\<rparr>"

definition claim_batch ::
    "nat \<Rightarrow> claim_cfg \<Rightarrow> nat \<Rightarrow> (task_row \<Rightarrow> bool) \<Rightarrow> table \<Rightarrow>
     (task_row \<times> string option) list \<times> table" where
  "claim_batch cap c batch_size held tbl =
     (if async_types c = [] \<and> sync_types c = [] then ([], tbl)
      else let locked = batch_locked cap c batch_size held tbl;
               g = (\<lambda>r. row_key r \<in> row_key ` set locked)
           in (map (\<lambda>r. (batch_set c r, error_message r)) locked,
               sql_update g (batch_set c) tbl))"

text \<open>The \<open>task.retried\<close> events emitted after the commit: one per row with a prior error.\<close>

definition retried_events :: "(task_row \<times> string option) list \<Rightarrow> (nat \<times> nat \<times> string) list" where
  "retried_events rows = concat (map (\<lambda>(r, e).
     case e of None \<Rightarrow> [] | Some m \<Rightarrow> if m = [] then [] else [(task_id r, retry_count r, m)]) rows)"

section \<open>Terminal writes\<close>

text \<open>The common guard \<open>task_id = :id [AND timestamp = :created_at] [AND owner_id = :owner_id]\<close>.\<close>

definition write_guard :: "nat \<Rightarrow> time option \<Rightarrow> string option \<Rightarrow> task_row \<Rightarrow> bool" where
  "write_guard tid created own r \<longleftrightarrow>
     task_id r = tid \<and> opt_guard created (Some (timestamp r)) \<and> opt_guard own (owner_id r)"

definition complete_set :: "time \<Rightarrow> json option \<Rightarrow> task_row \<Rightarrow> task_row" where
  "complete_set fin out r = r\<lparr>
     status := COMPLETED, progress := 100, finished_at := Some fin, outputs := out,
     locked_until := None, owner_id := None\<rparr>"

definition complete_task ::
    "nat \<Rightarrow> time \<Rightarrow> json option \<Rightarrow> string option \<Rightarrow> time option \<Rightarrow> table \<Rightarrow> bool \<times> table" where
  "complete_task tid fin out own created tbl =
     (let g = write_guard tid created own
      in (rowcount g tbl > 0, sql_update g (complete_set fin out) tbl))"

text \<open>
  \<open>fail_task\<close>.  With retry, the row goes back to the queue behind an exponential back-off while
  the new count is below both budgets, and to the dead-letter queue otherwise; there its owner
  column is left as it was.
\<close>

definition retries_remain :: "nat \<Rightarrow> task_row \<Rightarrow> bool" where
  "retries_remain cap r \<longleftrightarrow> retry_count r + 1 < min (max_retries r) cap"

definition retry_set :: "nat \<Rightarrow> time \<Rightarrow> time \<Rightarrow> string \<Rightarrow> task_row \<Rightarrow> task_row" where
  "retry_set cap now fin msg r = r\<lparr>
     status := (if retries_remain cap r then PENDING else DEAD_LETTER),
     error_message := Some (if retry_count r + 1 \<ge> cap
                            then msg @ '' [hard retry cap '' @ nat_str cap @ '' reached]'' else msg),
     retry_count := retry_count r + 1,
     locked_until := (if retries_remain cap r then Some (now + 2 ^ (retry_count r + 1) * 1000000)
                      else None),
     finished_at := (if retries_remain cap r then finished_at r else Some fin),
     owner_id := (if retries_remain cap r then None else owner_id r)\<rparr>"

definition fail_set :: "time \<Rightarrow> string \<Rightarrow> task_row \<Rightarrow> task_row" where
  "fail_set fin msg r = r\<lparr>
     status := FAILED, error_message := Some msg, finished_at := Some fin,
     locked_until := None, owner_id := None\<rparr>"

definition fail_task ::
    "nat \<Rightarrow> time \<Rightarrow> nat \<Rightarrow> time \<Rightarrow> string \<Rightarrow> bool \<Rightarrow> string option \<Rightarrow> time option \<Rightarrow> table \<Rightarrow>
     bool \<times> table" where
  "fail_task cap now tid fin msg retry own created tbl =
     (let g = write_guard tid created own;
          f = (if retry then retry_set cap now fin msg else fail_set fin msg)
      in (one_dict (returning g f tbl) \<noteq> None, sql_update g f tbl))"

text \<open>The severity of the \<open>task.failed\<close> event, emitted for the terminal statuses only.\<close>

definition failed_event :: "task_row option \<Rightarrow> (nat \<times> string) option" where
  "failed_event row = (case row of None \<Rightarrow> None | Some r \<Rightarrow>
     if status r = FAILED then Some (task_id r, ''unrecoverable'')
     else if status r = DEAD_LETTER then Some (task_id r, ''recoverable'')
     else None)"

definition dead_letter_set :: "time \<Rightarrow> string \<Rightarrow> task_row \<Rightarrow> task_row" where
  "dead_letter_set fin msg r = r\<lparr>
     status := DEAD_LETTER, error_message := Some msg, finished_at := Some fin,
     locked_until := None, owner_id := None\<rparr>"

definition dead_letter_task ::
    "nat \<Rightarrow> time \<Rightarrow> string \<Rightarrow> string option \<Rightarrow> time option \<Rightarrow> table \<Rightarrow> bool \<times> table" where
  "dead_letter_task tid fin msg own created tbl =
     (let g = write_guard tid created own
      in (one_dict (returning g (dead_letter_set fin msg) tbl) \<noteq> None,
          sql_update g (dead_letter_set fin msg) tbl))"

section \<open>Leases\<close>

definition heartbeat_set :: "time \<Rightarrow> time \<Rightarrow> task_row \<Rightarrow> task_row" where
  "heartbeat_set until now r = r\<lparr>locked_until := Some until, last_heartbeat_at := Some now\<rparr>"

text \<open>\<open>heartbeat_tasks\<close> renews the listed rows that are \<open>ACTIVE\<close>; the owner is not part of its guard.\<close>

definition heartbeat_tasks :: "(nat \<times> time) list \<Rightarrow> time \<Rightarrow> time \<Rightarrow> time \<Rightarrow> table \<Rightarrow> table" where
  "heartbeat_tasks tasks visibility now_py now tbl =
     (if tasks = [] then tbl
      else sql_update (\<lambda>r. (task_id r, timestamp r) \<in> set tasks \<and> status r = ACTIVE)
             (heartbeat_set (now_py + visibility) now) tbl)"

definition heartbeat_task_if_active ::
    "nat \<Rightarrow> time \<Rightarrow> time option \<Rightarrow> time \<Rightarrow> time \<Rightarrow> table \<Rightarrow> bool \<times> table" where
  "heartbeat_task_if_active tid visibility created now_py now tbl =
     (let g = (\<lambda>r. write_guard tid created None r \<and> status r = ACTIVE)
      in (rowcount g tbl > 0, sql_update g (heartbeat_set (now_py + visibility) now) tbl))"

definition set_runner_ref :: "nat \<Rightarrow> string \<Rightarrow> table \<Rightarrow> table" where
  "set_runner_ref tid ref tbl =
     sql_update (\<lambda>r. task_id r = tid) (\<lambda>r. r\<lparr>runner_ref := Some ref\<rparr>) tbl"

definition persist_outputs :: "nat \<Rightarrow> json option \<Rightarrow> table \<Rightarrow> table" where
  "persist_outputs tid out tbl =
     sql_update (\<lambda>r. task_id r = tid) (\<lambda>r. r\<lparr>outputs := out, progress := 100\<rparr>) tbl"

text \<open>The scans of the liveness reconciler.\<close>

definition owner_like :: "string \<Rightarrow> task_row \<Rightarrow> bool" where
  "owner_like p r \<longleftrightarrow> (case owner_id r of None \<Rightarrow> False | Some s \<Rightarrow> sql_like p s)"

definition select_lapsed_gcp_tasks :: "time \<Rightarrow> (task_row \<Rightarrow> bool) \<Rightarrow> table \<Rightarrow> table" where
  "select_lapsed_gcp_tasks now held tbl = take 500 (filter (\<lambda>r.
     status r = ACTIVE \<and> null_less (locked_until r) now \<and> owner_like ''gcp_cloud_run_%'' r \<and>
     \<not> held r) tbl)"

definition select_stale_gcp_tasks :: "time \<Rightarrow> time \<Rightarrow> table \<Rightarrow> table" where
  "select_stale_gcp_tasks now grace tbl = take 500 (filter (\<lambda>r.
     status r = ACTIVE \<and> null_less (locked_until r) (now - grace) \<and>
     owner_like ''gcp_cloud_run_%'' r) tbl)"

definition select_dismissed_unconfirmed_gcp_tasks :: "(task_row \<Rightarrow> bool) \<Rightarrow> table \<Rightarrow> table" where
  "select_dismissed_unconfirmed_gcp_tasks held tbl = take 500 (filter (\<lambda>r.
     status r = DISMISSED \<and> dismiss_confirmed_at r = None \<and> owner_like ''gcp_cloud_run_%'' r \<and>
     \<not> held r) tbl)"

definition stamp_dismiss_confirmed :: "nat \<Rightarrow> time \<Rightarrow> table \<Rightarrow> bool \<times> table" where
  "stamp_dismiss_confirmed tid now tbl =
     (let g = (\<lambda>r. task_id r = tid \<and> status r = DISMISSED \<and> dismiss_confirmed_at r = None)
      in (rowcount g tbl > 0, sql_update g (\<lambda>r. r\<lparr>dismiss_confirmed_at := Some now\<rparr>) tbl))"

text \<open>
  \<open>claim_for_execution\<close>, the claim of a job container: no terminal row, and no row whose lease is
  live under another owner.
\<close>

definition foreign_live_lease :: "string \<Rightarrow> time \<Rightarrow> task_row \<Rightarrow> bool" where
  "foreign_live_lease own now r \<longleftrightarrow>
     status r = ACTIVE \<and> (case locked_until r of None \<Rightarrow> False | Some l \<Rightarrow> now < l) \<and>
     owner_id r \<noteq> Some own"

definition execution_claimable :: "nat \<Rightarrow> string \<Rightarrow> string \<Rightarrow> time \<Rightarrow> task_row \<Rightarrow> bool" where
  "execution_claimable tid schema own now r \<longleftrightarrow>
     task_id r = tid \<and> catalog_id r = schema \<and>
     status r \<notin> {COMPLETED, FAILED, DISMISSED, DEAD_LETTER} \<and> \<not> foreign_live_lease own now r"

definition execution_set :: "string \<Rightarrow> time \<Rightarrow> time \<Rightarrow> task_row \<Rightarrow> task_row" where
  "execution_set own until now r = r\<lparr>
     status := ACTIVE, owner_id := Some own, locked_until := Some until,
     started_at := coalesce (started_at r) now, last_heartbeat_at := Some now\<rparr>"

definition claim_for_execution ::
    "nat \<Rightarrow> string \<Rightarrow> string \<Rightarrow> time \<Rightarrow> time \<Rightarrow> time \<Rightarrow> table \<Rightarrow> task_row option \<times> table" where
  "claim_for_execution tid schema own visibility now_py now tbl =
     (let g = execution_claimable tid schema own now;
          f = execution_set own (now_py + visibility) now
      in (one_dict (returning g f tbl), sql_update g f tbl))"

text \<open>
  \<open>claim_for_dispatch\<close>, the takeover by a runner: unowned, owned by a peer of its family, by itself,
  or by the dispatcher that delegated to it.
\<close>

definition dispatch_takeover :: "string \<Rightarrow> string option \<Rightarrow> string option \<Rightarrow> task_row \<Rightarrow> bool" where
  "dispatch_takeover own prefix_opt prior r \<longleftrightarrow>
     (case owner_id r of
        None \<Rightarrow> True
      | Some s \<Rightarrow>
          (case prefix_opt of None \<Rightarrow> False | Some p \<Rightarrow> sql_like (p @ ''%'') s) \<or> s = own \<or>
          prior = Some s)"

definition claim_for_dispatch ::
    "nat \<Rightarrow> string \<Rightarrow> time \<Rightarrow> string option \<Rightarrow> string option \<Rightarrow> time \<Rightarrow> table \<Rightarrow> bool \<times> table" where
  "claim_for_dispatch tid own until prefix_opt prior now tbl =
     (let g = (\<lambda>r. task_id r = tid \<and> status r = ACTIVE \<and> dispatch_takeover own prefix_opt prior r);
          f = (\<lambda>r. r\<lparr>owner_id := Some own, locked_until := Some until,
                     last_heartbeat_at := Some now, started_at := None\<rparr>)
      in (one_dict (returning g f tbl) \<noteq> None, sql_update g f tbl))"

definition reset_task_to_pending :: "nat \<Rightarrow> time option \<Rightarrow> time \<Rightarrow> table \<Rightarrow> table" where
  "reset_task_to_pending tid backoff now_py tbl =
     sql_update (\<lambda>r. task_id r = tid \<and> status r = ACTIVE)
       (\<lambda>r. r\<lparr>status := PENDING, locked_until := map_option (\<lambda>b. now_py + b) backoff,
              owner_id := None, last_heartbeat_at := None\<rparr>) tbl"

section \<open>Maintenance\<close>

text \<open>\<open>cleanup_orphan_tasks\<close>; \<open>None\<close> stands for a missing catalogs table.\<close>

definition cleanup_orphan_tasks ::
    "string list option \<Rightarrow> time \<Rightarrow> time \<Rightarrow> time \<Rightarrow> table \<Rightarrow> nat \<times> table" where
  "cleanup_orphan_tasks catalogs grace now_py now tbl =
     (case catalogs of
        None \<Rightarrow> (0, tbl)
      | Some ids \<Rightarrow>
          let g = (\<lambda>r. status r \<in> {PENDING, ACTIVE} \<and> scope r = ''CATALOG'' \<and>
                       timestamp r < now_py - grace \<and> catalog_id r \<notin> set ids \<and>
                       catalog_id r \<noteq> ''system'')
          in (rowcount g tbl,
              sql_update g (\<lambda>r. r\<lparr>status := DEAD_LETTER,
                error_message := Some ''Orphaned: catalog no longer exists'',
                finished_at := Some now, locked_until := None\<rparr>) tbl))"

text \<open>
  \<open>reap_stuck_tasks\<close>.  The column \<open>max_retries\<close> is \<open>NOT NULL\<close>, so the \<open>COALESCE\<close> with the default of
  the function's first argument is the column.
\<close>

definition drain_workclass_task_types :: "string list" where
  "drain_workclass_task_types = [''event_drain'', ''storage_drain'', ''storage_drain_offload'']"

definition drain_reclaim_grace :: time where
  "drain_reclaim_grace = 600 * 1000000"

definition reap_grace :: "task_row \<Rightarrow> time" where
  "reap_grace r = (if task_type r \<in> set drain_workclass_task_types then drain_reclaim_grace else 0)"

definition stuck :: "time \<Rightarrow> task_row \<Rightarrow> bool" where
  "stuck now r \<longleftrightarrow> status r \<in> {ACTIVE, RUNNING} \<and> null_less (locked_until r) (now - reap_grace r)"

definition reap_set :: "string \<Rightarrow> nat \<Rightarrow> time \<Rightarrow> task_row \<Rightarrow> task_row" where
  "reap_set schema cap now r =
     (let dead = retry_count r + 1 \<ge> min (max_retries r) cap
      in r\<lparr>status := (if dead then DEAD_LETTER else PENDING),
           retry_count := retry_count r + 1, owner_id := None, locked_until := None,
           last_heartbeat_at := None, finished_at := (if dead then Some now else None),
           error_message := Some
             (if dead then
                (if retry_count r + 1 \<ge> cap
                 then ''Reaped: hard retry cap ('' @ nat_str cap @ '') reached''
                 else ''Reaped: max_retries ('' @ nat_str (max_retries r) @ '') reached'')
              else ''Reaped by '' @ schema @ ''.reap_stuck_tasks (heartbeat expired)'')\<rparr>)"

definition reap_stuck_tasks :: "string \<Rightarrow> nat \<Rightarrow> time \<Rightarrow> (task_row \<Rightarrow> bool) \<Rightarrow> table \<Rightarrow> nat \<times> table" where
  "reap_stuck_tasks schema cap now held tbl =
     (let g = (\<lambda>r. stuck now r \<and> \<not> held r)
      in (rowcount g tbl, sql_update g (reap_set schema cap now) tbl))"

text \<open>The dead-letter listing, oldest first, from an optional keyset cursor.\<close>

definition after_cursor :: "(time \<times> nat) option \<Rightarrow> task_row \<Rightarrow> bool" where
  "after_cursor cur r \<longleftrightarrow> (case cur of None \<Rightarrow> True | Some (ct, ci) \<Rightarrow>
     ct < timestamp r \<or> (ct = timestamp r \<and> ci < task_id r))"

definition in_listing_scope ::
    "string option \<Rightarrow> string option \<Rightarrow> task_row \<Rightarrow> bool" where
  "in_listing_scope cat coll r \<longleftrightarrow>
     (case cat of None \<Rightarrow> True
      | Some c \<Rightarrow> catalog_id r = c \<and> (case coll of None \<Rightarrow> True | Some k \<Rightarrow> collection_id r = Some k))"

definition list_dead_letter_tasks ::
    "string option \<Rightarrow> string option \<Rightarrow> string option \<Rightarrow> nat \<Rightarrow> (time \<times> nat) option \<Rightarrow> table \<Rightarrow> table" where
  "list_dead_letter_tasks cat coll tt limit cur tbl =
     take limit (sort_key timestamp (sort_key task_id (filter (\<lambda>r.
       status r = DEAD_LETTER \<and> in_listing_scope cat coll r \<and>
       (case tt of None \<Rightarrow> True | Some t \<Rightarrow> task_type r = t) \<and> after_cursor cur r) tbl)))"

text \<open>Requeueing a dead row: one row by id, or every row of a task type.\<close>

definition requeueable :: "task_row \<Rightarrow> bool" where
  "requeueable r \<longleftrightarrow> status r \<in> {DEAD_LETTER, FAILED}"

definition requeue_set :: "bool \<Rightarrow> task_row \<Rightarrow> task_row" where
  "requeue_set reset r = r\<lparr>
     status := PENDING, retry_count := (if reset then 0 else retry_count r),
     locked_until := None, finished_at := None, error_message := None, owner_id := None\<rparr>"

datatype requeue_result = Requeued | NotRequeued | UnclaimableRequeueError

definition requeue_dead_letter_task ::
    "nat \<Rightarrow> nat \<Rightarrow> bool \<Rightarrow> string option \<Rightarrow> string option \<Rightarrow> table \<Rightarrow> requeue_result \<times> table" where
  "requeue_dead_letter_task cap tid reset cat coll tbl =
     (let base = (\<lambda>r. task_id r = tid \<and> requeueable r \<and> in_listing_scope cat coll r);
          g = (\<lambda>r. base r \<and> (reset \<or> retry_count r < cap))
      in (case one_dict (filter g tbl) of
            Some _ \<Rightarrow> (Requeued, sql_update g (requeue_set reset) tbl)
          | None \<Rightarrow>
              if \<not> reset \<and> (case one_dict (filter base tbl) of None \<Rightarrow> False
                            | Some r \<Rightarrow> cap \<le> retry_count r)
              then (UnclaimableRequeueError, tbl)
              else (NotRequeued, tbl)))"

text \<open>
  \<open>requeue_dead_letter_tasks_by_type\<close>: the matching rows with the latest \<open>finished_at\<close> first (a
  \<open>NULL\<close> sorts before every date in a descending order), up to the limit.  The JSON filters
  compare the text of a stored value, given by \<open>text_of\<close>.
\<close>

definition requeue_order :: "task_row \<Rightarrow> int" where
  "requeue_order r = (case finished_at r of None \<Rightarrow> 0 | Some _ \<Rightarrow> 1)"

definition requeue_victims ::
    "(dict option \<Rightarrow> string \<Rightarrow> string option) \<Rightarrow> string \<Rightarrow> time option \<Rightarrow> nat \<Rightarrow>
     (string \<times> string) list \<Rightarrow> table \<Rightarrow> table" where
  "requeue_victims text_of tt since limit inputs_match tbl =
     take limit (sort_key requeue_order
       (sort_key (\<lambda>r. case finished_at r of None \<Rightarrow> 0 | Some t \<Rightarrow> - t)
         (filter (\<lambda>r. requeueable r \<and> task_type r = tt \<and>
            (case since of None \<Rightarrow> True | Some s \<Rightarrow>
               (case finished_at r of None \<Rightarrow> False | Some t \<Rightarrow> s \<le> t)) \<and>
            list_all (\<lambda>(k, v). text_of (inputs r) k = Some v) inputs_match) tbl)))"

text \<open>\<open>^[A-Za-z_][A-Za-z0-9_]*$\<close>, where \<open>$\<close> also matches before a final newline.\<close>

definition ident_start :: "char \<Rightarrow> bool" where
  "ident_start c \<longleftrightarrow> (let n = of_char c :: nat in (65 \<le> n \<and> n \<le> 90) \<or> (97 \<le> n \<and> n \<le> 122) \<or> n = 95)"

definition safe_jsonb_key :: "string \<Rightarrow> bool" where
  "safe_jsonb_key k \<longleftrightarrow>
     (let s = (if k \<noteq> [] \<and> last k = CHR 0x0A then butlast k else k)
      in s \<noteq> [] \<and> ident_start (hd s) \<and> list_all (\<lambda>c. ident_start c \<or> is_digit c) (tl s))"

definition requeue_dead_letter_tasks_by_type ::
    "(dict option \<Rightarrow> string \<Rightarrow> string option) \<Rightarrow> string \<Rightarrow> time option \<Rightarrow> nat \<Rightarrow> bool \<Rightarrow>
     (string \<times> string) list \<Rightarrow> table \<Rightarrow> (py_exn + nat) \<times> table" where
  "requeue_dead_letter_tasks_by_type text_of tt since limit reset inputs_match tbl =
     (if \<not> list_all (\<lambda>(k, v). safe_jsonb_key k) inputs_match then (Inl ValueError, tbl)
      else let victims = requeue_victims text_of tt since limit inputs_match tbl;
               g = (\<lambda>r. row_key r \<in> row_key ` set victims)
           in (Inr (rowcount g tbl), sql_update g (requeue_set reset) tbl))"

section \<open>Laws of the statements\<close>

text \<open>The row of a task, and the effect of an \<open>UPDATE\<close> on it.\<close>

definition row_at :: "nat \<Rightarrow> table \<Rightarrow> task_row option" where
  "row_at tid tbl = List.find (\<lambda>r. task_id r = tid) tbl"

definition unique_ids :: "table \<Rightarrow> bool" where
  "unique_ids tbl \<longleftrightarrow> distinct (map task_id tbl)"

lemma row_at_Nil [simp]: "row_at tid [] = None"
  by (simp add: row_at_def)

lemma row_at_Cons [simp]: "row_at tid (r # tbl) = (if task_id r = tid then Some r else row_at tid tbl)"
  by (simp add: row_at_def)

lemma row_at_append:
  "row_at tid (a @ b) = (case row_at tid a of None \<Rightarrow> row_at tid b | Some r \<Rightarrow> Some r)"
  by (induction a) auto

lemma row_at_SomeD: "row_at tid tbl = Some r \<Longrightarrow> r \<in> set tbl \<and> task_id r = tid"
  by (induction tbl) (auto split: if_splits)

lemma row_at_NoneD: "row_at tid tbl = None \<longleftrightarrow> tid \<notin> task_id ` set tbl"
  by (induction tbl) auto

lemma row_at_iff: "unique_ids tbl \<Longrightarrow> row_at tid tbl = Some r \<longleftrightarrow> r \<in> set tbl \<and> task_id r = tid"
  by (induction tbl) (auto simp: unique_ids_def image_iff)

lemma unique_ids_inj:
  "unique_ids tbl \<Longrightarrow> r \<in> set tbl \<Longrightarrow> r' \<in> set tbl \<Longrightarrow> task_id r = task_id r' \<Longrightarrow> r = r'"
  by (auto simp: unique_ids_def distinct_map inj_on_def)

lemma row_key_inj:
  "unique_ids tbl \<Longrightarrow> r \<in> set tbl \<Longrightarrow> r' \<in> set tbl \<Longrightarrow> row_key r = row_key r' \<Longrightarrow> r = r'"
  by (auto simp: row_key_def dest: unique_ids_inj)

definition keeps_id :: "(task_row \<Rightarrow> task_row) \<Rightarrow> bool" where
  "keeps_id f \<longleftrightarrow> (\<forall>r. task_id (f r) = task_id r)"

lemma sql_update_Nil [simp]: "sql_update g f [] = []"
  by (simp add: sql_update_def)

lemma sql_update_Cons [simp]:
  "sql_update g f (r # tbl) = (if g r then f r else r) # sql_update g f tbl"
  by (simp add: sql_update_def)

lemma row_at_sql_update:
  "keeps_id f \<Longrightarrow> row_at tid (sql_update g f tbl) = map_option (\<lambda>r. if g r then f r else r) (row_at tid tbl)"
  by (induction tbl) (auto simp: keeps_id_def)

lemma ids_sql_update: "keeps_id f \<Longrightarrow> map task_id (sql_update g f tbl) = map task_id tbl"
  by (induction tbl) (auto simp: keeps_id_def)

lemma unique_sql_update: "keeps_id f \<Longrightarrow> unique_ids (sql_update g f tbl) = unique_ids tbl"
  by (simp add: unique_ids_def ids_sql_update)

lemma set_sql_update: "set (sql_update g f tbl) = (\<lambda>r. if g r then f r else r) ` set tbl"
  by (simp add: sql_update_def)

lemma keeps_id_sets [simp]:
  "keeps_id (claim_set c)" "keeps_id (batch_set c)" "keeps_id (complete_set fin out)"
  "keeps_id (retry_set cap now fin msg)" "keeps_id (fail_set fin msg)"
  "keeps_id (dead_letter_set fin msg)" "keeps_id (heartbeat_set until now)"
  "keeps_id (execution_set own until now)" "keeps_id (reap_set schema cap now)"
  "keeps_id (requeue_set reset)" "keeps_id (apply_update u)"
  by (simp_all add: keeps_id_def claim_set_def batch_set_def complete_set_def retry_set_def
      fail_set_def dead_letter_set_def heartbeat_set_def execution_set_def reap_set_def
      requeue_set_def apply_update_def Let_def)

lemma one_dict_simps [simp]:
  "one_dict [] = None" "one_dict (x # xs) = Some x"
  "one_dict xs = None \<longleftrightarrow> xs = []"
  by (simp_all add: one_dict_def split: list.splits)

lemma one_dict_SomeD: "one_dict xs = Some x \<Longrightarrow> x \<in> set xs"
  by (cases xs) auto

lemma null_less_simps [simp]: "\<not> null_less None t" "null_less (Some v) t \<longleftrightarrow> v < t"
  by (simp_all add: null_less_def)

lemma null_le_simps [simp]: "\<not> null_le None t" "null_le (Some v) t \<longleftrightarrow> v \<le> t"
  by (simp_all add: null_le_def)

lemma opt_guard_simps [simp]: "opt_guard None col" "opt_guard (Some x) col \<longleftrightarrow> col = Some x"
  by (simp_all add: opt_guard_def)

lemma reap_grace_nonneg: "0 \<le> reap_grace r"
  by (simp add: reap_grace_def drain_reclaim_grace_def)

text \<open>\<open>DISTINCT ON\<close>: a subset with one row per key, the first in the order of its input.\<close>

lemma distinct_on_subset: "set (distinct_on k xs) \<subseteq> set xs"
  by (induction k xs rule: distinct_on.induct) auto

lemma distinct_on_complete: "x \<in> set xs \<Longrightarrow> \<exists>y \<in> set (distinct_on k xs). k y = k x"
  by (induction k xs rule: distinct_on.induct) (auto, metis)

lemma distinct_on_distinct: "distinct (map k (distinct_on k xs))"
proof (induction k xs rule: distinct_on.induct)
  case (2 k x xs)
  moreover have "k x \<notin> k ` set (distinct_on k (filter (\<lambda>y. k y \<noteq> k x) xs))"
    using distinct_on_subset [of k "filter (\<lambda>y. k y \<noteq> k x) xs"] by auto
  ultimately show ?case by simp
qed simp

lemma distinct_on_first:
  "sorted_wrt P xs \<Longrightarrow> y \<in> set (distinct_on k xs) \<Longrightarrow> x \<in> set xs \<Longrightarrow> k x = k y \<Longrightarrow> x = y \<or> P y x"
proof (induction k xs rule: distinct_on.induct)
  case (2 k z xs)
  show ?case
  proof (cases "y = z")
    case True
    with 2 show ?thesis by auto
  next
    case False
    then have y: "y \<in> set (distinct_on k (filter (\<lambda>y. k y \<noteq> k z) xs))" using 2 by simp
    then have "k y \<noteq> k z" using distinct_on_subset [of k "filter (\<lambda>y. k y \<noteq> k z) xs"] by auto
    with 2 y show ?thesis by (auto simp: sorted_wrt_filter)
  qed
qed simp

text \<open>Sorting by a second key keeps the order of the first within each group.\<close>

lemma sorted_wrt_groups:
  assumes "\<And>c. sorted (map g (filter (\<lambda>x. f x = c) zs))"
  shows "sorted_wrt (\<lambda>a b. f a = f b \<longrightarrow> g a \<le> g b) zs"
  using assms
proof (induction zs)
  case (Cons z zs)
  have "sorted (map g (filter (\<lambda>x. f x = c) zs))" for c
    using Cons.prems [of c] by (cases "f z = c") auto
  moreover have "g z \<le> g x" if "x \<in> set zs" "f z = f x" for x
    using Cons.prems [of "f z"] that by auto
  ultimately show ?case using Cons.IH by simp
qed simp

lemma sort_key_groups:
  "sorted_wrt (\<lambda>a b. f a = f b \<longrightarrow> g a \<le> g b) (sort_key f (sort_key g xs))"
proof (rule sorted_wrt_groups)
  fix c
  have "filter (\<lambda>x. f x = c) (sort_key f (sort_key g xs)) = filter (\<lambda>x. f x = c) (sort_key g xs)"
    by (rule sort_key_stable)
  moreover have "sorted (map g (filter (\<lambda>x. f x = c) (sort_key g xs)))"
    by (metis sorted_filter sorted_sort_key)
  ultimately show "sorted (map g (filter (\<lambda>x. f x = c) (sort_key f (sort_key g xs))))" by simp
qed

end
