(* ===== verification/Task_Lifecycle.thy ===== *)
theory Task_Lifecycle
  imports Task_Queue
begin

text \<open>
  The task table as a state machine.  Workers, job containers, the dispatcher, the reaper, the
  maintenance jobs and operators all act on it through the statements of \<open>Task_Queue\<close>; an operation
  of any of them is a label, and a run is any interleaving of labelled steps.  The invariants are
  proved once over runs and instantiated: leases, finality, the retry budget, deduplication.
\<close>

section \<open>Operations and runs\<close>

datatype queue_op =
    OpCreate task_env time nat time task_create string task_status "string option" "time option"
  | OpEnqueue task_env nat time task_create string "string option" string string
  | OpUpdate nat task_update string
  | OpClaimNext claim_cfg "task_row \<Rightarrow> bool"
  | OpClaimBatch claim_cfg nat "task_row \<Rightarrow> bool"
  | OpComplete nat time "json option" "string option" "time option"
  | OpFail time nat time string bool "string option" "time option"
  | OpDeadLetter nat time string "string option" "time option"
  | OpHeartbeats "(nat \<times> time) list" time time time
  | OpHeartbeat nat time "time option" time time
  | OpRunnerRef nat string
  | OpPersist nat "json option"
  | OpConfirmDismiss nat time
  | OpClaimExecution nat string string time time time
  | OpClaimDispatch nat string time "string option" "string option" time
  | OpReset nat "time option" time
  | OpCleanup "string list option" time time time
  | OpReap string time "task_row \<Rightarrow> bool"
  | OpRequeue nat bool "string option" "string option"
  | OpRequeueType "dict option \<Rightarrow> string \<Rightarrow> string option" string "time option" nat bool
      "(string \<times> string) list"

fun exec_op :: "nat \<Rightarrow> queue_op \<Rightarrow> table \<Rightarrow> table" where
  "exec_op cap (OpCreate env now tid created c schema st own lock) tbl =
     snd (create_task env now tid created c schema st own lock tbl tbl)"
| "exec_op cap (OpEnqueue env tid created c schema key mode scp) tbl =
     snd (enqueue env tid created c schema key mode scp tbl tbl)"
| "exec_op cap (OpUpdate tid u schema) tbl = snd (update_task tid u schema tbl)"
| "exec_op cap (OpClaimNext c held) tbl = snd (claim_next c held tbl)"
| "exec_op cap (OpClaimBatch c n held) tbl = snd (claim_batch cap c n held tbl)"
| "exec_op cap (OpComplete tid fin out own created) tbl = snd (complete_task tid fin out own created tbl)"
| "exec_op cap (OpFail now tid fin msg retry own created) tbl =
     snd (fail_task cap now tid fin msg retry own created tbl)"
| "exec_op cap (OpDeadLetter tid fin msg own created) tbl =
     snd (dead_letter_task tid fin msg own created tbl)"
| "exec_op cap (OpHeartbeats tasks vis now_py now) tbl = heartbeat_tasks tasks vis now_py now tbl"
| "exec_op cap (OpHeartbeat tid vis created now_py now) tbl =
     snd (heartbeat_task_if_active tid vis created now_py now tbl)"
| "exec_op cap (OpRunnerRef tid ref) tbl = set_runner_ref tid ref tbl"
| "exec_op cap (OpPersist tid out) tbl = persist_outputs tid out tbl"
| "exec_op cap (OpConfirmDismiss tid now) tbl = snd (stamp_dismiss_confirmed tid now tbl)"
| "exec_op cap (OpClaimExecution tid schema own vis now_py now) tbl =
     snd (claim_for_execution tid schema own vis now_py now tbl)"
| "exec_op cap (OpClaimDispatch tid own until pre prior now) tbl =
     snd (claim_for_dispatch tid own until pre prior now tbl)"
| "exec_op cap (OpReset tid backoff now_py) tbl = reset_task_to_pending tid backoff now_py tbl"
| "exec_op cap (OpCleanup cats grace now_py now) tbl = snd (cleanup_orphan_tasks cats grace now_py now tbl)"
| "exec_op cap (OpReap schema now held) tbl = snd (reap_stuck_tasks schema cap now held tbl)"
| "exec_op cap (OpRequeue tid reset cat coll) tbl = snd (requeue_dead_letter_task cap tid reset cat coll tbl)"
| "exec_op cap (OpRequeueType text_of tt since limit reset m) tbl =
     snd (requeue_dead_letter_tasks_by_type text_of tt since limit reset m tbl)"

text \<open>Inserts use fresh task ids.\<close>

fun fresh_op :: "queue_op \<Rightarrow> table \<Rightarrow> bool" where
  "fresh_op (OpCreate env now tid created c schema st own lock) tbl \<longleftrightarrow> tid \<notin> task_id ` set tbl"
| "fresh_op (OpEnqueue env tid created c schema key mode scp) tbl \<longleftrightarrow> tid \<notin> task_id ` set tbl"
| "fresh_op _ _ \<longleftrightarrow> True"

text \<open>A run of operations that all satisfy \<open>P\<close>.\<close>

inductive queue_run :: "nat \<Rightarrow> (queue_op \<Rightarrow> bool) \<Rightarrow> table \<Rightarrow> table \<Rightarrow> bool"
  for cap :: nat and P :: "queue_op \<Rightarrow> bool" where
  queue_refl: "queue_run cap P tbl tbl"
| queue_step: "queue_run cap P tbl tbl' \<Longrightarrow> P op \<Longrightarrow> fresh_op op tbl' \<Longrightarrow>
    queue_run cap P tbl (exec_op cap op tbl')"

lemma queue_run_one: "P op \<Longrightarrow> fresh_op op tbl \<Longrightarrow> queue_run cap P tbl (exec_op cap op tbl)"
  by (rule queue_step [OF queue_refl])

lemma queue_run_trans:
  "queue_run cap P b c \<Longrightarrow> queue_run cap P a b \<Longrightarrow> queue_run cap P a c"
  by (induction rule: queue_run.induct) (auto intro: queue_run.intros)

text \<open>An invariant of the operations admitted by \<open>P\<close> holds along every run of them.\<close>

locale queue_invariant =
  fixes cap :: nat and P :: "queue_op \<Rightarrow> bool" and J :: "table \<Rightarrow> bool"
  assumes preserved: "unique_ids tbl \<Longrightarrow> J tbl \<Longrightarrow> P op \<Longrightarrow> fresh_op op tbl \<Longrightarrow> J (exec_op cap op tbl)"

section \<open>The effect of an operation on one row\<close>

text \<open>
  Every operation rewrites each stored row by a function of that row, which depends on the rest of
  the table only where a statement selects its rows by a query.
\<close>

fun row_effect :: "nat \<Rightarrow> queue_op \<Rightarrow> table \<Rightarrow> task_row \<Rightarrow> task_row" where
  "row_effect cap (OpUpdate tid u schema) tbl r =
     (if task_id r = tid \<and> catalog_id r = schema then apply_update u r else r)"
| "row_effect cap (OpClaimNext c held) tbl r =
     (case fst (claim_next c held tbl) of
        None \<Rightarrow> r | Some x \<Rightarrow> if row_key r = row_key x then claim_set c r else r)"
| "row_effect cap (OpClaimBatch c n held) tbl r =
     (if (async_types c \<noteq> [] \<or> sync_types c \<noteq> []) \<and>
         row_key r \<in> row_key ` set (batch_locked cap c n held tbl) then batch_set c r else r)"
| "row_effect cap (OpComplete tid fin out own created) tbl r =
     (if write_guard tid created own r then complete_set fin out r else r)"
| "row_effect cap (OpFail now tid fin msg retry own created) tbl r =
     (if write_guard tid created own r
      then (if retry then retry_set cap now fin msg r else fail_set fin msg r) else r)"
| "row_effect cap (OpDeadLetter tid fin msg own created) tbl r =
     (if write_guard tid created own r then dead_letter_set fin msg r else r)"
| "row_effect cap (OpHeartbeats tasks vis now_py now) tbl r =
     (if (task_id r, timestamp r) \<in> set tasks \<and> status r = ACTIVE
      then heartbeat_set (now_py + vis) now r else r)"
| "row_effect cap (OpHeartbeat tid vis created now_py now) tbl r =
     (if write_guard tid created None r \<and> status r = ACTIVE
      then heartbeat_set (now_py + vis) now r else r)"
| "row_effect cap (OpRunnerRef tid ref) tbl r = (if task_id r = tid then r\<lparr>runner_ref := Some ref\<rparr> else r)"
| "row_effect cap (OpPersist tid out) tbl r =
     (if task_id r = tid then r\<lparr>outputs := out, progress := 100\<rparr> else r)"
| "row_effect cap (OpConfirmDismiss tid now) tbl r =
     (if task_id r = tid \<and> status r = DISMISSED \<and> dismiss_confirmed_at r = None
      then r\<lparr>dismiss_confirmed_at := Some now\<rparr> else r)"
| "row_effect cap (OpClaimExecution tid schema own vis now_py now) tbl r =
     (if execution_claimable tid schema own now r then execution_set own (now_py + vis) now r else r)"
| "row_effect cap (OpClaimDispatch tid own until pre prior now) tbl r =
     (if task_id r = tid \<and> status r = ACTIVE \<and> dispatch_takeover own pre prior r
      then r\<lparr>owner_id := Some own, locked_until := Some until, last_heartbeat_at := Some now,
             started_at := None\<rparr> else r)"
| "row_effect cap (OpReset tid backoff now_py) tbl r =
     (if task_id r = tid \<and> status r = ACTIVE
      then r\<lparr>status := PENDING, locked_until := map_option (\<lambda>b. now_py + b) backoff,
             owner_id := None, last_heartbeat_at := None\<rparr> else r)"
| "row_effect cap (OpCleanup cats grace now_py now) tbl r =
     (case cats of None \<Rightarrow> r | Some ids \<Rightarrow>
        if status r \<in> {PENDING, ACTIVE} \<and> scope r = ''CATALOG'' \<and> timestamp r < now_py - grace \<and>
           catalog_id r \<notin> set ids \<and> catalog_id r \<noteq> ''system''
        then r\<lparr>status := DEAD_LETTER,
               error_message := Some ''Orphaned: catalog no longer exists'',
               finished_at := Some now, locked_until := None\<rparr> else r)"
| "row_effect cap (OpReap schema now held) tbl r =
     (if stuck now r \<and> \<not> held r then reap_set schema cap now r else r)"
| "row_effect cap (OpRequeue tid reset cat coll) tbl r =
     (if task_id r = tid \<and> requeueable r \<and> in_listing_scope cat coll r \<and> (reset \<or> retry_count r < cap)
      then requeue_set reset r else r)"
| "row_effect cap (OpRequeueType text_of tt since limit reset m) tbl r =
     (if list_all (\<lambda>(k, v). safe_jsonb_key k) m \<and>
         row_key r \<in> row_key ` set (requeue_victims text_of tt since limit m tbl)
      then requeue_set reset r else r)"
| "row_effect cap _ tbl r = r"

fun inserted :: "queue_op \<Rightarrow> table \<Rightarrow> table" where
  "inserted (OpCreate env now tid created c schema st own lock) tbl =
     (case fst (create_task env now tid created c schema st own lock tbl tbl) of
        Inr (Some new) \<Rightarrow> [new] | _ \<Rightarrow> [])"
| "inserted (OpEnqueue env tid created c schema key mode scp) tbl =
     (case fst (enqueue env tid created c schema key mode scp tbl tbl) of
        Some new \<Rightarrow> [new] | None \<Rightarrow> [])"
| "inserted _ _ = []"

lemma task_id_row_effect [simp]: "task_id (row_effect cap op tbl r) = task_id r"
  by (cases op) (auto simp: claim_set_def batch_set_def complete_set_def retry_set_def fail_set_def
      dead_letter_set_def heartbeat_set_def execution_set_def reap_set_def requeue_set_def
      apply_update_def Let_def split: option.splits)

lemma row_key_sets [simp]:
  "row_key (claim_set c r) = row_key r" "row_key (batch_set c r) = row_key r"
  "row_key (requeue_set reset r) = row_key r"
  by (simp_all add: row_key_def claim_set_def batch_set_def requeue_set_def)

lemma claim_next_effect:
  "snd (claim_next c held tbl) = map (row_effect cap (OpClaimNext c held) tbl) tbl"
proof (cases "async_types c = [] \<and> sync_types c = []")
  case False
  let ?ys = "sort_key timestamp (filter (\<lambda>r. pending_visible c r \<and> \<not> held r) tbl)"
  show ?thesis
  proof (cases ?ys)
    case Nil
    with False show ?thesis by (auto simp: claim_next_def intro!: map_idI [symmetric])
  next
    case (Cons x xs)
    have "x \<in> set ?ys" unfolding Cons by simp
    then have mem: "x \<in> set tbl" by simp
    let ?g = "\<lambda>r. row_key r = row_key x"
    from mem obtain y where y: "one_dict (filter ?g tbl) = Some y"
      by (metis (mono_tags, lifting) filter_empty_conv not_Some_eq one_dict_simps(3))
    then have key: "row_key y = row_key x" using one_dict_SomeD by fastforce
    have fst: "fst (claim_next c held tbl) = Some (claim_set c y)"
      using False Cons y by (auto simp: claim_next_def Let_def returning_def one_dict_def split: list.splits)
    have "snd (claim_next c held tbl) = sql_update ?g (claim_set c) tbl"
      using False Cons by (auto simp: claim_next_def Let_def)
    then show ?thesis by (simp add: fst key sql_update_def)
  qed
qed (auto simp: claim_next_def intro!: map_idI [symmetric])

lemma claim_batch_effect:
  "snd (claim_batch cap c n held tbl) = map (row_effect cap (OpClaimBatch c n held) tbl) tbl"
  by (auto simp: claim_batch_def Let_def sql_update_def intro!: map_idI [symmetric])

lemma requeue_effect:
  "snd (requeue_dead_letter_task cap tid reset cat coll tbl) =
     map (row_effect cap (OpRequeue tid reset cat coll) tbl) tbl"
  by (auto simp: requeue_dead_letter_task_def Let_def sql_update_def filter_empty_conv
      split: option.splits intro!: map_idI [symmetric])

text \<open>Every operation is the row effect on the stored rows, followed by the inserted row.\<close>

lemma exec_op_effect: "exec_op cap op tbl = map (row_effect cap op tbl) tbl @ inserted op tbl"
proof (cases op)
  case (OpUpdate tid u schema)
  have "apply_update no_update r = r" for r
    by (simp add: apply_update_def no_update_def set_or_def)
  with OpUpdate show ?thesis by (auto simp: update_task_def Let_def sql_update_def intro!: map_idI [symmetric])
next
  case (OpClaimNext c held)
  then show ?thesis by (simp add: claim_next_effect)
next
  case (OpClaimBatch c n held)
  then show ?thesis by (simp add: claim_batch_effect)
next
  case (OpHeartbeats tasks vis now_py now)
  then show ?thesis by (auto simp: heartbeat_tasks_def sql_update_def intro!: map_idI [symmetric])
next
  case (OpCleanup cats grace now_py now)
  then show ?thesis by (auto simp: cleanup_orphan_tasks_def Let_def sql_update_def split: option.splits
      intro!: map_idI [symmetric])
next
  case (OpRequeue tid reset cat coll)
  then show ?thesis by (simp add: requeue_effect)
next
  case (OpRequeueType text_of tt since limit reset m)
  then show ?thesis
    by (auto simp: requeue_dead_letter_tasks_by_type_def Let_def sql_update_def intro!: map_idI [symmetric])
next
  case (OpCreate env now tid created c schema st own lock)
  then show ?thesis
    by (auto simp: create_task_def Let_def split: option.splits intro!: map_idI [symmetric])
next
  case (OpEnqueue env tid created c schema key mode scp)
  then show ?thesis
    by (auto simp: enqueue_def Let_def split: option.splits intro!: map_idI [symmetric])
qed (auto simp: complete_task_def fail_task_def dead_letter_task_def heartbeat_task_if_active_def
    set_runner_ref_def persist_outputs_def stamp_dismiss_confirmed_def claim_for_execution_def
    claim_for_dispatch_def reset_task_to_pending_def reap_stuck_tasks_def sql_update_def Let_def)

lemma inserted_cases:
  "r \<in> set (inserted op tbl) \<Longrightarrow>
     (\<exists>env now tid created c schema st own lock.
        op = OpCreate env now tid created c schema st own lock \<and>
        r = create_row env now tid created c schema st own lock) \<or>
     (\<exists>env tid created c schema key mode scp.
        op = OpEnqueue env tid created c schema key mode scp \<and>
        r = enqueue_row env tid created c schema key mode scp)"
  by (cases op) (auto simp: create_task_def enqueue_def Let_def split: option.splits if_splits)

lemma task_id_new_rows [simp]:
  "task_id (create_row env now tid created c schema st own lock) = tid"
  "task_id (enqueue_row env tid created c schema key mode scp) = tid"
  by (simp_all add: create_row_def enqueue_row_def default_row_def)

lemma inserted_ids:
  "fresh_op op tbl \<Longrightarrow> distinct (map task_id (inserted op tbl)) \<and>
     (\<forall>r \<in> set (inserted op tbl). task_id r \<notin> task_id ` set tbl)"
  by (cases op) (auto simp: create_task_def enqueue_def Let_def split: option.splits if_splits)

lemma unique_exec_op:
  assumes "unique_ids tbl" "fresh_op op tbl"
  shows "unique_ids (exec_op cap op tbl)"
proof -
  have ids: "map task_id (map (row_effect cap op tbl) tbl) = map task_id tbl" by simp
  note ins = inserted_ids [OF assms(2)]
  have disj: "set (map task_id tbl) \<inter> set (map task_id (inserted op tbl)) = {}"
  proof (rule ccontr)
    assume "\<not> ?thesis"
    then obtain i where i: "i \<in> task_id ` set tbl" "i \<in> task_id ` set (inserted op tbl)"
      by (auto simp only: set_map)
    from i(2) obtain r where "r \<in> set (inserted op tbl)" "i = task_id r" by (rule imageE)
    then show False using ins i(1) by simp
  qed
  show ?thesis
    unfolding unique_ids_def exec_op_effect map_append distinct_append ids
    using assms(1) [unfolded unique_ids_def] ins disj by (intro conjI) simp_all
qed

lemma row_at_map: "(\<And>r. task_id (f r) = task_id r) \<Longrightarrow> row_at tid (map f tbl) = map_option f (row_at tid tbl)"
  by (induction tbl) auto

lemma row_at_exec_op:
  "row_at tid tbl = Some r \<Longrightarrow> row_at tid (exec_op cap op tbl) = Some (row_effect cap op tbl r)"
  by (simp add: exec_op_effect row_at_append row_at_map)

text \<open>A queried selection that contains a row's key contains the row.\<close>

lemma batch_locked_pending:
  assumes "r \<in> set (batch_locked cap c n held tbl)"
  shows "r \<in> set tbl" "status r = PENDING" "\<not> held r"
  using assms by (auto simp: batch_locked_def dest: in_set_takeD)

lemma requeue_victims_requeueable:
  assumes "r \<in> set (requeue_victims text_of tt since limit m tbl)"
  shows "r \<in> set tbl" "requeueable r" "task_type r = tt"
  using assms by (auto simp: requeue_victims_def dest!: in_set_takeD)

lemma selected_iff:
  assumes "unique_ids tbl" "r \<in> set tbl" "set xs \<subseteq> set tbl"
  shows "row_key r \<in> row_key ` set xs \<longleftrightarrow> r \<in> set xs"
proof
  assume "row_key r \<in> row_key ` set xs"
  then obtain x where "x \<in> set xs" "row_key x = row_key r" by auto
  with assms show "r \<in> set xs" using row_key_inj [of tbl x r] by auto
qed auto

lemma batch_selected:
  "unique_ids tbl \<Longrightarrow> r \<in> set tbl \<Longrightarrow>
     row_key r \<in> row_key ` set (batch_locked cap c n held tbl) \<longleftrightarrow> r \<in> set (batch_locked cap c n held tbl)"
  by (rule selected_iff) (auto dest: batch_locked_pending)

lemma victim_selected:
  "unique_ids tbl \<Longrightarrow> r \<in> set tbl \<Longrightarrow>
     row_key r \<in> row_key ` set (requeue_victims text_of tt since limit m tbl) \<longleftrightarrow>
     r \<in> set (requeue_victims text_of tt since limit m tbl)"
  by (rule selected_iff) (auto dest: requeue_victims_requeueable)

lemma claim_next_selected:
  assumes "unique_ids tbl" "r \<in> set tbl" "fst (claim_next c held tbl) = Some x" "row_key r = row_key x"
  shows "pending_visible c r \<and> \<not> held r"
proof -
  let ?ys = "sort_key timestamp (filter (\<lambda>r. pending_visible c r \<and> \<not> held r) tbl)"
  from assms(3) obtain y ys where ys: "?ys = y # ys"
    by (auto simp: claim_next_def split: if_splits list.splits)
  then have "y \<in> set ?ys" by simp
  then have y: "y \<in> set tbl" "pending_visible c y" "\<not> held y" by auto
  have "x \<in> set (returning (\<lambda>r. row_key r = row_key y) (claim_set c) tbl)"
    using assms(3) ys by (auto simp: claim_next_def Let_def split: if_splits dest: one_dict_SomeD)
  then have "row_key x = row_key y" by (auto simp: returning_def)
  with assms y show ?thesis using row_key_inj [of tbl r y] by auto
qed

context queue_invariant
begin

lemma unique_along: "queue_run cap P tbl tbl' \<Longrightarrow> unique_ids tbl \<Longrightarrow> unique_ids tbl'"
  by (induction rule: queue_run.induct) (auto intro: unique_exec_op)

lemma along: "queue_run cap P tbl tbl' \<Longrightarrow> unique_ids tbl \<Longrightarrow> J tbl \<Longrightarrow> J tbl'"
proof (induction rule: queue_run.induct)
  case (queue_step tbl tbl' op)
  then show ?case using preserved [of tbl' op] unique_along [of tbl tbl'] by auto
qed auto

end

section \<open>Leases\<close>

text \<open>
  The operations that cannot end the lease of \<open>a\<close> on a task until \<open>l\<close>: every \<open>claim_next\<close> and
  \<open>claim_batch\<close>, a container's claim before \<open>l\<close> by another owner, the reaper up to \<open>l\<close>, terminal writes
  guarded by another owner, requeues, inserts, renewals and column updates that do not cut the lease.

  Excluded on the leased task, because each of them does end the lease or may shorten it, are exactly:
  a terminal write of the holder or one without an owner guard; \<open>update_task\<close> with a status, an owner
  or a lock among its fields; \<open>reset_task_to_pending\<close>; a \<open>claim_for_dispatch\<close> whose guard accepts the
  holder (a peer of the runner family, the holder itself or the predecessor named by the caller: the
  statement does not look at the lease); a heartbeat or a claim by the holder to a time before \<open>l\<close>;
  a claim by another container at or after \<open>l\<close> of the database clock; the reaper after \<open>l\<close>; and the
  orphan sweep when it is told that the task's catalog does not exist.
\<close>

fun leaves_lease :: "string \<Rightarrow> nat \<Rightarrow> string \<Rightarrow> time \<Rightarrow> queue_op \<Rightarrow> bool" where
  "leaves_lease a tid cat l (OpUpdate t u schema) \<longleftrightarrow>
     t \<noteq> tid \<or> schema \<noteq> cat \<or> (u_status u = None \<and> u_owner_id u = None \<and> u_locked_until u = None)"
| "leaves_lease a tid cat l (OpComplete t fin out own created) \<longleftrightarrow> t \<noteq> tid \<or> (\<exists>b. own = Some b \<and> b \<noteq> a)"
| "leaves_lease a tid cat l (OpFail now t fin msg retry own created) \<longleftrightarrow>
     t \<noteq> tid \<or> (\<exists>b. own = Some b \<and> b \<noteq> a)"
| "leaves_lease a tid cat l (OpDeadLetter t fin msg own created) \<longleftrightarrow>
     t \<noteq> tid \<or> (\<exists>b. own = Some b \<and> b \<noteq> a)"
| "leaves_lease a tid cat l (OpHeartbeats tasks vis now_py now) \<longleftrightarrow>
     tid \<notin> fst ` set tasks \<or> l \<le> now_py + vis"
| "leaves_lease a tid cat l (OpHeartbeat t vis created now_py now) \<longleftrightarrow> t \<noteq> tid \<or> l \<le> now_py + vis"
| "leaves_lease a tid cat l (OpClaimExecution t schema own vis now_py now) \<longleftrightarrow>
     t \<noteq> tid \<or> schema \<noteq> cat \<or> (if own = a then l \<le> now_py + vis else now < l)"
| "leaves_lease a tid cat l (OpClaimDispatch t own until pre prior now) \<longleftrightarrow>
     t \<noteq> tid \<or> \<not> ((case pre of None \<Rightarrow> False | Some p \<Rightarrow> sql_like (p @ ''%'') a) \<or> own = a \<or> prior = Some a)"
| "leaves_lease a tid cat l (OpReset t backoff now_py) \<longleftrightarrow> t \<noteq> tid"
| "leaves_lease a tid cat l (OpCleanup cats grace now_py now) \<longleftrightarrow>
     (case cats of None \<Rightarrow> True | Some ids \<Rightarrow> cat \<in> set ids \<or> cat = ''system'')"
| "leaves_lease a tid cat l (OpReap schema now held) \<longleftrightarrow> now \<le> l"
| "leaves_lease a tid cat l _ \<longleftrightarrow> True"

definition leased :: "string \<Rightarrow> nat \<Rightarrow> string \<Rightarrow> time \<Rightarrow> task_row \<Rightarrow> bool" where
  "leased a tid cat l r \<longleftrightarrow> task_id r = tid \<and> catalog_id r = cat \<and> status r = ACTIVE \<and>
     owner_id r = Some a \<and> (case locked_until r of None \<Rightarrow> False | Some until \<Rightarrow> l \<le> until)"

lemma leased_claims:
  assumes "unique_ids tbl" "r \<in> set tbl" "leased a tid cat l r"
  shows "row_effect cap (OpClaimNext c held) tbl r = r"
    and "row_effect cap (OpClaimBatch c n held) tbl r = r"
    and "row_effect cap (OpRequeueType text_of tt since limit reset m) tbl r = r"
    and "row_effect cap (OpRequeue t reset cat' coll) tbl r = r"
    and "now \<le> l \<Longrightarrow> row_effect cap (OpReap schema now held) tbl r = r"
proof -
  have st: "status r = ACTIVE" using assms by (simp add: leased_def)
  show "row_effect cap (OpClaimNext c held) tbl r = r"
    using assms st claim_next_selected [of tbl r c held]
    by (auto simp: pending_visible_def split: option.splits)
  show "row_effect cap (OpClaimBatch c n held) tbl r = r"
    using assms st batch_locked_pending(2) [of r cap c n held tbl] by (auto simp: batch_selected)
  show "row_effect cap (OpRequeueType text_of tt since limit reset m) tbl r = r"
    using assms st requeue_victims_requeueable(2) [of r text_of tt since limit m tbl]
    by (auto simp: victim_selected requeueable_def)
  show "row_effect cap (OpRequeue t reset cat' coll) tbl r = r"
    using st by (simp add: requeueable_def)
  show "row_effect cap (OpReap schema now held) tbl r = r" if "now \<le> l"
    using assms that reap_grace_nonneg [of r] by (auto simp: stuck_def leased_def split: option.splits)
qed

lemma leased_row_effect:
  assumes "unique_ids tbl" "r \<in> set tbl" "leased a tid cat l r" "leaves_lease a tid cat l op"
  shows "leased a tid cat l (row_effect cap op tbl r)"
proof (cases op)
  case (OpCleanup cats grace now_py now)
  then show ?thesis using assms by (auto simp: leased_def split: option.splits)
next
  case (OpClaimDispatch t own until pre prior now)
  then show ?thesis using assms by (auto simp: leased_def dispatch_takeover_def split: option.splits)
next
  case (OpClaimExecution t schema own vis now_py now)
  then show ?thesis using assms
    by (auto simp: execution_claimable_def foreign_live_lease_def execution_set_def leased_def
        split: option.splits if_splits)
next
  case (OpUpdate t u schema)
  then show ?thesis using assms by (auto simp: leased_def apply_update_def set_or_def)
next
  case (OpHeartbeats tasks vis now_py now)
  then show ?thesis using assms by (auto simp: leased_def heartbeat_set_def image_iff)
qed (use assms leased_claims [OF assms(1-3)] in
    \<open>auto simp: write_guard_def heartbeat_set_def leased_def\<close>)

interpretation lease: queue_invariant cap "leaves_lease a tid cat l"
    "\<lambda>tbl. \<exists>r. row_at tid tbl = Some r \<and> leased a tid cat l r"
  for cap a tid cat l
proof (unfold_locales, elim exE conjE)
  fix tbl op r
  assume u: "unique_ids tbl" and r: "row_at tid tbl = Some r" "leased a tid cat l r"
    and op: "leaves_lease a tid cat l op"
  then have "leased a tid cat l (row_effect cap op tbl r)"
    using leased_row_effect row_at_SomeD by blast
  then show "\<exists>r'. row_at tid (exec_op cap op tbl) = Some r' \<and> leased a tid cat l r'"
    using row_at_exec_op [OF r(1)] by simp
qed

text \<open>
  C5. A lease is exclusive among the claims.  While a worker holds the lease of a task, it stays
  active under the same owner with a lease at least as long, along every interleaving of operations
  none of which is one of the following on that task: a terminal write by the holder or without an
  owner guard, \<open>update_task\<close> setting a status, owner or lock, \<open>reset_task_to_pending\<close>, a
  \<open>claim_for_dispatch\<close> takeover whose owner guard accepts the holder (it ignores the lease), a heartbeat
  or holder's claim that shortens the lease, a claim or reaper pass after its expiry, and the orphan
  sweep of a catalog reported deleted.
\<close>

theorem lease_exclusive:
  assumes "unique_ids tbl" "row_at tid tbl = Some r" "leased a tid cat l r"
    "queue_run cap (leaves_lease a tid cat l) tbl tbl'"
  shows "\<exists>r'. row_at tid tbl' = Some r' \<and> leased a tid cat l r'"
  using lease.along [OF assms(4,1)] assms(2,3) by blast

text \<open>A sample row, held by worker \<open>w1\<close> until time 1000.\<close>

definition sample_row :: task_row where
  "sample_row = (default_row 7 ''c1'' ''ingest'' 100)\<lparr>
     status := ACTIVE, owner_id := Some ''w1'', locked_until := Some 1000\<rparr>"

lemma sample_row_sel [simp]:
  "task_id sample_row = 7" "catalog_id sample_row = ''c1''" "status sample_row = ACTIVE"
  "owner_id sample_row = Some ''w1''" "locked_until sample_row = Some 1000"
  "timestamp sample_row = 100" "retry_count sample_row = 0" "max_retries sample_row = 3"
  "task_type sample_row = ''ingest''" "execution_mode sample_row = ''ASYNCHRONOUS''"
  "dedup_key sample_row = None" "scope sample_row = ''CATALOG''"
  by (simp_all add: sample_row_def default_row_def)

theorem lease_exclusive_witness:
  "\<exists>r'. row_at 7 (exec_op 5 (OpReap ''tasks'' 900 (\<lambda>_. False))
       (exec_op 5 (OpClaimExecution 7 ''c1'' ''w2'' 300 800 800) [sample_row])) = Some r' \<and>
     leased ''w1'' 7 ''c1'' 1000 r'"
proof (rule lease_exclusive [where tbl = "[sample_row]" and r = sample_row and cap = 5])
  show "queue_run 5 (leaves_lease ''w1'' 7 ''c1'' 1000) [sample_row]
      (exec_op 5 (OpReap ''tasks'' 900 (\<lambda>_. False))
        (exec_op 5 (OpClaimExecution 7 ''c1'' ''w2'' 300 800 800) [sample_row]))"
    by (intro queue_step queue_refl) simp_all
qed (simp_all add: unique_ids_def leased_def)

text \<open>
  The exclusion of takeovers is needed: \<open>claim_for_dispatch\<close> takes a task from a peer of the runner
  family, or from the named predecessor, however long the peer's lease still runs.
\<close>

lemma takeover_ignores_lease:
  assumes "row_at tid tbl = Some r" "leased a tid cat l r" "prior = Some a" "own \<noteq> a"
  shows "\<exists>r'. row_at tid (exec_op cap (OpClaimDispatch tid own until pre prior now) tbl) = Some r' \<and>
           owner_id r' = Some own \<and> \<not> leased a tid cat l r'"
proof -
  have "row_at tid (exec_op cap (OpClaimDispatch tid own until pre prior now) tbl) =
      Some (row_effect cap (OpClaimDispatch tid own until pre prior now) tbl r)"
    by (rule row_at_exec_op [OF assms(1)])
  then show ?thesis using assms(2-4) by (simp add: leased_def dispatch_takeover_def)
qed

end
