(* ===== verification/Task_Guarantees.thy ===== *)
theory Task_Guarantees
  imports Task_Lifecycle
begin

text \<open>
  What the task table guarantees along runs of its operations, and where it does not: finality of
  completed tasks, the retry budget, claimability of queued tasks, deduplication, fairness and
  progress of claims.
\<close>

section \<open>Finality\<close>

text \<open>
  Operations that keep to the ownership protocol on a task: terminal writes carry the owner of the
  attempt they finish, and \<open>update_task\<close> writes neither its status nor its owner (progress reports
  and output updates are admitted).
\<close>

fun owner_guarded :: "nat \<Rightarrow> queue_op \<Rightarrow> bool" where
  "owner_guarded tid (OpUpdate t u schema) \<longleftrightarrow> t \<noteq> tid \<or> (u_status u = None \<and> u_owner_id u = None)"
| "owner_guarded tid (OpComplete t fin out own created) \<longleftrightarrow> t \<noteq> tid \<or> own \<noteq> None"
| "owner_guarded tid (OpFail now t fin msg retry own created) \<longleftrightarrow> t \<noteq> tid \<or> own \<noteq> None"
| "owner_guarded tid (OpDeadLetter t fin msg own created) \<longleftrightarrow> t \<noteq> tid \<or> own \<noteq> None"
| "owner_guarded tid _ \<longleftrightarrow> True"

definition finished :: "nat \<Rightarrow> time option \<Rightarrow> task_row \<Rightarrow> bool" where
  "finished tid fin r \<longleftrightarrow> task_id r = tid \<and> status r = COMPLETED \<and> owner_id r = None \<and> finished_at r = fin"

lemma finished_row_effect:
  assumes "unique_ids tbl" "r \<in> set tbl" "finished tid fin r" "owner_guarded tid op"
  shows "finished tid fin (row_effect cap op tbl r)"
proof (cases op)
  case (OpClaimNext c held)
  then show ?thesis using assms claim_next_selected [of tbl r c held]
    by (auto simp: finished_def pending_visible_def split: option.splits)
next
  case (OpClaimBatch c n held)
  then show ?thesis using assms batch_locked_pending(2) [of r cap c n held tbl]
    by (auto simp: batch_selected finished_def)
next
  case (OpRequeueType text_of tt since limit reset m)
  then show ?thesis using assms requeue_victims_requeueable(2) [of r text_of tt since limit m tbl]
    by (auto simp: victim_selected requeueable_def finished_def)
next
  case (OpCleanup cats grace now_py now)
  then show ?thesis using assms by (auto simp: finished_def split: option.splits)
next
  case (OpUpdate t u schema)
  then show ?thesis using assms by (auto simp: finished_def apply_update_def set_or_def)
qed (use assms in \<open>auto simp: finished_def write_guard_def execution_claimable_def requeueable_def stuck_def\<close>)

interpretation final: queue_invariant cap "owner_guarded tid"
    "\<lambda>tbl. \<exists>r. row_at tid tbl = Some r \<and> finished tid fin r"
  for cap tid fin
proof (unfold_locales, elim exE conjE)
  fix tbl op r
  assume u: "unique_ids tbl" and r: "row_at tid tbl = Some r" "finished tid fin r"
    and op: "owner_guarded tid op"
  then have "finished tid fin (row_effect cap op tbl r)"
    using finished_row_effect row_at_SomeD by blast
  then show "\<exists>r'. row_at tid (exec_op cap op tbl) = Some r' \<and> finished tid fin r'"
    using row_at_exec_op [OF r(1)] by simp
qed

text \<open>
  C6. A completed task stays completed under the ownership protocol.  Once a worker's guarded write
  has completed its task, every run leaves its status, owner and completion time alone, provided that
  no terminal write on that task comes without an owner and no \<open>update_task\<close> on it sets a status or an
  owner: no late guarded worker, container, takeover, reaper, requeue or cleanup revives it.  The two
  provisos are needed (\<open>unguarded_fail_revives\<close>, \<open>status_update_revives\<close>).
\<close>

theorem completed_is_final:
  assumes "unique_ids tbl" "row_at tid tbl = Some r" "owner_id r = Some a"
    "queue_run cap (owner_guarded tid) (snd (complete_task tid fin out (Some a) None tbl)) tbl'"
  shows "\<exists>r'. row_at tid tbl' = Some r' \<and> finished tid (Some fin) r'"
proof -
  let ?t = "snd (complete_task tid fin out (Some a) None tbl)"
  have u: "unique_ids ?t"
    using assms(1) by (simp add: complete_task_def Let_def unique_sql_update)
  have "row_at tid ?t = Some (complete_set fin out r)"
    using assms(2,3) row_at_SomeD [OF assms(2)]
    by (simp add: complete_task_def Let_def row_at_sql_update write_guard_def)
  moreover have "finished tid (Some fin) (complete_set fin out r)"
    using row_at_SomeD [OF assms(2)] by (simp add: finished_def complete_set_def)
  ultimately show ?thesis using final.along [OF assms(4) u] by blast
qed

theorem completed_is_final_witness:
  "\<exists>r'. row_at 7 (exec_op 5 (OpFail 900 7 900 ''late'' True (Some ''w1'') None)
       (snd (complete_task 7 800 None (Some ''w1'') None [sample_row]))) = Some r' \<and>
     finished 7 (Some 800) r'"
proof (rule completed_is_final [where tbl = "[sample_row]" and r = sample_row and a = "''w1''" and cap = 5])
  show "queue_run 5 (owner_guarded 7) (snd (complete_task 7 800 None (Some ''w1'') None [sample_row]))
      (exec_op 5 (OpFail 900 7 900 ''late'' True (Some ''w1'') None)
         (snd (complete_task 7 800 None (Some ''w1'') None [sample_row])))"
    by (rule queue_run_one) simp_all
qed (simp_all add: unique_ids_def)

text \<open>
  Without the owner guard a late failure report revives a finished task: \<open>fail_task\<close> has no
  status guard, so the call of the background runners, which passes no owner, puts a completed task
  with retries left back into the queue.
\<close>

theorem unguarded_fail_revives:
  assumes "row_at tid tbl = Some r" "status r = COMPLETED" "retries_remain cap r"
  shows "\<exists>r'. row_at tid (snd (fail_task cap now tid fin msg True None None tbl)) = Some r' \<and>
           status r' = PENDING \<and> retry_count r' = retry_count r + 1"
  using assms row_at_SomeD [OF assms(1)]
  by (simp add: fail_task_def Let_def row_at_sql_update write_guard_def retry_set_def)

theorem unguarded_fail_revives_witness:
  "\<exists>r'. row_at 7 (snd (fail_task 5 900 7 900 ''late'' True None None
       [sample_row\<lparr>status := COMPLETED\<rparr>])) = Some r' \<and> status r' = PENDING \<and> retry_count r' = 0 + 1"
  using unguarded_fail_revives [of 7 "[sample_row\<lparr>status := COMPLETED\<rparr>]"
      "sample_row\<lparr>status := COMPLETED\<rparr>" 5 900 900 "''late''"]
  by (simp add: retries_remain_def)

text \<open>
  \<open>update_task\<close> has no status guard either: a progress report that also sets \<open>RUNNING\<close>, as the task
  reporters send it when a run starts, reopens a completed task.
\<close>

lemma status_update_revives:
  assumes "row_at tid tbl = Some r" "status r = COMPLETED" "catalog_id r = schema" "u_status u = Some RUNNING"
  shows "\<exists>r'. row_at tid (snd (update_task tid u schema tbl)) = Some r' \<and> status r' = RUNNING"
proof -
  have "row_at tid (exec_op 0 (OpUpdate tid u schema) tbl) = Some (row_effect 0 (OpUpdate tid u schema) tbl r)"
    by (rule row_at_exec_op [OF assms(1)])
  then show ?thesis using assms row_at_SomeD [OF assms(1)] by (simp add: apply_update_def set_or_def)
qed

section \<open>The retry budget\<close>

text \<open>
  Rows that are queued or in progress have a retry count below the hard cap, the condition under
  which \<open>claim_batch\<close> sees them.  Direct column updates may not set a retry count or a live status;
  the bulk requeue is admitted with its counter reset only.
\<close>

definition in_flight :: "task_row \<Rightarrow> bool" where
  "in_flight r \<longleftrightarrow> status r \<in> {CREATED, PENDING, ACTIVE, RUNNING}"

fun budget_safe :: "queue_op \<Rightarrow> bool" where
  "budget_safe (OpUpdate t u schema) \<longleftrightarrow>
     u_retry_count u = None \<and> (case u_status u of None \<Rightarrow> True | Some s \<Rightarrow> s \<notin> {CREATED, PENDING, ACTIVE, RUNNING})"
| "budget_safe (OpRequeueType text_of tt since limit reset m) \<longleftrightarrow> reset"
| "budget_safe _ \<longleftrightarrow> True"

definition within_cap :: "nat \<Rightarrow> task_row \<Rightarrow> bool" where
  "within_cap cap r \<longleftrightarrow> (in_flight r \<longrightarrow> retry_count r < cap)"

lemma within_cap_row_effect:
  assumes "unique_ids tbl" "r \<in> set tbl" "within_cap cap r" "budget_safe op" "0 < cap"
  shows "within_cap cap (row_effect cap op tbl r)"
proof (cases op)
  case (OpUpdate t u schema)
  then show ?thesis using assms
    by (auto simp: within_cap_def in_flight_def apply_update_def set_or_def split: option.splits)
next
  case (OpClaimNext c held)
  then show ?thesis using assms claim_next_selected [of tbl r c held]
    by (auto simp: within_cap_def in_flight_def pending_visible_def claim_set_def split: option.splits)
next
  case (OpClaimBatch c n held)
  then show ?thesis using assms batch_locked_pending(2) [of r cap c n held tbl]
    by (auto simp: batch_selected within_cap_def in_flight_def batch_set_def claim_set_def)
next
  case (OpCleanup cats grace now_py now)
  then show ?thesis using assms by (auto simp: within_cap_def in_flight_def split: option.splits)
next
  case (OpClaimExecution t schema own vis now_py now)
  then show ?thesis using assms
    by (cases "status r") (auto simp: within_cap_def in_flight_def execution_claimable_def execution_set_def)
qed (use assms in \<open>auto simp: within_cap_def in_flight_def complete_set_def retry_set_def fail_set_def
      dead_letter_set_def heartbeat_set_def execution_claimable_def execution_set_def reap_set_def
      requeue_set_def retries_remain_def Let_def stuck_def\<close>)

lemma within_cap_inserted: "0 < cap \<Longrightarrow> r \<in> set (inserted op tbl) \<Longrightarrow> within_cap cap r"
  by (auto dest!: inserted_cases simp: within_cap_def create_row_def enqueue_row_def default_row_def)

interpretation budget: queue_invariant "Suc cap" budget_safe "\<lambda>tbl. \<forall>r \<in> set tbl. within_cap (Suc cap) r"
  for cap
proof unfold_locales
  fix tbl op
  assume a: "unique_ids tbl" "\<forall>r \<in> set tbl. within_cap (Suc cap) r" "budget_safe op" "fresh_op op tbl"
  show "\<forall>r \<in> set (exec_op (Suc cap) op tbl). within_cap (Suc cap) r"
  proof
    fix r
    assume "r \<in> set (exec_op (Suc cap) op tbl)"
    then consider r0 where "r0 \<in> set tbl" "r = row_effect (Suc cap) op tbl r0" | "r \<in> set (inserted op tbl)"
      by (auto simp: exec_op_effect)
    then show "within_cap (Suc cap) r"
      using a within_cap_row_effect [of tbl _ "Suc cap" op] within_cap_inserted [of "Suc cap" r op tbl]
      by cases auto
  qed
qed

text \<open>
  C9. A queued task stays below the dispatcher's cap.  From an empty table, along every run of the
  queue's operations with a fixed positive cap that contains no bulk requeue without a counter reset
  and no \<open>update_task\<close> that writes a retry count or one of the statuses \<open>CREATED\<close>, \<open>PENDING\<close>, \<open>ACTIVE\<close>
  and \<open>RUNNING\<close>, a pending task has a retry count below the cap, so the circuit breaker of
  \<open>claim_batch\<close> does not hide it.
\<close>

theorem pending_claimable:
  assumes "0 < cap" "queue_run cap budget_safe [] tbl" "r \<in> set tbl" "status r = PENDING"
  shows "retry_count r < cap"
proof -
  obtain k where k: "cap = Suc k" using assms(1) by (cases cap) auto
  have "within_cap (Suc k) r"
    using budget.along [OF assms(2) [unfolded k]] assms(3) by (auto simp: unique_ids_def)
  then show ?thesis using assms(4) k by (simp add: within_cap_def in_flight_def)
qed

text \<open>
  The operations by which the dispatchers' loop moves queued work: \<open>claim_batch\<close>, heartbeats, the
  reaper, and inserts.  The claims that do not read the cap are not among them: \<open>claim_next\<close> and the
  claim by id of a job container (\<open>claim_for_execution\<close>) could still take such a row.
\<close>

fun dispatch_loop :: "queue_op \<Rightarrow> bool" where
  "dispatch_loop (OpClaimBatch c n held) \<longleftrightarrow> True"
| "dispatch_loop (OpReap schema now held) \<longleftrightarrow> True"
| "dispatch_loop (OpHeartbeats tasks vis now_py now) \<longleftrightarrow> True"
| "dispatch_loop (OpCreate env now tid created c schema st own lock) \<longleftrightarrow> True"
| "dispatch_loop (OpEnqueue env tid created c schema key mode scp) \<longleftrightarrow> True"
| "dispatch_loop _ \<longleftrightarrow> False"

lemma batch_locked_eligible:
  assumes "unique_ids tbl" "r \<in> set (batch_locked cap c n held tbl)"
  shows "batch_eligible cap c r"
proof -
  from assms(2) have r: "r \<in> set tbl" "row_key r \<in> row_key ` set (batch_candidates cap c tbl)"
    by (auto simp: batch_locked_def dest!: in_set_takeD)
  then obtain x where x: "x \<in> set (batch_candidates cap c tbl)" "row_key x = row_key r" by auto
  then have "x \<in> set (filter (batch_eligible cap c) tbl)"
    unfolding batch_candidates_def using distinct_on_subset by fastforce
  with x r show ?thesis using row_key_inj [OF assms(1), of x r] by auto
qed

lemma over_cap_row_effect:
  assumes "unique_ids tbl" "r \<in> set tbl" "status r = PENDING" "cap \<le> retry_count r" "dispatch_loop op"
  shows "row_effect cap op tbl r = r"
  using assms batch_locked_eligible [of tbl r cap]
  by (cases op) (auto simp: batch_selected batch_eligible_def stuck_def)

interpretation stranded: queue_invariant cap dispatch_loop
    "\<lambda>tbl. row_at tid tbl = Some r \<and> status r = PENDING \<and> cap \<le> retry_count r"
  for cap tid r
proof (unfold_locales, elim conjE)
  fix tbl op
  assume "unique_ids tbl" "dispatch_loop op" "row_at tid tbl = Some r" "status r = PENDING" "cap \<le> retry_count r"
  then show "row_at tid (exec_op cap op tbl) = Some r \<and> status r = PENDING \<and> cap \<le> retry_count r"
    using row_at_exec_op [of tid tbl r cap op] over_cap_row_effect [of tbl r cap op] row_at_SomeD [of tid tbl r]
    by simp
qed

lemma one_dict_filter: "x \<in> set xs \<Longrightarrow> p x \<Longrightarrow> \<exists>y. one_dict (filter p xs) = Some y"
  by (cases "filter p xs") (auto simp: filter_empty_conv)

lemma all_victims:
  assumes "r \<in> set tbl" "requeueable r" "task_type r = tt" "length tbl \<le> limit"
  shows "r \<in> set (requeue_victims text_of tt None limit [] tbl)"
proof -
  let ?ys = "filter (\<lambda>r. requeueable r \<and> task_type r = tt) tbl"
  have "length ?ys \<le> limit" using assms(4) length_filter_le [of _ tbl] le_trans by blast
  then show ?thesis using assms by (simp add: requeue_victims_def)
qed

text \<open>
  C38. The bulk requeue hides tasks from the dispatcher.  For a dead task at the hard cap the single
  requeue without a reset refuses and reports it; the bulk requeue of the same task type has no such
  guard.  It makes the task pending, and no run of \<open>claim_batch\<close> polls, heartbeats, reaper passes and
  inserts changes its row from then on.
\<close>

theorem bulk_requeue_strands:
  assumes "unique_ids tbl" "row_at tid tbl = Some r" "requeueable r" "cap \<le> retry_count r"
    "length tbl \<le> limit"
    "queue_run cap dispatch_loop
       (snd (requeue_dead_letter_tasks_by_type text_of (task_type r) None limit False [] tbl)) tbl'"
  shows "fst (requeue_dead_letter_task cap tid False None None tbl) = UnclaimableRequeueError \<and>
    row_at tid tbl' = Some (requeue_set False r) \<and> status (requeue_set False r) = PENDING"
proof -
  let ?t = "snd (requeue_dead_letter_tasks_by_type text_of (task_type r) None limit False [] tbl)"
  have r: "r \<in> set tbl" "task_id r = tid" using row_at_SomeD [OF assms(2)] by auto
  have same: "r' = r" if "r' \<in> set tbl" "task_id r' = tid" for r'
    using unique_ids_inj [OF assms(1) that(1) r(1)] that(2) r(2) by simp
  have none: "filter (\<lambda>r. task_id r = tid \<and> requeueable r \<and> retry_count r < cap) tbl = []"
    using same assms(4) by (auto simp: filter_empty_conv)
  obtain x where x: "one_dict (filter (\<lambda>r. task_id r = tid \<and> requeueable r) tbl) = Some x"
    using one_dict_filter [of r tbl "\<lambda>r. task_id r = tid \<and> requeueable r"] r assms(3) by auto
  then have "x = r" using same one_dict_SomeD [OF x] by auto
  then have err: "fst (requeue_dead_letter_task cap tid False None None tbl) = UnclaimableRequeueError"
    using none x assms(4) by (simp add: requeue_dead_letter_task_def Let_def in_listing_scope_def)
  have u: "unique_ids ?t"
    using assms(1) by (simp add: requeue_dead_letter_tasks_by_type_def Let_def unique_sql_update)
  have "row_at tid ?t = Some (requeue_set False r)"
    using all_victims [OF r(1) assms(3) refl assms(5)] assms(2)
    by (simp add: requeue_dead_letter_tasks_by_type_def Let_def row_at_sql_update)
  then have "row_at tid tbl' = Some (requeue_set False r)"
    using stranded.along [OF assms(6) u] assms(4) by (simp add: requeue_set_def)
  then show ?thesis using err by (simp add: requeue_set_def)
qed

text \<open>A sample request and environment.\<close>

definition sample_env :: task_env where
  "sample_env = \<lparr>task_kinds = (\<lambda>_. None), default_title = JStr ''Task'', correlation_id = None\<rparr>"

definition sample_task :: task_create where
  "sample_task = \<lparr>c_caller_id = None, c_task_type = ''ingest'', c_type = ''task'', c_inputs = None,
     c_collection_id = None, c_title = None, c_execution_mode = ''ASYNCHRONOUS'',
     c_scope = ''CATALOG'', c_max_retries = None, c_dedup_key = Some ''k''\<rparr>"

theorem pending_claimable_witness:
  "retry_count (hd (exec_op 5 (OpEnqueue sample_env 1 10 sample_task ''c1'' None ''ASYNCHRONOUS'' ''CATALOG'') [])) < 5"
proof (rule pending_claimable)
  show "queue_run 5 budget_safe []
      (exec_op 5 (OpEnqueue sample_env 1 10 sample_task ''c1'' None ''ASYNCHRONOUS'' ''CATALOG'') [])"
    by (rule queue_run_one) simp_all
qed (simp_all add: enqueue_def enqueue_row_def default_row_def Let_def)

definition dead_row :: task_row where
  "dead_row = sample_row\<lparr>status := DEAD_LETTER, retry_count := 5, owner_id := None, locked_until := None\<rparr>"

theorem bulk_requeue_strands_witness:
  "fst (requeue_dead_letter_task 5 7 False None None [dead_row]) = UnclaimableRequeueError \<and>
   row_at 7 (exec_op 5 (OpReap ''tasks'' 5000 (\<lambda>_. False))
     (snd (requeue_dead_letter_tasks_by_type (\<lambda>_ _. None) ''ingest'' None 1000 False [] [dead_row]))) =
     Some (requeue_set False dead_row) \<and> status (requeue_set False dead_row) = PENDING"
proof -
  have "queue_run 5 dispatch_loop
      (snd (requeue_dead_letter_tasks_by_type (\<lambda>_ _. None) (task_type dead_row) None 1000 False [] [dead_row]))
      (exec_op 5 (OpReap ''tasks'' 5000 (\<lambda>_. False))
        (snd (requeue_dead_letter_tasks_by_type (\<lambda>_ _. None) (task_type dead_row) None 1000 False [] [dead_row])))"
    by (rule queue_run_one) simp_all
  then show ?thesis
    using bulk_requeue_strands [of "[dead_row]" 7 dead_row 5 1000 "\<lambda>_ _. None"]
    by (simp add: dead_row_def unique_ids_def requeueable_def)
qed

section \<open>Attempts until the dead-letter queue\<close>

text \<open>A run given by the list of its operations, whose inserts use fresh ids.\<close>

fun run_list :: "nat \<Rightarrow> queue_op list \<Rightarrow> table \<Rightarrow> table" where
  "run_list cap [] tbl = tbl"
| "run_list cap (op # ops) tbl = run_list cap ops (exec_op cap op tbl)"

fun fresh_list :: "nat \<Rightarrow> queue_op list \<Rightarrow> table \<Rightarrow> bool" where
  "fresh_list cap [] tbl \<longleftrightarrow> True"
| "fresh_list cap (op # ops) tbl \<longleftrightarrow> fresh_op op tbl \<and> fresh_list cap ops (exec_op cap op tbl)"

text \<open>
  A task whose attempts never succeed: on it there is no completion, no failure report that forbids
  the retry or lacks the owner, no dead-lettering, requeue, release or orphan sweep, and no direct
  update of its status, owner or retry count.  Every claim, renewal, takeover, progress report,
  guarded failure report and reaper pass is admitted, and every operation on other tasks.
\<close>

fun keeps_failing :: "nat \<Rightarrow> queue_op \<Rightarrow> bool" where
  "keeps_failing tid (OpUpdate t u schema) \<longleftrightarrow>
     t \<noteq> tid \<or> (u_status u = None \<and> u_owner_id u = None \<and> u_retry_count u = None)"
| "keeps_failing tid (OpComplete t fin out own created) \<longleftrightarrow> t \<noteq> tid"
| "keeps_failing tid (OpFail now t fin msg retry own created) \<longleftrightarrow> t \<noteq> tid \<or> (retry \<and> own \<noteq> None)"
| "keeps_failing tid (OpDeadLetter t fin msg own created) \<longleftrightarrow> t \<noteq> tid"
| "keeps_failing tid (OpReset t backoff now_py) \<longleftrightarrow> t \<noteq> tid"
| "keeps_failing tid (OpCleanup cats grace now_py now) \<longleftrightarrow> cats = None"
| "keeps_failing tid (OpRequeue t reset cat coll) \<longleftrightarrow> t \<noteq> tid"
| "keeps_failing tid (OpRequeueType text_of tt since limit reset m) \<longleftrightarrow> False"
| "keeps_failing tid _ \<longleftrightarrow> True"

definition is_active :: "nat \<Rightarrow> table \<Rightarrow> bool" where
  "is_active tid tbl \<longleftrightarrow> (case row_at tid tbl of None \<Rightarrow> False | Some r \<Rightarrow> status r = ACTIVE)"

text \<open>The attempts that ended in a run: the steps at which the task stops being active.\<close>

fun attempts_ended :: "nat \<Rightarrow> nat \<Rightarrow> queue_op list \<Rightarrow> table \<Rightarrow> nat" where
  "attempts_ended cap tid [] tbl = 0"
| "attempts_ended cap tid (op # ops) tbl =
     (if is_active tid tbl \<and> \<not> is_active tid (exec_op cap op tbl) then 1 else 0) +
     attempts_ended cap tid ops (exec_op cap op tbl)"

definition attempt_budget :: "nat \<Rightarrow> task_row \<Rightarrow> nat" where
  "attempt_budget cap r = max 1 (min (max_retries r) cap)"

definition trying :: "nat \<Rightarrow> nat \<Rightarrow> nat \<Rightarrow> nat \<Rightarrow> task_row \<Rightarrow> bool" where
  "trying cap tid b n r \<longleftrightarrow> task_id r = tid \<and> attempt_budget cap r = b \<and>
     (if n < b then retry_count r = n \<and> (status r = ACTIVE \<or> status r = PENDING \<and> owner_id r = None)
      else n = b \<and> status r = DEAD_LETTER \<and> b \<le> retry_count r)"

lemma max_retries_row_effect [simp]: "max_retries (row_effect cap op tbl r) = max_retries r"
  by (cases op) (auto simp: claim_set_def batch_set_def complete_set_def retry_set_def fail_set_def
      dead_letter_set_def heartbeat_set_def execution_set_def reap_set_def requeue_set_def
      apply_update_def Let_def split: option.splits)

lemma retries_remain_budget: "retries_remain cap r \<longleftrightarrow> Suc (retry_count r) < attempt_budget cap r"
  by (auto simp: retries_remain_def attempt_budget_def)

text \<open>
  Such an operation either keeps the row's count, leaving it as it was or making it active, or spends
  one attempt: a failure report or a reaper pass that reaches the row.
\<close>

definition kept :: "task_row \<Rightarrow> task_row \<Rightarrow> bool" where
  "kept r r' \<longleftrightarrow> retry_count r' = retry_count r \<and>
     (status r' = status r \<and> owner_id r' = owner_id r \<or> status r \<in> {PENDING, ACTIVE} \<and> status r' = ACTIVE)"

definition spent :: "nat \<Rightarrow> task_row \<Rightarrow> task_row \<Rightarrow> bool" where
  "spent cap r r' \<longleftrightarrow> retry_count r' = Suc (retry_count r) \<and> (status r = ACTIVE \<or> owner_id r \<noteq> None) \<and>
     (if retries_remain cap r then status r' = PENDING \<and> owner_id r' = None else status r' = DEAD_LETTER)"

lemma kept_refl [simp]: "kept r r" by (simp add: kept_def)

definition queued_or_dead :: "task_row \<Rightarrow> bool" where
  "queued_or_dead r \<longleftrightarrow> status r \<in> {PENDING, ACTIVE, DEAD_LETTER}"

lemma failing_fail:
  assumes "task_id r = tid" "keeps_failing tid (OpFail now t fin msg retry own created)"
  shows "kept r (row_effect cap (OpFail now t fin msg retry own created) tbl r) \<or>
         spent cap r (row_effect cap (OpFail now t fin msg retry own created) tbl r)"
proof (cases "write_guard t created own r")
  case True
  then have "t = tid" using assms(1) by (simp add: write_guard_def)
  with assms(2) obtain w where w: "retry" "own = Some w" by auto
  with True have "owner_id r = Some w" by (simp add: write_guard_def)
  then show ?thesis using True w by (simp add: spent_def retry_set_def)
qed simp

lemma failing_reap:
  assumes "queued_or_dead r"
  shows "kept r (row_effect cap (OpReap schema now held) tbl r) \<or>
         spent cap r (row_effect cap (OpReap schema now held) tbl r)"
proof (cases "stuck now r \<and> \<not> held r")
  case True
  then have "status r = ACTIVE" using assms by (auto simp: stuck_def queued_or_dead_def)
  then show ?thesis using True by (auto simp: spent_def reap_set_def retries_remain_def Let_def)
qed auto

lemma failing_claims:
  assumes "unique_ids tbl" "r \<in> set tbl" "queued_or_dead r"
  shows "kept r (row_effect cap (OpClaimNext c held) tbl r)"
    and "kept r (row_effect cap (OpClaimBatch c n held) tbl r)"
    and "kept r (row_effect cap (OpClaimExecution t schema own vis now_py now) tbl r)"
    and "kept r (row_effect cap (OpClaimDispatch t own until pre prior now) tbl r)"
proof -
  show "kept r (row_effect cap (OpClaimNext c held) tbl r)"
    using assms claim_next_selected [of tbl r c held]
    by (auto simp: kept_def pending_visible_def claim_set_def split: option.splits)
  show "kept r (row_effect cap (OpClaimBatch c n held) tbl r)"
    using assms batch_locked_pending(2) [of r cap c n held tbl]
    by (simp add: kept_def batch_selected batch_set_def claim_set_def)
  show "kept r (row_effect cap (OpClaimExecution t schema own vis now_py now) tbl r)"
    using assms(3) by (auto simp: kept_def execution_claimable_def execution_set_def queued_or_dead_def)
  show "kept r (row_effect cap (OpClaimDispatch t own until pre prior now) tbl r)"
    by (simp add: kept_def)
qed

lemma failing_effect:
  assumes "unique_ids tbl" "r \<in> set tbl" "task_id r = tid" "queued_or_dead r" "keeps_failing tid op"
  shows "kept r (row_effect cap op tbl r) \<or> spent cap r (row_effect cap op tbl r)"
proof (cases op)
  case (OpFail now t fin msg retry own created)
  then show ?thesis using failing_fail [of r tid] assms(3,5) by simp
next
  case (OpReap schema now held)
  then show ?thesis using failing_reap [OF assms(4)] by simp
next
  case (OpUpdate t u schema)
  then show ?thesis using assms(3,5) by (simp add: kept_def apply_update_def set_or_def)
next
  case (OpRequeueType text_of tt since limit reset m)
  then show ?thesis using assms(5) by simp
qed (use assms(3,5) failing_claims [OF assms(1,2,4)] in
      \<open>simp_all add: kept_def write_guard_def heartbeat_set_def\<close>)

lemma trying_row_effect:
  assumes "unique_ids tbl" "r \<in> set tbl" "trying cap tid b n r" "keeps_failing tid op"
  shows "trying cap tid b (if status r = ACTIVE \<and> status (row_effect cap op tbl r) \<noteq> ACTIVE then Suc n else n)
           (row_effect cap op tbl r)"
proof -
  define r' where "r' = row_effect cap op tbl r"
  have id: "task_id r' = task_id r" "attempt_budget cap r' = attempt_budget cap r"
    by (simp_all add: r'_def attempt_budget_def)
  have t: "task_id r = tid" "attempt_budget cap r = b" using assms(3) by (simp_all add: trying_def)
  have "queued_or_dead r" using assms(3) by (auto simp: trying_def queued_or_dead_def split: if_splits)
  from failing_effect [OF assms(1,2) t(1) this assms(4), of cap]
  consider "kept r r'" | "spent cap r r'" by (auto simp: r'_def)
  then have "trying cap tid b (if status r = ACTIVE \<and> status r' \<noteq> ACTIVE then Suc n else n) r'"
  proof cases
    case 1
    then show ?thesis using assms(3) id t by (auto simp: trying_def kept_def split: if_splits)
  next
    case 2
    then show ?thesis using assms(3) id t
      by (auto simp: trying_def spent_def retries_remain_budget split: if_splits)
  qed
  then show ?thesis by (simp add: r'_def)
qed

text \<open>
  C8. The retry budget is exact.  Take a fresh pending task and any run in which none of its
  attempts succeeds: attempts start by whichever claim takes the task and end by a retrying failure
  report of their owner or by the reaper, with any interleaving of other operations.  Until
  \<open>max 1 (min max_retries cap)\<close> attempts have ended the task is queued or running and its retry count
  is their number; then it is in the dead-letter queue, and no further attempt starts.
\<close>

theorem retry_budget_exact:
  assumes "unique_ids tbl" "row_at tid tbl = Some r" "status r = PENDING" "owner_id r = None" "retry_count r = 0"
    "\<forall>op \<in> set ops. keeps_failing tid op" "fresh_list cap ops tbl"
  shows "\<exists>r'. row_at tid (run_list cap ops tbl) = Some r' \<and>
    attempts_ended cap tid ops tbl \<le> max 1 (min (max_retries r) cap) \<and>
    (if attempts_ended cap tid ops tbl < max 1 (min (max_retries r) cap)
     then status r' \<in> {PENDING, ACTIVE} \<and> retry_count r' = attempts_ended cap tid ops tbl
     else status r' = DEAD_LETTER)"
proof -
  have along: "\<exists>r'. row_at tid (run_list cap ops t) = Some r' \<and>
      trying cap tid b (n + attempts_ended cap tid ops t) r'"
    if "unique_ids t" "row_at tid t = Some x" "trying cap tid b n x" "\<forall>op \<in> set ops. keeps_failing tid op"
      "fresh_list cap ops t" for t x n b
    using that
  proof (induction ops arbitrary: t x n)
    case (Cons op ops)
    let ?t = "exec_op cap op t" and ?x = "row_effect cap op t x"
    have at: "row_at tid ?t = Some ?x" by (rule row_at_exec_op [OF Cons.prems(2)])
    have x: "x \<in> set t" using row_at_SomeD [OF Cons.prems(2)] by simp
    have "trying cap tid b (if status x = ACTIVE \<and> status ?x \<noteq> ACTIVE then Suc n else n) ?x"
      using trying_row_effect [OF Cons.prems(1) x Cons.prems(3)] Cons.prems(4) by simp
    from Cons.IH [OF _ at this] Cons.prems show ?case
      using at unique_exec_op [of t op cap] by (auto simp: is_active_def)
  qed auto
  have "trying cap tid (attempt_budget cap r) 0 r"
    using assms(2-5) row_at_SomeD [OF assms(2)] by (simp add: trying_def attempt_budget_def)
  from along [OF assms(1,2) this assms(6,7)] show ?thesis
    by (auto simp: trying_def attempt_budget_def split: if_splits)
qed

definition failing_run :: "queue_op list" where
  "failing_run =
     [OpClaimExecution 7 ''c1'' ''w1'' 300 200 200, OpFail 400 7 400 ''boom'' True (Some ''w1'') None,
      OpClaimExecution 7 ''c1'' ''w2'' 300 500 500, OpHeartbeats [(7, 100)] 300 600 600,
      OpReap ''tasks'' 5000000000 (\<lambda>_. False),
      OpClaimExecution 7 ''c1'' ''w3'' 300 6000 6000, OpFail 7000 7 7000 ''boom'' True (Some ''w3'') None]"

theorem retry_budget_exact_witness:
  "\<exists>r'. row_at 7 (run_list 5 failing_run [sample_row\<lparr>status := PENDING, owner_id := None, locked_until := None\<rparr>]) =
      Some r' \<and> status r' = DEAD_LETTER"
proof -
  let ?r = "sample_row\<lparr>status := PENDING, owner_id := None, locked_until := None\<rparr>"
  have n: "attempts_ended 5 7 failing_run [?r] = 3" by code_simp
  have "\<forall>op \<in> set failing_run. keeps_failing 7 op" "fresh_list 5 failing_run [?r]"
    by (simp_all add: failing_run_def)
  then show ?thesis
    using retry_budget_exact [of "[?r]" 7 ?r failing_run 5] unfolding n by (auto simp: unique_ids_def)
qed

section \<open>Fairness and progress of claims\<close>

lemma candidates_eligible: "x \<in> set (batch_candidates cap c tbl) \<Longrightarrow> x \<in> set tbl \<and> batch_eligible cap c x"
  unfolding batch_candidates_def using distinct_on_subset by fastforce

text \<open>Every tenant with an eligible row has a candidate, and it is the oldest.\<close>

lemma candidate_of_tenant:
  assumes "x \<in> set tbl" "batch_eligible cap c x"
  obtains y where "y \<in> set (batch_candidates cap c tbl)" "catalog_id y = catalog_id x"
    "\<And>z. z \<in> set tbl \<Longrightarrow> batch_eligible cap c z \<Longrightarrow> catalog_id z = catalog_id x \<Longrightarrow> timestamp y \<le> timestamp z"
proof -
  let ?s = "sort_key catalog_id (sort_key timestamp (filter (batch_eligible cap c) tbl))"
  obtain y where y: "y \<in> set (distinct_on catalog_id ?s)" "catalog_id y = catalog_id x"
    using distinct_on_complete [of x ?s catalog_id] assms by auto
  show ?thesis
  proof
    fix z
    assume "z \<in> set tbl" "batch_eligible cap c z" "catalog_id z = catalog_id x"
    then show "timestamp y \<le> timestamp z"
      using distinct_on_first [OF sort_key_groups y(1), of z] y(2) by auto
  qed (use y in \<open>auto simp: batch_candidates_def\<close>)
qed

lemma candidate_locked:
  assumes "unique_ids tbl" "length tbl \<le> n" "y \<in> set (batch_candidates cap c tbl)" "\<not> held y"
  shows "y \<in> set (batch_locked cap c n held tbl)"
proof -
  let ?f = "filter (\<lambda>r. row_key r \<in> row_key ` set (batch_candidates cap c tbl) \<and> status r = PENDING) tbl"
  have "length (filter (\<lambda>r. \<not> held r) (sort_key timestamp ?f)) \<le> n"
    using assms(2) length_filter_le [of "\<lambda>r. \<not> held r" "sort_key timestamp ?f"] length_filter_le [of _ tbl]
    by (metis (no_types, lifting) le_trans length_sort)
  moreover have "y \<in> set ?f"
    using candidates_eligible [OF assms(3)] assms(3) by (auto simp: batch_eligible_def pending_visible_def)
  ultimately show ?thesis using assms(4) by (simp add: batch_locked_def)
qed

lemma locked_candidate:
  assumes "unique_ids tbl" "r \<in> set (batch_locked cap c n held tbl)"
  shows "r \<in> set (batch_candidates cap c tbl)"
proof -
  from assms(2) have r: "r \<in> set tbl" "row_key r \<in> row_key ` set (batch_candidates cap c tbl)"
    by (auto simp: batch_locked_def dest!: in_set_takeD)
  then obtain x where "x \<in> set (batch_candidates cap c tbl)" "row_key x = row_key r" by auto
  with r show ?thesis using row_key_inj [OF assms(1), of x r] candidates_eligible by auto
qed

lemma distinct_batch_locked: "unique_ids tbl \<Longrightarrow> distinct (batch_locked cap c n held tbl)"
  by (auto simp: batch_locked_def unique_ids_def distinct_map intro!: distinct_take)

lemma locked_one_per_tenant:
  assumes "unique_ids tbl"
  shows "distinct (map catalog_id (batch_locked cap c n held tbl))"
proof -
  have "inj_on catalog_id (set (batch_candidates cap c tbl))"
    using distinct_on_distinct [of catalog_id] by (auto simp: batch_candidates_def distinct_map)
  then have "inj_on catalog_id (set (batch_locked cap c n held tbl))"
    by (rule inj_on_subset) (use locked_candidate [OF assms] in auto)
  with distinct_batch_locked [OF assms] show ?thesis by (simp add: distinct_map)
qed

text \<open>
  C18. Claims are fair between tenants.  One \<open>claim_batch\<close> takes at most one task of each tenant, and
  with a batch as large as the table and no rows held by others it takes, of every tenant that has
  an eligible task, one that is at least as old as all its eligible tasks.
\<close>

theorem claim_batch_fair:
  assumes "unique_ids tbl" "async_types c \<noteq> [] \<or> sync_types c \<noteq> []"
  shows "distinct (map (catalog_id \<circ> fst) (fst (claim_batch cap c n held tbl))) \<and>
    (length tbl \<le> n \<longrightarrow> (\<forall>x \<in> set tbl. batch_eligible cap c x \<longrightarrow>
       (\<exists>y e. (y, e) \<in> set (fst (claim_batch cap c n (\<lambda>_. False) tbl)) \<and> catalog_id y = catalog_id x \<and>
          (\<forall>z \<in> set tbl. batch_eligible cap c z \<and> catalog_id z = catalog_id x \<longrightarrow>
             timestamp y \<le> timestamp z))))"
proof (intro conjI impI ballI)
  have keep: "catalog_id (batch_set c r) = catalog_id r" "timestamp (batch_set c r) = timestamp r" for r
    by (simp_all add: batch_set_def claim_set_def)
  have res: "fst (claim_batch cap c n held tbl) =
      map (\<lambda>r. (batch_set c r, error_message r)) (batch_locked cap c n held tbl)" for held
    using assms(2) by (auto simp: claim_batch_def Let_def)
  show "distinct (map (catalog_id \<circ> fst) (fst (claim_batch cap c n held tbl)))"
    using locked_one_per_tenant [OF assms(1)] by (simp add: res o_def keep)
  fix x
  assume n: "length tbl \<le> n" and x: "x \<in> set tbl" "batch_eligible cap c x"
  obtain y where y: "y \<in> set (batch_candidates cap c tbl)" "catalog_id y = catalog_id x"
    "\<And>z. z \<in> set tbl \<Longrightarrow> batch_eligible cap c z \<Longrightarrow> catalog_id z = catalog_id x \<Longrightarrow> timestamp y \<le> timestamp z"
    by (rule candidate_of_tenant [OF x]) blast
  have "(batch_set c y, error_message y) \<in> set (fst (claim_batch cap c n (\<lambda>_. False) tbl))"
    using candidate_locked [OF assms(1) n y(1), of "\<lambda>_. False"] by (auto simp: res)
  then show "\<exists>y e. (y, e) \<in> set (fst (claim_batch cap c n (\<lambda>_. False) tbl)) \<and> catalog_id y = catalog_id x \<and>
      (\<forall>z \<in> set tbl. batch_eligible cap c z \<and> catalog_id z = catalog_id x \<longrightarrow> timestamp y \<le> timestamp z)"
    using y(2,3) by (auto simp: keep)
qed

text \<open>A configuration of a worker that handles ingestion tasks.\<close>

definition sample_cfg :: claim_cfg where
  "sample_cfg = \<lparr>async_types = [''ingest''], sync_types = [], visibility_timeout = 300,
     claimant = ''w2'', task_lookback = 5000, t0 = 2000, t1 = 2000, db_now = 2000\<rparr>"

theorem claim_batch_fair_witness:
  "\<exists>y e. (y, e) \<in> set (fst (claim_batch 5 sample_cfg 10 (\<lambda>_. False) [sample_row\<lparr>status := PENDING\<rparr>])) \<and>
     catalog_id y = ''c1''"
proof -
  have "async_types sample_cfg \<noteq> [] \<or> sync_types sample_cfg \<noteq> []" by (simp add: sample_cfg_def)
  moreover have "batch_eligible 5 sample_cfg (sample_row\<lparr>status := PENDING\<rparr>)"
    by (simp add: batch_eligible_def pending_visible_def mode_filter_def sample_cfg_def)
  ultimately show ?thesis
    using claim_batch_fair [of "[sample_row\<lparr>status := PENDING\<rparr>]" sample_cfg 5 10 "\<lambda>_. False"]
    by (auto simp: unique_ids_def)
qed

text \<open>An unlocked, non-empty batch reaches at least as far back as any eligible row.\<close>

lemma batch_reaches_oldest:
  assumes "x \<in> set tbl" "batch_eligible cap c x" "0 < n"
  obtains y where "y \<in> set (batch_locked cap c n (\<lambda>_. False) tbl)" "timestamp y \<le> timestamp x"
proof -
  let ?f = "sort_key timestamp
      (filter (\<lambda>r. row_key r \<in> row_key ` set (batch_candidates cap c tbl) \<and> status r = PENDING) tbl)"
  obtain z where z: "z \<in> set (batch_candidates cap c tbl)" "timestamp z \<le> timestamp x"
    using candidate_of_tenant [OF assms(1,2)] assms(1,2) by (metis (full_types))
  then have mem: "z \<in> set ?f"
    using candidates_eligible [OF z(1)] by (auto simp: batch_eligible_def pending_visible_def)
  then obtain y ys where ys: "?f = y # ys" by (cases ?f) auto
  have "sorted (map timestamp ?f)" by simp
  then have "timestamp y \<le> timestamp z" using mem unfolding ys by auto
  moreover have "y \<in> set (batch_locked cap c n (\<lambda>_. False) tbl)"
    using assms(3) ys by (cases n) (simp_all add: batch_locked_def)
  ultimately show ?thesis using that z(2) by force
qed

text \<open>
  A schedule seen by a waiting task.  The polls that count are those of dispatchers that could claim
  it, none of whose rows is held by another transaction.  Any other operation may happen in between,
  except those that take the waiting task out of the queue by naming it: \<open>update_task\<close>, \<open>set_runner_ref\<close>
  or \<open>persist_outputs\<close> on it, a terminal write on it without an owner guard, and the orphan sweep of
  its catalog.
\<close>

fun is_poll :: "nat \<Rightarrow> task_row \<Rightarrow> queue_op \<Rightarrow> bool" where
  "is_poll cap r (OpClaimBatch c n held) \<longleftrightarrow> 0 < n \<and> held = (\<lambda>_. False) \<and> batch_eligible cap c r"
| "is_poll cap r _ \<longleftrightarrow> False"

fun fair_op :: "task_row \<Rightarrow> queue_op \<Rightarrow> bool" where
  "fair_op r (OpUpdate t u schema) \<longleftrightarrow> t \<noteq> task_id r"
| "fair_op r (OpComplete t fin out own created) \<longleftrightarrow> t \<noteq> task_id r \<or> own \<noteq> None"
| "fair_op r (OpFail now t fin msg retry own created) \<longleftrightarrow> t \<noteq> task_id r \<or> own \<noteq> None"
| "fair_op r (OpDeadLetter t fin msg own created) \<longleftrightarrow> t \<noteq> task_id r \<or> own \<noteq> None"
| "fair_op r (OpRunnerRef t ref) \<longleftrightarrow> t \<noteq> task_id r"
| "fair_op r (OpPersist t out) \<longleftrightarrow> t \<noteq> task_id r"
| "fair_op r (OpCleanup cats grace now_py now) \<longleftrightarrow>
     (case cats of None \<Rightarrow> True | Some ids \<Rightarrow> catalog_id r \<in> set ids)"
| "fair_op r _ \<longleftrightarrow> True"

text \<open>The tasks ahead of a waiting task, itself included: the pending ones that are not younger.\<close>

definition ahead :: "task_row \<Rightarrow> table \<Rightarrow> nat" where
  "ahead r tbl = length (filter (\<lambda>x. status x = PENDING \<and> timestamp x \<le> timestamp r) tbl)"

text \<open>
  What a step puts back ahead of it: the pending rows, not younger, that were not pending before
  (failure reports with a retry, the reaper, requeues, releases, status updates), and inserted rows
  with an older creation time.
\<close>

definition put_back :: "task_row \<Rightarrow> table \<Rightarrow> table \<Rightarrow> nat" where
  "put_back r tbl tbl' = length (filter (\<lambda>x. status x = PENDING \<and> timestamp x \<le> timestamp r \<and>
     \<not> list_ex (\<lambda>y. task_id y = task_id x \<and> status y = PENDING) tbl) tbl')"

fun put_back_along :: "nat \<Rightarrow> task_row \<Rightarrow> queue_op list \<Rightarrow> table \<Rightarrow> nat" where
  "put_back_along cap r [] tbl = 0"
| "put_back_along cap r (op # ops) tbl =
     put_back r tbl (exec_op cap op tbl) + put_back_along cap r ops (exec_op cap op tbl)"

lemma length_filter_map_le:
  "(\<And>x. x \<in> set xs \<Longrightarrow> p (f x) \<Longrightarrow> q x) \<Longrightarrow> length (filter p (map f xs)) \<le> length (filter q xs)"
proof (induction xs)
  case (Cons x xs)
  then have "length (filter p (map f xs)) \<le> length (filter q xs)" by auto
  with Cons.prems [of x] show ?case by auto
qed simp

lemma length_filter_map_less:
  assumes "\<And>x. x \<in> set xs \<Longrightarrow> p (f x) \<Longrightarrow> p x" "y \<in> set xs" "p y" "\<not> p (f y)"
  shows "length (filter p (map f xs)) < length (filter p xs)"
  using assms
proof (induction xs)
  case (Cons x xs)
  have le: "length (filter p (map f xs)) \<le> length (filter p xs)"
    using Cons.prems(1) by (intro length_filter_map_le) auto
  show ?case
  proof (cases "y = x")
    case True
    with Cons.prems le show ?thesis by simp
  next
    case False
    then have "length (filter p (map f xs)) < length (filter p xs)"
      using Cons by auto
    with Cons.prems(1) [of x] show ?thesis by auto
  qed
qed simp

lemma ahead_poll:
  assumes "unique_ids tbl" "r \<in> set tbl" "batch_eligible cap c r" "0 < n"
  shows "ahead r (exec_op cap (OpClaimBatch c n (\<lambda>_. False)) tbl) < ahead r tbl"
proof -
  let ?op = "OpClaimBatch c n (\<lambda>_. False)"
  let ?p = "\<lambda>x. status x = PENDING \<and> timestamp x \<le> timestamp r"
  obtain y where y: "y \<in> set (batch_locked cap c n (\<lambda>_. False) tbl)" "timestamp y \<le> timestamp r"
    by (rule batch_reaches_oldest [OF assms(2,3,4)])
  have types: "async_types c \<noteq> [] \<or> sync_types c \<noteq> []"
    using assms(3) by (auto simp: batch_eligible_def pending_visible_def mode_filter_def)
  have "length (filter ?p (map (row_effect cap ?op tbl) tbl)) < length (filter ?p tbl)"
  proof (rule length_filter_map_less)
    show "y \<in> set tbl" "?p y" using batch_locked_pending [OF y(1)] y(2) by auto
    show "\<not> ?p (row_effect cap ?op tbl y)" using y(1) types by (simp add: batch_set_def claim_set_def)
  qed (auto simp: batch_set_def claim_set_def split: if_splits)
  then show ?thesis by (simp only: ahead_def exec_op_effect inserted.simps append_Nil2)
qed

lemma timestamp_row_effect [simp]: "timestamp (row_effect cap op tbl r) = timestamp r"
  by (cases op) (auto simp: claim_set_def batch_set_def complete_set_def retry_set_def fail_set_def
      dead_letter_set_def heartbeat_set_def execution_set_def reap_set_def requeue_set_def
      apply_update_def Let_def split: option.splits)

lemma length_filter_split:
  "length (filter p xs) = length (filter (\<lambda>x. p x \<and> q x) xs) + length (filter (\<lambda>x. p x \<and> \<not> q x) xs)"
  by (induction xs) auto

text \<open>A step lengthens the queue ahead by no more than what it puts back.\<close>

lemma ahead_step:
  assumes "unique_ids tbl" "fresh_op op tbl"
  shows "ahead r (exec_op cap op tbl) \<le> ahead r tbl + put_back r tbl (exec_op cap op tbl)"
proof -
  let ?p = "\<lambda>x. status x = PENDING \<and> timestamp x \<le> timestamp r"
  let ?q = "\<lambda>x. list_ex (\<lambda>y. task_id y = task_id x \<and> status y = PENDING) tbl"
  have new: "\<not> ?q x" if "x \<in> set (inserted op tbl)" for x
  proof
    assume "?q x"
    then obtain y where "y \<in> set tbl" "task_id y = task_id x" by (auto simp only: list_ex_iff)
    then have "task_id x \<in> task_id ` set tbl" by (metis imageI)
    with inserted_ids [OF assms(2)] that show False by blast
  qed
  then have "filter (\<lambda>x. ?p x \<and> ?q x) (inserted op tbl) = []"
    unfolding filter_empty_conv by blast
  then have "length (filter (\<lambda>x. ?p x \<and> ?q x) (exec_op cap op tbl)) =
      length (filter (\<lambda>x. ?p x \<and> ?q x) (map (row_effect cap op tbl) tbl))"
    by (simp add: exec_op_effect)
  also have "\<dots> \<le> length (filter ?p tbl)"
  proof (rule length_filter_map_le)
    fix x
    assume x: "x \<in> set tbl" "?p (row_effect cap op tbl x) \<and> ?q (row_effect cap op tbl x)"
    then obtain y where "y \<in> set tbl" "task_id y = task_id x" "status y = PENDING"
      by (auto simp: list_ex_iff)
    then show "?p x" using unique_ids_inj [OF assms(1) _ x(1), of y] x(2) by simp
  qed
  finally show ?thesis
    unfolding ahead_def put_back_def using length_filter_split [of ?p "exec_op cap op tbl" ?q] by simp
qed

text \<open>Until it is claimed, a waiting row is left as it is.\<close>

lemma waiting_row:
  assumes "unique_ids tbl" "r \<in> set tbl" "status r = PENDING" "owner_id r = None" "fair_op r op"
  shows "row_effect cap op tbl r = r \<or> status (row_effect cap op tbl r) = ACTIVE"
proof (cases op)
  case (OpClaimNext c held)
  then show ?thesis by (auto simp: claim_set_def split: option.splits)
next
  case (OpClaimBatch c n held)
  then show ?thesis by (simp add: batch_set_def claim_set_def)
next
  case (OpRequeueType text_of tt since limit reset m)
  then show ?thesis using assms(1-3) requeue_victims_requeueable(2) [of r text_of tt since limit m tbl]
    by (auto simp: victim_selected requeueable_def)
next
  case (OpCleanup cats grace now_py now)
  then show ?thesis using assms(5) by (cases cats) simp_all
next
  case (OpClaimExecution t schema own vis now_py now)
  then show ?thesis by (simp add: execution_set_def)
qed (use assms(3-5) in \<open>auto simp: write_guard_def stuck_def requeueable_def\<close>)

text \<open>
  C7. No task starves.  A pending task that the polling dispatchers can claim has been claimed by the
  time they have polled as often as there were pending tasks not younger than it, plus once for every
  such task that was put back into the queue in between (a retried failure, a reaped or requeued task).
  Later arrivals do not count, and all other operations may be interleaved, except that none may
  rewrite the waiting row itself: no \<open>update_task\<close>, \<open>set_runner_ref\<close> or \<open>persist_outputs\<close> on it, no
  terminal write on it without an owner, no orphan sweep that takes its catalog for deleted.  The
  polls that count find no candidate row locked by another transaction.
\<close>

theorem waiting_task_claimed:
  assumes "unique_ids tbl" "row_at tid tbl = Some r" "status r = PENDING" "owner_id r = None"
    "\<forall>op \<in> set ops. fair_op r op" "fresh_list cap ops tbl"
    "ahead r tbl + put_back_along cap r ops tbl \<le> length (filter (is_poll cap r) ops)"
  shows "\<exists>k r'. k \<le> length ops \<and> row_at tid (run_list cap (take k ops) tbl) = Some r' \<and> status r' = ACTIVE"
  using assms
proof (induction ops arbitrary: tbl)
  case Nil
  then have "r \<in> set (filter (\<lambda>x. status x = PENDING \<and> timestamp x \<le> timestamp r) tbl)"
    using row_at_SomeD [of tid tbl r] by auto
  then show ?case using Nil by (auto simp: ahead_def filter_empty_conv)
next
  case (Cons op ops)
  let ?t = "exec_op cap op tbl"
  have u: "unique_ids ?t" and f: "fresh_op op tbl" "fresh_list cap ops ?t"
    using Cons.prems by (auto intro: unique_exec_op)
  have r: "r \<in> set tbl" using row_at_SomeD [OF Cons.prems(2)] by simp
  have at: "row_at tid ?t = Some (row_effect cap op tbl r)" by (rule row_at_exec_op [OF Cons.prems(2)])
  from waiting_row [OF Cons.prems(1) r Cons.prems(3,4), of op cap] Cons.prems(5)
  consider "row_effect cap op tbl r = r" | "status (row_effect cap op tbl r) = ACTIVE" by auto
  then show ?case
  proof cases
    case 1
    have "ahead r ?t + put_back_along cap r ops ?t \<le> length (filter (is_poll cap r) ops)"
    proof (cases "is_poll cap r op")
      case True
      then obtain c n where "op = OpClaimBatch c n (\<lambda>_. False)" "0 < n" "batch_eligible cap c r"
        by (cases op) auto
      then have "ahead r ?t < ahead r tbl" using ahead_poll [OF Cons.prems(1) r, of cap c n] by simp
      with Cons.prems(7) True show ?thesis by simp
    next
      case False
      with Cons.prems(7) ahead_step [OF Cons.prems(1) f(1), of r cap] show ?thesis by simp
    qed
    then obtain k r' where "k \<le> length ops" "row_at tid (run_list cap (take k ops) ?t) = Some r'" "status r' = ACTIVE"
      using Cons.IH [of ?t] u f at 1 Cons.prems by auto
    then show ?thesis by (intro exI [of _ "Suc k"] exI [of _ r']) simp
  next
    case 2
    then show ?thesis using at by (intro exI [of _ "Suc 0"] exI [of _ "row_effect cap op tbl r"]) simp
  qed
qed

definition busy_run :: "queue_op list" where
  "busy_run =
     [OpEnqueue sample_env 8 150 sample_task ''c1'' None ''ASYNCHRONOUS'' ''CATALOG'',
      OpClaimBatch sample_cfg 1 (\<lambda>_. False),
      OpReset 6 None 2000,
      OpClaimBatch sample_cfg 1 (\<lambda>_. False),
      OpClaimBatch sample_cfg 1 (\<lambda>_. False)]"

definition waiting_row_7 :: task_row where
  "waiting_row_7 = sample_row\<lparr>status := PENDING, owner_id := None, locked_until := None\<rparr>"

definition older_row_6 :: task_row where
  "older_row_6 = waiting_row_7\<lparr>task_id := 6, timestamp := 90\<rparr>"

theorem waiting_task_claimed_witness:
  "\<exists>k r'. k \<le> 5 \<and> row_at 7 (run_list 5 (take k busy_run) [older_row_6, waiting_row_7]) = Some r' \<and>
     status r' = ACTIVE"
proof -
  let ?t = "[older_row_6, waiting_row_7]"
  have e: "batch_eligible 5 sample_cfg waiting_row_7" by code_simp
  then have "length (filter (is_poll 5 waiting_row_7) busy_run) = 3" by (simp add: busy_run_def)
  moreover have "ahead waiting_row_7 ?t + put_back_along 5 waiting_row_7 busy_run ?t = 3" by code_simp
  moreover have "fresh_list 5 busy_run ?t" by code_simp
  moreover have "\<forall>op \<in> set busy_run. fair_op waiting_row_7 op" by (simp add: busy_run_def)
  moreover have "length busy_run = 5" by (simp add: busy_run_def)
  moreover have "unique_ids ?t" by (simp add: unique_ids_def older_row_6_def waiting_row_7_def)
  moreover have "row_at 7 ?t = Some waiting_row_7" "status waiting_row_7 = PENDING" "owner_id waiting_row_7 = None"
    by (simp_all add: older_row_6_def waiting_row_7_def)
  ultimately show ?thesis using waiting_task_claimed [of ?t 7 waiting_row_7 busy_run 5] by simp
qed

section \<open>Deduplication\<close>

text \<open>
  At most one live row per tenant and key.  The invariant needs that finished rows cannot be
  revived by a guarded failure report: their owner column is empty, or no retries remain.
\<close>

definition dedup_unique :: "table \<Rightarrow> bool" where
  "dedup_unique tbl \<longleftrightarrow> (\<forall>r \<in> set tbl. \<forall>r' \<in> set tbl.
     dedup_live r \<and> dedup_live r' \<and> dedup_key r \<noteq> None \<and> dedup_key r = dedup_key r' \<and>
     catalog_id r = catalog_id r' \<longrightarrow> task_id r = task_id r')"



lemma dedup_keys_row_effect [simp]:
  "dedup_key (row_effect cap op tbl r) = dedup_key r" "catalog_id (row_effect cap op tbl r) = catalog_id r"
  by (cases op; auto simp: claim_set_def batch_set_def complete_set_def retry_set_def fail_set_def
      dead_letter_set_def heartbeat_set_def execution_set_def reap_set_def requeue_set_def
      apply_update_def Let_def split: option.splits)+











text \<open>
  A requeue does not look at the key: a dead task whose key has been taken by a newer live task is
  made pending beside it.
\<close>

lemma twins_not_unique:
  assumes "x \<in> set tbl" "y \<in> set tbl" "task_id x \<noteq> task_id y" "dedup_live x" "dedup_live y"
    "dedup_key x = Some k" "dedup_key y = Some k" "catalog_id x = catalog_id y"
  shows "\<not> dedup_unique tbl"
proof
  assume "dedup_unique tbl"
  from this [unfolded dedup_unique_def, rule_format, OF assms(1,2)] assms(3-8) show False by simp
qed

lemma requeue_duplicates:
  assumes "row_at tid tbl = Some r" "requeueable r" "retry_count r < cap" "dedup_key r = Some k"
    "x \<in> set tbl" "task_id x \<noteq> tid" "dedup_live x" "dedup_key x = Some k" "catalog_id x = catalog_id r"
  shows "\<not> dedup_unique (exec_op cap (OpRequeue tid False None None) tbl)"
proof (rule twins_not_unique)
  let ?op = "OpRequeue tid False None None"
  note r = row_at_SomeD [OF assms(1)]
  have e: "row_effect cap ?op tbl r = requeue_set False r" "row_effect cap ?op tbl x = x"
    using assms(2,3,6) r by (simp_all add: in_listing_scope_def)
  have mem: "row_effect cap ?op tbl z \<in> set (exec_op cap ?op tbl)" if "z \<in> set tbl" for z
    unfolding exec_op_effect set_append set_map using that by (intro UnI1 imageI)
  show "requeue_set False r \<in> set (exec_op cap ?op tbl)" using mem [of r] r unfolding e by simp
  show "x \<in> set (exec_op cap ?op tbl)" using mem [OF assms(5)] unfolding e .
qed (use assms(4,6-9) row_at_SomeD [OF assms(1)] in \<open>simp_all add: requeue_set_def dedup_live_def\<close>)

text \<open>
  Deduplication does not survive concurrent inserts.  When the pre-checks of two requests with
  the same key both ran before either insert, both rows are stored as soon as their creation times
  differ, because the unique index contains the creation time.
\<close>

theorem concurrent_creates_duplicate:
  assumes "c_dedup_key c = Some k" "\<forall>r \<in> set tbl. \<not> dedup_match schema k r" "created1 \<noteq> created2"
    "tid1 \<noteq> tid2"
  shows "\<exists>r1 r2 tbl1 tbl2.
    create_task env now1 tid1 created1 c schema PENDING None None tbl tbl = (Inr (Some r1), tbl1) \<and>
    create_task env now2 tid2 created2 c schema PENDING None None tbl tbl1 = (Inr (Some r2), tbl2) \<and>
    r1 \<in> set tbl2 \<and> r2 \<in> set tbl2 \<and> \<not> dedup_unique tbl2"
proof -
  let ?r1 = "create_row env now1 tid1 created1 c schema PENDING None None"
  let ?r2 = "create_row env now2 tid2 created2 c schema PENDING None None"
  have miss: "filter (dedup_match schema k) tbl = []" using assms(2) by (simp add: filter_empty_conv)
  have live: "dedup_live ?r1" "dedup_live ?r2" by (simp_all add: dedup_live_def create_row_def default_row_def)
  have cols: "dedup_key ?r1 = Some k" "dedup_key ?r2 = Some k" "catalog_id ?r1 = schema" "catalog_id ?r2 = schema"
    "timestamp ?r1 = created1" "timestamp ?r2 = created2"
    using assms(1) by (simp_all add: create_row_def default_row_def)
  have "\<not> list_ex (\<lambda>r. dedup_match schema k r \<and> timestamp r = t) tbl" for t
    using assms(2) by (auto simp: list_ex_iff)
  then have free: "\<not> index_conflict ?r1 tbl" "\<not> index_conflict ?r2 (tbl @ [?r1])"
    using cols assms(3) by (auto simp: index_conflict_def)
  have "create_task env now1 tid1 created1 c schema PENDING None None tbl tbl = (Inr (Some ?r1), tbl @ [?r1])"
    "create_task env now2 tid2 created2 c schema PENDING None None tbl (tbl @ [?r1]) =
      (Inr (Some ?r2), (tbl @ [?r1]) @ [?r2])"
    unfolding create_task_def Let_def assms(1) option.case miss using free by simp_all
  moreover have "\<not> dedup_unique ((tbl @ [?r1]) @ [?r2])"
    using live cols assms(4) unfolding dedup_unique_def by force
  ultimately show ?thesis by fastforce
qed

theorem concurrent_creates_duplicate_witness:
  "\<exists>r1 r2 tbl1 tbl2.
    create_task sample_env 10 1 10 sample_task ''c1'' PENDING None None [] [] = (Inr (Some r1), tbl1) \<and>
    create_task sample_env 11 2 11 sample_task ''c1'' PENDING None None [] tbl1 = (Inr (Some r2), tbl2) \<and>
    r1 \<in> set tbl2 \<and> r2 \<in> set tbl2 \<and> \<not> dedup_unique tbl2"
  by (rule concurrent_creates_duplicate [where k = "''k''"]) (simp_all add: sample_task_def)

text \<open>
  A dismissed task blocks its deduplication key: the pre-check counts it as non-terminal, so
  every later request with its key is refused and the table is unchanged.
\<close>

theorem dismissed_blocks_dedup:
  assumes "r \<in> set tbl" "status r = DISMISSED" "dedup_key r = Some k" "catalog_id r = schema"
    "c_dedup_key c = Some k"
  shows "create_task env now tid created c schema st own lock tbl tbl = (Inr None, tbl)"
proof -
  have "filter (dedup_match schema k) tbl \<noteq> []"
    using assms by (auto simp: filter_empty_conv dedup_match_def dedup_live_def)
  then show ?thesis by (simp add: create_task_def Let_def assms(5))
qed

theorem dismissed_blocks_dedup_witness:
  "create_task sample_env 20 8 20 sample_task ''c1'' PENDING None None
     [sample_row\<lparr>status := DISMISSED, dedup_key := Some ''k''\<rparr>]
     [sample_row\<lparr>status := DISMISSED, dedup_key := Some ''k''\<rparr>] =
   (Inr None, [sample_row\<lparr>status := DISMISSED, dedup_key := Some ''k''\<rparr>])"
  by (rule dismissed_blocks_dedup [where k = "''k''" and r = "sample_row\<lparr>status := DISMISSED, dedup_key := Some ''k''\<rparr>"])
    (simp_all add: sample_task_def)

section \<open>Stale attempts\<close>

text \<open>
  The owner guard does not separate attempts of one worker.  When a lease lapses, the reaper
  requeues the task and the same worker claims it again, the terminal write of the lapsed attempt is
  accepted and completes the task while the second attempt is still running.
\<close>

theorem stale_attempt_completes:
  assumes "row_at tid tbl = Some r" "status r = ACTIVE" "owner_id r = Some w" "catalog_id r = schema"
    "stuck now r" "retry_count r + 1 < min (max_retries r) cap"
    "reaped = snd (reap_stuck_tasks ''tasks'' cap now (\<lambda>_. False) tbl)"
    "again = snd (claim_for_execution tid schema w vis now_py now reaped)"
  shows "(\<exists>r2. row_at tid again = Some r2 \<and> status r2 = ACTIVE \<and> retry_count r2 = retry_count r + 1) \<and>
    fst (complete_task tid fin out (Some w) (Some (timestamp r)) again) \<and>
    (\<exists>r3. row_at tid (snd (complete_task tid fin out (Some w) (Some (timestamp r)) again)) = Some r3 \<and>
       status r3 = COMPLETED)"
proof -
  let ?p = "reap_set ''tasks'' cap now r"
  let ?a = "execution_set w (now_py + vis) now ?p"
  have id: "task_id r = tid" using row_at_SomeD [OF assms(1)] by simp
  have p: "status ?p = PENDING" "catalog_id ?p = schema" "task_id ?p = tid" "timestamp ?p = timestamp r"
    "retry_count ?p = retry_count r + 1"
    using assms(4,6) id by (auto simp: reap_set_def Let_def)
  have "row_at tid reaped = Some ?p"
    using assms(1,5) by (simp add: assms(7) reap_stuck_tasks_def Let_def row_at_sql_update)
  moreover have "execution_claimable tid schema w now ?p"
    using p by (simp add: execution_claimable_def foreign_live_lease_def)
  ultimately have a: "row_at tid again = Some ?a"
    by (simp add: assms(8) claim_for_execution_def Let_def row_at_sql_update)
  have cols: "status ?a = ACTIVE" "owner_id ?a = Some w" "task_id ?a = tid" "timestamp ?a = timestamp r"
    "retry_count ?a = retry_count r + 1"
    using p by (simp_all add: execution_set_def)
  then have g: "write_guard tid (Some (timestamp r)) (Some w) ?a" by (simp add: write_guard_def)
  moreover have "?a \<in> set again" using row_at_SomeD [OF a] by simp
  ultimately have "filter (write_guard tid (Some (timestamp r)) (Some w)) again \<noteq> []"
    by (auto simp: filter_empty_conv)
  then show ?thesis using a cols g
    by (simp add: complete_task_def Let_def rowcount_def row_at_sql_update complete_set_def)
qed

theorem stale_attempt_completes_witness:
  "fst (complete_task 7 5000 None (Some ''w1'') (Some 100)
     (snd (claim_for_execution 7 ''c1'' ''w1'' 300 2000 2000
       (snd (reap_stuck_tasks ''tasks'' 5 2000 (\<lambda>_. False) [sample_row])))))"
  using stale_attempt_completes [of 7 "[sample_row]" sample_row "''w1''" "''c1''" 2000 5 _ _ 300 2000 5000 None]
  by (simp add: stuck_def reap_grace_def drain_workclass_task_types_def)

end
