(* ===== verification/Task_Jobs.thy ===== *)
theory Task_Jobs
  imports Task_Lifecycle
begin

text \<open>
  The job lifecycle of \<open>ExecutionEngine\<close> in \<open>modules/tasks/execution.py\<close> on top of the task table:
  updating, starting and dismissing a job.  These operations decide on the job returned by
  \<open>get_task\<close>, which is cached for up to sixty seconds and invalidated only by inserts and
  \<open>update_task\<close>; the cached value is the argument \<open>view\<close>, which may be older than the table.
\<close>

section \<open>Operations\<close>

datatype job_error = NoSuchJob | JobStateConflictError | JobLockedError

definition terminal_status :: "task_status \<Rightarrow> bool" where
  "terminal_status s \<longleftrightarrow> s \<in> {COMPLETED, FAILED, DISMISSED, DEAD_LETTER}"

definition not_started :: "task_status \<Rightarrow> bool" where
  "not_started s \<longleftrightarrow> s \<in> {PENDING, CREATED}"

definition dismiss_update :: "time \<Rightarrow> task_status \<Rightarrow> task_update" where
  "dismiss_update now s =
     (if not_started s
      then no_update\<lparr>u_status := Some DISMISSED, u_dismiss_confirmed_at := Some (Some now)\<rparr>
      else no_update\<lparr>u_status := Some DISMISSED\<rparr>)"

text \<open>
  \<open>dismiss_job\<close>: the outcome, the table, and the owner whose runner is asked to stop when the compute
  may still be in flight.  The job is read back after the update, which invalidated its cache entry.
\<close>

definition dismiss_job ::
    "task_row option \<Rightarrow> time \<Rightarrow> nat \<Rightarrow> string \<Rightarrow> table \<Rightarrow> (job_error + task_row) \<times> table \<times> string option" where
  "dismiss_job view now tid schema tbl =
     (case view of
        None \<Rightarrow> (Inl NoSuchJob, tbl, None)
      | Some job \<Rightarrow>
          if status job = DISMISSED then (Inl NoSuchJob, tbl, None)
          else if terminal_status (status job) then (Inl JobStateConflictError, tbl, None)
          else let tbl' = snd (update_task tid (dismiss_update now (status job)) schema tbl);
                   stop = (if not_started (status job) then None
                           else Option.bind (get_task tid schema tbl') owner_id)
               in (case get_task tid schema tbl' of
                     None \<Rightarrow> (Inl NoSuchJob, tbl', stop)
                   | Some r \<Rightarrow> (Inr r, tbl', stop)))"

text \<open>\<open>update_job\<close>: the new inputs are written into the outputs column under a reserved key.\<close>

definition update_job ::
    "task_row option \<Rightarrow> dict \<Rightarrow> nat \<Rightarrow> string \<Rightarrow> table \<Rightarrow> (job_error + task_row) \<times> table" where
  "update_job view new_inputs tid schema tbl =
     (case view of
        None \<Rightarrow> (Inl NoSuchJob, tbl)
      | Some job \<Rightarrow>
          if status job \<noteq> CREATED then (Inl JobLockedError, tbl)
          else let u = no_update\<lparr>u_outputs := Some (Some (JObj [(''_deferred_inputs'', JObj new_inputs)]))\<rparr>;
                   tbl' = snd (update_task tid u schema tbl)
               in (case get_task tid schema tbl' of
                     None \<Rightarrow> (Inl NoSuchJob, tbl')
                   | Some r \<Rightarrow> (Inr r, tbl')))"

text \<open>
  \<open>start_job\<close>: the job becomes pending, and its type, inputs and caller go to \<open>execute\<close>, which picks
  and runs a runner.
\<close>

definition system_user_id :: string where
  "system_user_id = ''system:platform''"

definition start_job ::
    "task_row option \<Rightarrow> nat \<Rightarrow> string \<Rightarrow> table \<Rightarrow> (job_error + (string \<times> dict \<times> string)) \<times> table" where
  "start_job view tid schema tbl =
     (case view of
        None \<Rightarrow> (Inl NoSuchJob, tbl)
      | Some job \<Rightarrow>
          if status job \<noteq> CREATED then (Inl JobStateConflictError, tbl)
          else (Inr (task_type job,
                     (case inputs job of None \<Rightarrow> [] | Some d \<Rightarrow> d),
                     (case caller_id job of None \<Rightarrow> system_user_id
                      | Some c \<Rightarrow> if c = [] then system_user_id else c)),
                snd (update_task tid (no_update\<lparr>u_status := Some PENDING\<rparr>) schema tbl)))"

section \<open>Laws\<close>

lemma get_task_row_at:
  assumes "unique_ids tbl"
  shows "get_task tid schema tbl = (case row_at tid tbl of
    None \<Rightarrow> None | Some r \<Rightarrow> if catalog_id r = schema then Some r else None)"
proof -
  have "get_task tid schema tbl = (case row_at tid tbl of
      None \<Rightarrow> None | Some r \<Rightarrow> if catalog_id r = schema then Some r else None)"
    if "distinct (map task_id tbl)" for tbl
    using that
  proof (induction tbl)
    case (Cons x xs)
    have "filter (\<lambda>r. task_id r = task_id x \<and> catalog_id r = schema) xs = []"
      using Cons.prems by (auto simp: filter_empty_conv image_iff)
    with Cons show ?case by (auto simp: get_task_def)
  qed (simp add: get_task_def)
  then show ?thesis using assms by (simp add: unique_ids_def)
qed

lemma row_at_update_task:
  assumes "row_at tid tbl = Some r" "catalog_id r = schema" "u \<noteq> no_update"
  shows "row_at tid (snd (update_task tid u schema tbl)) = Some (apply_update u r)"
  using assms row_at_SomeD [OF assms(1)] by (simp add: update_task_def Let_def row_at_sql_update)

lemma unique_update_task: "unique_ids tbl \<Longrightarrow> unique_ids (snd (update_task tid u schema tbl))"
  by (simp add: update_task_def Let_def unique_sql_update)

lemma dismiss_update_set [simp]: "dismiss_update now s \<noteq> no_update"
  by (simp add: dismiss_update_def no_update_def)

lemma apply_dismiss_update:
  "apply_update (dismiss_update now s) r = r\<lparr>status := DISMISSED,
     dismiss_confirmed_at := (if not_started s then Some now else dismiss_confirmed_at r)\<rparr>"
  by (simp add: dismiss_update_def no_update_def apply_update_def set_or_def)

text \<open>
  C23. Dismissing on a current view follows the job state machine: an unknown or dismissed job is not
  found, a finished one is a conflict, and any other becomes dismissed, confirmed at once exactly
  when it had not been started, with its owner asked to stop otherwise.
\<close>

theorem dismiss_job_state_machine:
  assumes "unique_ids tbl" "row_at tid tbl = Some r" "catalog_id r = schema"
  shows "dismiss_job (get_task tid schema tbl) now tid schema tbl =
    (if status r = DISMISSED then (Inl NoSuchJob, tbl, None)
     else if status r \<in> {COMPLETED, FAILED, DEAD_LETTER} then (Inl JobStateConflictError, tbl, None)
     else let r' = r\<lparr>status := DISMISSED, dismiss_confirmed_at :=
                     (if status r \<in> {PENDING, CREATED} then Some now else dismiss_confirmed_at r)\<rparr>
          in (Inr r', sql_update (\<lambda>x. task_id x = tid \<and> catalog_id x = schema)
                        (apply_update (dismiss_update now (status r))) tbl,
              if status r \<in> {PENDING, CREATED} then None else owner_id r))"
proof -
  let ?t = "snd (update_task tid (dismiss_update now (status r)) schema tbl)"
  have view: "get_task tid schema tbl = Some r" using assms by (simp add: get_task_row_at)
  have "row_at tid ?t = Some (apply_update (dismiss_update now (status r)) r)"
    by (rule row_at_update_task) (use assms in simp_all)
  then have reread: "get_task tid schema ?t = Some (apply_update (dismiss_update now (status r)) r)"
    using assms(3) by (simp add: get_task_row_at [OF unique_update_task [OF assms(1)]] apply_dismiss_update)
  have tbl: "?t = sql_update (\<lambda>x. task_id x = tid \<and> catalog_id x = schema)
      (apply_update (dismiss_update now (status r))) tbl"
    by (simp add: update_task_def Let_def)
  show ?thesis
    using reread unfolding dismiss_job_def view option.case
    by (auto simp: Let_def terminal_status_def not_started_def apply_dismiss_update tbl [symmetric])
qed

theorem dismiss_job_state_machine_witness:
  "fst (dismiss_job (get_task 7 ''c1'' [sample_row]) 500 7 ''c1'' [sample_row]) =
     Inr (sample_row\<lparr>status := DISMISSED, dismiss_confirmed_at := dismiss_confirmed_at sample_row\<rparr>) \<and>
   snd (snd (dismiss_job (get_task 7 ''c1'' [sample_row]) 500 7 ''c1'' [sample_row])) = Some ''w1''"
  using dismiss_job_state_machine [of "[sample_row]" 7 sample_row "''c1''" 500]
  by (simp add: unique_ids_def)

text \<open>
  A dismissed job can run again.  Dismissing an active job leaves its owner in place, so when the
  run then fails, the worker's own guarded failure report matches the dismissed row and puts it back
  into the queue.
\<close>

theorem dismissed_job_requeued:
  assumes "unique_ids tbl" "row_at tid tbl = Some r" "catalog_id r = schema" "status r = ACTIVE"
    "owner_id r = Some w" "retries_remain cap r"
  shows "\<exists>r'. row_at tid (snd (fail_task cap now' tid fin msg True (Some w) (Some (timestamp r))
      (fst (snd (dismiss_job (get_task tid schema tbl) now tid schema tbl))))) = Some r' \<and>
    status r' = PENDING"
proof -
  let ?d = "fst (snd (dismiss_job (get_task tid schema tbl) now tid schema tbl))"
  have id: "task_id r = tid" using row_at_SomeD [OF assms(2)] by simp
  have "?d = sql_update (\<lambda>x. task_id x = tid \<and> catalog_id x = schema)
      (apply_update (dismiss_update now (status r))) tbl"
    using dismiss_job_state_machine [OF assms(1-3), of now] assms(4) by (simp add: Let_def)
  then have "row_at tid ?d = Some (apply_update (dismiss_update now ACTIVE) r)"
    using assms(2-4) id by (simp add: row_at_sql_update)
  then show ?thesis using assms(5,6) id
    by (simp add: fail_task_def Let_def row_at_sql_update write_guard_def apply_dismiss_update
        retry_set_def retries_remain_def)
qed

theorem dismissed_job_requeued_witness:
  "\<exists>r'. row_at 7 (snd (fail_task 5 700 7 700 ''boom'' True (Some ''w1'') (Some (timestamp sample_row))
      (fst (snd (dismiss_job (get_task 7 ''c1'' [sample_row]) 500 7 ''c1'' [sample_row]))))) = Some r' \<and>
    status r' = PENDING"
  by (rule dismissed_job_requeued) (simp_all add: unique_ids_def retries_remain_def)

text \<open>
  A stale view overwrites a result.  Completing a task does not invalidate the cached job, so a
  dismissal that still sees it active turns the completed job into a dismissed one.
\<close>

theorem stale_dismiss_overwrites:
  assumes "row_at tid tbl = Some r" "catalog_id r = schema" "status r = ACTIVE" "owner_id r = Some w"
    "tbl' = snd (complete_task tid fin out (Some w) None tbl)"
  shows "(\<exists>r1. row_at tid tbl' = Some r1 \<and> status r1 = COMPLETED) \<and>
    (\<exists>r2. row_at tid (fst (snd (dismiss_job (Some r) now tid schema tbl'))) = Some r2 \<and> status r2 = DISMISSED)"
proof -
  have id: "task_id r = tid" using row_at_SomeD [OF assms(1)] by simp
  have compl: "row_at tid tbl' = Some (complete_set fin out r)"
    using assms(1,4) id by (simp add: assms(5) complete_task_def Let_def row_at_sql_update write_guard_def)
  have "fst (snd (dismiss_job (Some r) now tid schema tbl')) =
      snd (update_task tid (dismiss_update now ACTIVE) schema tbl')"
    using assms(3) by (auto simp: dismiss_job_def terminal_status_def Let_def split: option.splits)
  moreover have "row_at tid (snd (update_task tid (dismiss_update now ACTIVE) schema tbl')) =
      Some (apply_update (dismiss_update now ACTIVE) (complete_set fin out r))"
    by (rule row_at_update_task [OF compl]) (use assms(2) in \<open>simp_all add: complete_set_def\<close>)
  ultimately show ?thesis using compl by (simp add: complete_set_def apply_dismiss_update)
qed

theorem stale_dismiss_overwrites_witness:
  "\<exists>r2. row_at 7 (fst (snd (dismiss_job (Some sample_row) 900 7 ''c1''
      (snd (complete_task 7 800 None (Some ''w1'') None [sample_row]))))) = Some r2 \<and> status r2 = DISMISSED"
  using stale_dismiss_overwrites [of 7 "[sample_row]" sample_row "''c1''" "''w1''" _ 800 None 900] by simp

text \<open>
  Updated inputs are never used.  After a successful \<open>update_job\<close>, \<open>start_job\<close> hands the inputs
  the job was created with to the runner; and it leaves the job pending and unleased, so a
  dispatcher claims and executes it as well.
\<close>

theorem updated_inputs_ignored:
  assumes "unique_ids tbl" "row_at tid tbl = Some r" "catalog_id r = schema" "status r = CREATED"
    "inputs r = Some old"
    "tbl1 = snd (update_job (get_task tid schema tbl) new tid schema tbl)"
    "started = start_job (get_task tid schema tbl1) tid schema tbl1"
  shows "(\<exists>r1. fst (update_job (get_task tid schema tbl) new tid schema tbl) = Inr r1) \<and>
    (\<exists>t c. fst started = Inr (t, old, c)) \<and>
    (\<exists>r2. row_at tid (snd started) = Some r2 \<and> status r2 = PENDING \<and> locked_until r2 = locked_until r)"
proof -
  let ?u = "no_update\<lparr>u_outputs := Some (Some (JObj [(''_deferred_inputs'', JObj new)]))\<rparr>"
  have view: "get_task tid schema tbl = Some r" using assms by (simp add: get_task_row_at)
  have u: "?u \<noteq> no_update" by (simp add: no_update_def)
  let ?r1 = "apply_update ?u r"
  have r1: "row_at tid (snd (update_task tid ?u schema tbl)) = Some ?r1"
    by (rule row_at_update_task [OF assms(2,3) u])
  have cols: "status ?r1 = CREATED" "inputs ?r1 = Some old" "catalog_id ?r1 = schema"
    "locked_until ?r1 = locked_until r"
    using assms(3-5) by (simp_all add: apply_update_def set_or_def no_update_def)
  then have g1: "get_task tid schema (snd (update_task tid ?u schema tbl)) = Some ?r1"
    using r1 by (simp add: get_task_row_at [OF unique_update_task [OF assms(1)]])
  then have t1: "tbl1 = snd (update_task tid ?u schema tbl)"
    and ok: "\<exists>r1. fst (update_job (get_task tid schema tbl) new tid schema tbl) = Inr r1"
    using assms(4) by (simp_all add: assms(6) update_job_def view Let_def)
  have "no_update\<lparr>u_status := Some PENDING\<rparr> \<noteq> no_update" by (simp add: no_update_def)
  then have "row_at tid (snd started) = Some (apply_update (no_update\<lparr>u_status := Some PENDING\<rparr>) ?r1)"
    using row_at_update_task [OF r1 cols(3)] g1 cols(1)
    by (simp add: assms(7) start_job_def t1)
  moreover have "\<exists>t c. fst started = Inr (t, old, c)"
    using g1 cols by (simp add: assms(7) start_job_def t1)
  ultimately show ?thesis using ok cols(4) by (simp add: apply_update_def set_or_def no_update_def)
qed

theorem updated_inputs_ignored_witness:
  "\<exists>t c. fst (start_job (get_task 7 ''c1''
       (snd (update_job (get_task 7 ''c1'' [sample_row\<lparr>status := CREATED, inputs := Some [(''n'', JInt 1)]\<rparr>])
          [(''n'', JInt 2)] 7 ''c1'' [sample_row\<lparr>status := CREATED, inputs := Some [(''n'', JInt 1)]\<rparr>]))) 7 ''c1''
       (snd (update_job (get_task 7 ''c1'' [sample_row\<lparr>status := CREATED, inputs := Some [(''n'', JInt 1)]\<rparr>])
          [(''n'', JInt 2)] 7 ''c1'' [sample_row\<lparr>status := CREATED, inputs := Some [(''n'', JInt 1)]\<rparr>]))) =
     Inr (t, [(''n'', JInt 1)], c)"
  using updated_inputs_ignored [of "[sample_row\<lparr>status := CREATED, inputs := Some [(''n'', JInt 1)]\<rparr>]" 7
      "sample_row\<lparr>status := CREATED, inputs := Some [(''n'', JInt 1)]\<rparr>" "''c1''" "[(''n'', JInt 1)]" _
      "[(''n'', JInt 2)]"]
  by (simp add: unique_ids_def)

end
