(* ===== verification/Dispatcher.thy ===== *)
theory Dispatcher
  imports Task_Lifecycle
begin

text \<open>
  The dispatcher of \<open>modules/tasks/dispatcher.py\<close> and the terminal routing of
  \<open>modules/tasks/execution.py\<close>: runner identity, the batched heartbeat, the handling of one claimed
  row, the ROUTE continuations it triggers, and the sweeps that dead-letter and recall rows no live
  worker can take.

  What the model does not compute is an argument: the verdict of a task class on a row, the answers
  of the capability oracle and the advisory lock, the routing policy, the run itself (an outcome and
  the table it leaves behind, so a run may be arbitrarily interleaved with other actors), and the
  form in which the database driver hands back a JSON column.
\<close>

section \<open>Runner identity and heartbeats\<close>

text \<open>\<open>_runner_id\<close>: \<open>RUNNER_ID\<close>, else \<open>NAME@hostname\<close>, else \<open>hostname:pid\<close>.\<close>

definition runner_id :: "string \<Rightarrow> string \<Rightarrow> string \<Rightarrow> nat \<Rightarrow> string" where
  "runner_id env_runner_id env_name hostname pid =
     (if env_runner_id \<noteq> [] then env_runner_id
      else if env_name \<noteq> [] then env_name @ ''@'' @ hostname
      else hostname @ '':'' @ nat_str pid)"

text \<open>\<open>BatchedHeartbeat\<close>: the owned rows by task id, renewed together.\<close>

definition register :: "nat \<Rightarrow> time \<Rightarrow> (nat \<times> time) list \<Rightarrow> (nat \<times> time) list" where
  "register tid ts own = dset tid ts own"

definition unregister :: "nat \<Rightarrow> (nat \<times> time) list \<Rightarrow> (nat \<times> time) list" where
  "unregister tid own = filter (\<lambda>e. fst e \<noteq> tid) own"

definition flush :: "time \<Rightarrow> time \<Rightarrow> time \<Rightarrow> (nat \<times> time) list \<Rightarrow> table \<Rightarrow> table" where
  "flush visibility now_py now own tbl = heartbeat_tasks own visibility now_py now tbl"

section \<open>Terminal routing\<close>

datatype action_verb = ActRoute | ActReport | ActDeadLetter | ActFail

record action =
  verb :: action_verb
  process :: "string option"
  payload :: dict

record routing_terminal =
  on_success :: action
  on_failure :: action
  on_timeout :: action
  timeout_seconds :: "rat option"

text \<open>The inputs column as the driver returns it: decoded, as JSON text, or \<open>NULL\<close>.\<close>

datatype seen_inputs = InDict dict | InText string | InNone

definition read_task_status :: "nat \<Rightarrow> table \<Rightarrow> task_status option" where
  "read_task_status tid tbl = map_option status (one_dict (filter (\<lambda>r. task_id r = tid) tbl))"

datatype outcome = Success | Failure | Timeout

definition failed_terminally :: "nat \<Rightarrow> table \<Rightarrow> bool" where
  "failed_terminally tid tbl \<longleftrightarrow> read_task_status tid tbl \<in> {Some DEAD_LETTER, Some FAILED}"

text \<open>
  \<open>_drain_provisioning_checklist\<close>: the catalog whose pending steps are drained and the status they
  get, when the call happens.
\<close>

definition provisioning_task_types :: "string list" where
  "provisioning_task_types = [''gcp_provision_catalog'', ''catalog_provision'']"

definition drain_provisioning_checklist ::
    "nat \<Rightarrow> string \<Rightarrow> seen_inputs \<Rightarrow> outcome \<Rightarrow> table \<Rightarrow> (json \<times> string) option" where
  "drain_provisioning_checklist tid tt ins oc tbl =
     (if tt \<notin> set provisioning_task_types then None
      else let cat = (case ins of InDict d \<Rightarrow> jget d ''catalog_id'' | _ \<Rightarrow> JNone)
           in if \<not> truthy cat then None
              else if oc \<in> {Failure, Timeout} \<and> \<not> failed_terminally tid tbl then None
              else Some (cat, if oc \<in> {Failure, Timeout} then ''failed'' else ''degraded''))"

text \<open>The continuation's inputs, or nothing past the hop limit.\<close>

definition max_route_depth :: int where
  "max_route_depth = 16"

definition route_depth_key :: string where
  "route_depth_key = ''_route_depth''"

definition base_inputs :: "seen_inputs \<Rightarrow> dict" where
  "base_inputs ins = (case ins of InDict d \<Rightarrow> d | _ \<Rightarrow> [])"

definition route_depth :: "pylib \<Rightarrow> dict \<Rightarrow> int" where
  "route_depth lib d = (case lib_int lib (jget_or d route_depth_key (JInt 0)) of Inl _ \<Rightarrow> 0 | Inr i \<Rightarrow> i)"

definition merge_dict :: "dict \<Rightarrow> dict \<Rightarrow> dict" where
  "merge_dict base extra = fold (\<lambda>(k, v). dset k v) extra base"

definition route_inputs :: "pylib \<Rightarrow> seen_inputs \<Rightarrow> dict \<Rightarrow> dict option" where
  "route_inputs lib ins extra =
     (let depth = route_depth lib (base_inputs ins)
      in if max_route_depth \<le> depth then None
         else Some (dset route_depth_key (JInt (depth + 1)) (merge_dict (base_inputs ins) extra)))"

text \<open>
  \<open>apply_terminal_action\<close>: the drain call, the routed follow-on task and the table.  A failed insert
  is swallowed.
\<close>

record route_ctx =
  rc_env :: task_env
  rc_lib :: pylib
  rc_now :: time
  rc_new_id :: nat
  rc_created :: time

definition follow_on :: "task_env \<Rightarrow> string \<Rightarrow> string option \<Rightarrow> string option \<Rightarrow> string option \<Rightarrow> dict \<Rightarrow> task_create" where
  "follow_on env proc caller coll scp ins = \<lparr>
     c_caller_id = Some (case caller of None \<Rightarrow> ''system:platform''
                         | Some c \<Rightarrow> if c = [] then ''system:platform'' else c),
     c_task_type = proc, c_type = resolve_task_type_kind env proc ''task'', c_inputs = Some ins,
     c_collection_id = coll, c_title = None, c_execution_mode = ''ASYNCHRONOUS'',
     c_scope = (case scp of None \<Rightarrow> ''CATALOG'' | Some s \<Rightarrow> if s = [] then ''CATALOG'' else s),
     c_max_retries = None, c_dedup_key = None\<rparr>"

definition apply_terminal_action ::
    "route_ctx \<Rightarrow> nat \<Rightarrow> string \<Rightarrow> seen_inputs \<Rightarrow> string option \<Rightarrow> string option \<Rightarrow> string \<Rightarrow>
     string option \<Rightarrow> outcome \<Rightarrow> action \<Rightarrow> table \<Rightarrow>
     (json \<times> string) option \<times> task_row option \<times> table" where
  "apply_terminal_action rc tid tt ins caller coll schema scp oc act tbl =
     (let drained = drain_provisioning_checklist tid tt ins oc tbl
      in if verb act \<noteq> ActRoute then (drained, None, tbl)
         else (case process act of
                 None \<Rightarrow> (drained, None, tbl)
               | Some proc \<Rightarrow>
                   if proc = [] then (drained, None, tbl)
                   else if oc \<in> {Failure, Timeout} \<and> \<not> failed_terminally tid tbl then (drained, None, tbl)
                   else (case route_inputs (rc_lib rc) ins (payload act) of
                           None \<Rightarrow> (drained, None, tbl)
                         | Some forwarded \<Rightarrow>
                             (case create_task (rc_env rc) (rc_now rc) (rc_new_id rc) (rc_created rc)
                                     (follow_on (rc_env rc) proc caller coll scp forwarded) schema
                                     PENDING None None tbl tbl of
                                (Inl _, _) \<Rightarrow> (drained, None, tbl)
                              | (Inr created, tbl') \<Rightarrow> (drained, created, tbl')))))"

section \<open>Rows no live worker can take\<close>

text \<open>
  The oracle's answers around the advisory lock: live before, lock granted, and live inside the
  transaction, where a time-out counts as live.
\<close>

record cap_oracle =
  live_before :: bool
  lock_granted :: bool
  live_inside :: "bool option"

definition capability_dead :: "cap_oracle \<Rightarrow> bool" where
  "capability_dead orc \<longleftrightarrow> \<not> live_before orc \<and> lock_granted orc \<and> live_inside orc = Some False"

text \<open>The error message; \<open>rep\<close> is \<open>repr\<close>, and the dash is its three UTF-8 bytes.\<close>

definition dead_capability_error_message :: "(string \<Rightarrow> string) \<Rightarrow> string \<Rightarrow> string" where
  "dead_capability_error_message rep cap =
     ''reaped: no live worker advertises capability '' @ rep cap @ '' (check SCOPE/B6 '' @
     [CHR 0xE2, CHR 0x80, CHR 0x94] @ '' module not loaded in any reachable pool)''"

definition dlq_set :: "time \<Rightarrow> string \<Rightarrow> task_row \<Rightarrow> task_row" where
  "dlq_set now err r = r\<lparr>status := DEAD_LETTER, error_message := Some err, finished_at := Some now,
     owner_id := None, locked_until := None\<rparr>"

text \<open>\<open>TASK_TYPE_CAPABILITY_INPUTS_KEY\<close>, as shipped.\<close>

definition task_type_capability_inputs_key :: "(string \<times> string) list" where
  "task_type_capability_inputs_key = []"

text \<open>
  \<open>_emit_bulk_dlq\<close> with its statement from \<open>_dead_capability_bulk_sql\<close>; the keys of the mapping are an
  argument, the text of a stored value is \<open>text_of\<close>.
\<close>

definition emit_bulk_dlq ::
    "(string \<times> string) list \<Rightarrow> (dict option \<Rightarrow> string \<Rightarrow> string option) \<Rightarrow> time \<Rightarrow> string \<Rightarrow> string \<Rightarrow> string \<Rightarrow>
     table \<Rightarrow> nat \<times> table" where
  "emit_bulk_dlq keys text_of now tt cap err tbl =
     (case map_of keys tt of
        None \<Rightarrow> (0, tbl)
      | Some key \<Rightarrow>
          if key = [] then (0, tbl)
          else let g = (\<lambda>r. task_type r = tt \<and> status r = PENDING \<and> retry_count r = 0 \<and>
                            text_of (inputs r) key = Some cap)
               in (rowcount g tbl, sql_update g (dlq_set now err) tbl))"

definition maybe_dlq_unclaimable ::
    "(string \<times> string) list \<Rightarrow> (dict option \<Rightarrow> string \<Rightarrow> string option) \<Rightarrow> time \<Rightarrow> cap_oracle \<Rightarrow>
     task_row \<Rightarrow> string \<Rightarrow> string \<Rightarrow> table \<Rightarrow> bool \<times> table" where
  "maybe_dlq_unclaimable keys text_of now orc row cap err tbl =
     (if \<not> capability_dead orc then (False, tbl)
      else let g = (\<lambda>r. timestamp r = timestamp row \<and> task_id r = task_id row \<and>
                        status r = PENDING \<and> retry_count r = 0)
           in if one_dict (filter g tbl) = None then (False, tbl)
              else (True, snd (emit_bulk_dlq keys text_of now (task_type row) cap err
                                 (sql_update g (dlq_set now err) tbl))))"

definition sweep_dead_capability_rows ::
    "(string \<times> string) list \<Rightarrow> (dict option \<Rightarrow> string \<Rightarrow> string option) \<Rightarrow> time \<Rightarrow> cap_oracle \<Rightarrow>
     string option \<Rightarrow> string \<Rightarrow> string \<Rightarrow> table \<Rightarrow> nat \<times> table" where
  "sweep_dead_capability_rows keys text_of now orc tt cap err tbl =
     (case tt of
        None \<Rightarrow> (0, tbl)
      | Some t \<Rightarrow>
          if t = [] \<or> t \<notin> fst ` set keys then (0, tbl)
          else if \<not> capability_dead orc then (0, tbl)
          else emit_bulk_dlq keys text_of now t cap err tbl)"

text \<open>The task registry, and the live services that own a task type with their tier.\<close>

record task_spec =
  task_key :: string
  mandatory :: bool
  affinity_tier :: "string option"

type_synonym owners_map = "(string \<times> string option list) list"

definition mandatory_specs :: "task_spec list \<Rightarrow> (string \<times> string option) list" where
  "mandatory_specs reg = map (\<lambda>s. (task_key s, affinity_tier s)) (filter mandatory reg)"

definition has_correct_tier_owner :: "string option list \<Rightarrow> string option \<Rightarrow> bool" where
  "has_correct_tier_owner owners tier \<longleftrightarrow>
     (case tier of None \<Rightarrow> owners \<noteq> [] | Some t \<Rightarrow> Some t \<in> set owners)"

definition check_mandatory_ownership :: "task_spec list \<Rightarrow> owners_map \<Rightarrow> string list" where
  "check_mandatory_ownership reg live =
     map fst (filter (\<lambda>(k, tier). \<not> has_correct_tier_owner (dget_or live k []) tier) (mandatory_specs reg))"

definition find_unclaimable_task_types :: "task_spec list \<Rightarrow> owners_map \<Rightarrow> string list" where
  "find_unclaimable_task_types reg live =
     map task_key (filter (\<lambda>s. \<not> has_correct_tier_owner (dget_or live (task_key s) []) (affinity_tier s)) reg)"

definition sweep_unclaimable_rows ::
    "task_spec list \<Rightarrow> owners_map \<Rightarrow> time \<Rightarrow> time \<Rightarrow> string \<Rightarrow> table \<Rightarrow> nat \<times> table" where
  "sweep_unclaimable_rows reg live min_age now err tbl =
     (let unclaimable = find_unclaimable_task_types reg live
      in if unclaimable = [] then (0, tbl)
         else let g = (\<lambda>r. status r = PENDING \<and> retry_count r = 0 \<and> task_type r \<in> set unclaimable \<and>
                           timestamp r < now - min_age)
              in (rowcount g tbl, sql_update g (dlq_set now err) tbl))"

fun requeue_types :: "string list \<Rightarrow> table \<Rightarrow> nat \<times> table" where
  "requeue_types [] tbl = (0, tbl)"
| "requeue_types (k # ks) tbl =
     (case requeue_dead_letter_tasks_by_type (\<lambda>_ _. None) k None 1000 True [] tbl of
        (Inl _, tbl') \<Rightarrow> (0, tbl')
      | (Inr n, tbl') \<Rightarrow> (let (m, tbl'') = requeue_types ks tbl' in (n + m, tbl'')))"

definition auto_requeue_recovered_mandatory :: "task_spec list \<Rightarrow> owners_map \<Rightarrow> table \<Rightarrow> nat \<times> table" where
  "auto_requeue_recovered_mandatory reg live tbl =
     requeue_types (map fst (filter (\<lambda>(k, tier). has_correct_tier_owner (dget_or live k []) tier)
                               (mandatory_specs reg))) tbl"

section \<open>One claimed row\<close>

text \<open>What a run of the task ends in: a value, deferral to a background runner, or an exception.\<close>

datatype run_outcome =
    Returned "json option"
  | Deferred
  | RaisedCancelled
  | RaisedTimeout
  | RaisedPermanent string
  | RaisedOther string

text \<open>
  The verdict of the task class on the row: no predicate, a predicate that raises (the row is then
  accepted), or its answer.
\<close>

datatype verdict = NoPredicate | PredicateRaises | Answers bool

definition accepted :: "verdict \<Rightarrow> bool" where
  "accepted v \<longleftrightarrow> v \<noteq> Answers False"

record disp_env =
  runner :: string
  hard_cap :: nat
  clock :: time
  db_clock :: time
  claim_reject_backoff :: time
  can_claim :: "task_row \<Rightarrow> verdict"
  required_capability :: "task_row \<Rightarrow> string option"
  the_oracle :: cap_oracle
  capability_keys :: "(string \<times> string) list"
  json_text :: "dict option \<Rightarrow> string \<Rightarrow> string option"
  terminal_of :: "string \<Rightarrow> routing_terminal"
  is_sync_type :: "string \<Rightarrow> bool"
  run_task :: "task_row \<Rightarrow> rat option \<Rightarrow> table \<Rightarrow> run_outcome \<times> table"
  driver_inputs :: "dict option \<Rightarrow> seen_inputs"
  py_repr :: "string \<Rightarrow> string"
  timeout_text :: "rat option \<Rightarrow> string"
  route :: route_ctx

record disp_world =
  queue :: table
  owned :: "(nat \<times> time) list"

datatype dispatch_result = DeadLettered | Released | DeferredRun | Finished "task_row option" | Cancelled

text \<open>The ceiling applied to the run: for synchronous types with a non-zero time-out only.\<close>

definition run_ceiling :: "disp_env \<Rightarrow> task_row \<Rightarrow> rat option" where
  "run_ceiling env row =
     (case timeout_seconds (terminal_of env (task_type row)) of
        None \<Rightarrow> None
      | Some t \<Rightarrow> if is_sync_type env (task_type row) \<and> t \<noteq> 0 then Some t else None)"

text \<open>The continuation, run only when the terminal write matched.\<close>

definition continue_if ::
    "disp_env \<Rightarrow> task_row \<Rightarrow> outcome \<Rightarrow> action \<Rightarrow> bool \<times> table \<Rightarrow> task_row option \<times> table" where
  "continue_if env row oc act wr =
     (if fst wr
      then (let (drained, created, tbl') =
                  apply_terminal_action (route env) (task_id row) (task_type row)
                    (driver_inputs env (inputs row)) (caller_id row) (collection_id row)
                    (catalog_id row) (Some (scope row)) oc act (snd wr)
            in (created, tbl'))
      else (None, snd wr))"

definition finish_run :: "disp_env \<Rightarrow> task_row \<Rightarrow> run_outcome \<Rightarrow> table \<Rightarrow> dispatch_result \<times> table" where
  "finish_run env row oc tbl =
     (let own = Some (runner env); ts = Some (timestamp row); tid = task_id row;
          term = terminal_of env (task_type row)
      in (case oc of
            Returned out \<Rightarrow>
              apfst Finished (continue_if env row Success (on_success term)
                (complete_task tid (clock env) out own ts tbl))
          | Deferred \<Rightarrow> (DeferredRun, tbl)
          | RaisedCancelled \<Rightarrow>
              (Cancelled, snd (fail_task (hard_cap env) (db_clock env) tid (clock env)
                 ''Runner interrupted (SIGTERM)'' True own ts tbl))
          | RaisedTimeout \<Rightarrow>
              apfst Finished (continue_if env row Timeout (on_timeout term)
                (dead_letter_task tid (clock env)
                   (''Runner timed out after '' @ timeout_text env (timeout_seconds term) @ ''s'') own ts tbl))
          | RaisedPermanent msg \<Rightarrow>
              apfst Finished (continue_if env row Failure (on_failure term)
                (fail_task (hard_cap env) (db_clock env) tid (clock env) msg False own ts tbl))
          | RaisedOther msg \<Rightarrow>
              apfst Finished (continue_if env row Failure (on_failure term)
                (fail_task (hard_cap env) (db_clock env) tid (clock env) msg True own ts tbl))))"

definition dispatch_one :: "disp_env \<Rightarrow> task_row \<Rightarrow> disp_world \<Rightarrow> dispatch_result \<times> disp_world" where
  "dispatch_one env row w =
     (if \<not> accepted (can_claim env row)
      then (let (dlqed, tbl) =
                  (case required_capability env row of
                     None \<Rightarrow> (False, queue w)
                   | Some cap \<Rightarrow>
                       maybe_dlq_unclaimable (capability_keys env) (json_text env) (db_clock env)
                         (the_oracle env) row cap (dead_capability_error_message (py_repr env) cap) (queue w))
            in if dlqed then (DeadLettered, w\<lparr>queue := tbl\<rparr>)
               else (Released, w\<lparr>queue := reset_task_to_pending (task_id row)
                                  (Some (claim_reject_backoff env)) (clock env) tbl\<rparr>))
      else (let own = register (task_id row) (timestamp row) (owned w);
                (oc, tbl) = run_task env row (run_ceiling env row) (queue w);
                (res, tbl') = finish_run env row oc tbl
            in (res, \<lparr>queue = tbl', owned = (if oc = Deferred then own else unregister (task_id row) own)\<rparr>)))"

text \<open>
  One pass of the inner loop of \<open>run_dispatcher\<close>: claim a batch and dispatch its rows; nothing
  claimed ends the loop.
\<close>

definition dispatch_pass ::
    "disp_env \<Rightarrow> claim_cfg \<Rightarrow> nat \<Rightarrow> (task_row \<Rightarrow> bool) \<Rightarrow> disp_world \<Rightarrow> dispatch_result list option \<times> disp_world" where
  "dispatch_pass env c batch_size held w =
     (let (rows, tbl) = claim_batch (hard_cap env) c batch_size held (queue w)
      in if rows = [] then (None, w\<lparr>queue := tbl\<rparr>)
         else apfst Some (fold (\<lambda>row (rs, w). apfst (\<lambda>r. rs @ [r]) (dispatch_one env row w))
                (map fst rows) ([], w\<lparr>queue := tbl\<rparr>)))"

section \<open>Claims and rejections\<close>

lemma claimed_row:
  assumes "unique_ids tbl" "(row, e) \<in> set (fst (claim_batch cap c n held tbl))"
  shows "row_at (task_id row) (snd (claim_batch cap c n held tbl)) = Some row \<and> status row = ACTIVE \<and>
    owner_id row = Some (claimant c)"
proof -
  from assms(2) obtain r where r: "r \<in> set (batch_locked cap c n held tbl)" "row = batch_set c r"
    and types: "\<not> (async_types c = [] \<and> sync_types c = [])"
    by (auto simp: claim_batch_def Let_def split: if_splits)
  have "r \<in> set tbl" by (rule batch_locked_pending(1) [OF r(1)])
  then have at: "row_at (task_id r) tbl = Some r" using assms(1) by (simp add: row_at_iff)
  have "snd (claim_batch cap c n held tbl) =
      sql_update (\<lambda>x. row_key x \<in> row_key ` set (batch_locked cap c n held tbl)) (batch_set c) tbl"
    using types by (auto simp: claim_batch_def Let_def)
  then have "row_at (task_id r) (snd (claim_batch cap c n held tbl)) = Some row"
    using at r by (simp add: row_at_sql_update)
  then show ?thesis using r(2) by (simp add: batch_set_def claim_set_def)
qed

lemma unique_claim_batch: "unique_ids tbl \<Longrightarrow> unique_ids (snd (claim_batch cap c n held tbl))"
  by (simp add: claim_batch_def Let_def unique_sql_update)

text \<open>
  C39. The reactive reaper never fires.  It is meant to dead-letter a claimed row that the task class
  refuses and whose capability no live worker has, but its statement only matches pending rows, and
  a claimed row is active: whatever the oracle answers, the refused row is released to the queue
  with its retry count unchanged.
\<close>

theorem reactive_dlq_never_fires:
  assumes "unique_ids tbl" "(row, e) \<in> set (fst (claim_batch cap c n held tbl))"
    "can_claim env row = Answers False"
    "d = dispatch_one env row \<lparr>queue = snd (claim_batch cap c n held tbl), owned = own\<rparr>"
  shows "fst d = Released \<and>
    (\<exists>r. row_at (task_id row) (queue (snd d)) = Some r \<and> status r = PENDING \<and>
       retry_count r = retry_count row \<and> locked_until r = Some (clock env + claim_reject_backoff env))"
proof -
  let ?t = "snd (claim_batch cap c n held tbl)"
  note row = claimed_row [OF assms(1,2)]
  have u: "unique_ids ?t" by (rule unique_claim_batch [OF assms(1)])
  have "x = row" if "x \<in> set ?t" "task_id x = task_id row" for x
    using unique_ids_inj [OF u that(1) _ that(2)] row_at_SomeD [of "task_id row" ?t row] row by simp
  then have "\<not> (timestamp x = timestamp row \<and> task_id x = task_id row \<and> status x = PENDING \<and> retry_count x = 0)"
    if "x \<in> set ?t" for x
    using row that by (metis task_status.distinct(15))
  then have none: "filter (\<lambda>x. timestamp x = timestamp row \<and> task_id x = task_id row \<and> status x = PENDING \<and>
      retry_count x = 0) ?t = []"
    by (simp add: filter_empty_conv)
  have keep: "maybe_dlq_unclaimable (capability_keys env) (json_text env) (db_clock env)
      (the_oracle env) row q m ?t = (False, ?t)" for q m
    using none by (simp add: maybe_dlq_unclaimable_def Let_def)
  have d: "d = (Released, \<lparr>queue = reset_task_to_pending (task_id row) (Some (claim_reject_backoff env)) (clock env) ?t,
      owned = own\<rparr>)"
    using assms(3) by (simp add: assms(4) dispatch_one_def accepted_def keep split: option.splits)
  have "keeps_id (\<lambda>r. r\<lparr>status := PENDING, locked_until := x, owner_id := None, last_heartbeat_at := None\<rparr>)" for x
    by (simp add: keeps_id_def)
  then show ?thesis using row by (simp add: d reset_task_to_pending_def row_at_sql_update)
qed

section \<open>Outcomes of a run\<close>

lemma row_at_create:
  "create_task env now i cr c schema st own lock snap tbl = (res, tbl') \<Longrightarrow> row_at tid tbl = Some r \<Longrightarrow>
     row_at tid tbl' = Some r"
  by (auto simp: create_task_def Let_def row_at_append split: if_splits)

lemma row_at_terminal_action:
  "row_at tid tbl = Some r \<Longrightarrow>
     row_at tid (snd (snd (apply_terminal_action rc t tt ins caller coll schema scp oc act tbl))) = Some r"
  by (auto simp: apply_terminal_action_def Let_def split: option.splits prod.splits sum.splits
      intro: row_at_create)

lemma row_at_continue_if:
  "row_at tid (snd wr) = Some r \<Longrightarrow> row_at tid (snd (continue_if env row oc act wr)) = Some r"
  using row_at_terminal_action [of tid "snd wr" r]
  by (auto simp: continue_if_def Let_def split: prod.splits) (metis snd_conv)

lemma row_at_guarded:
  assumes "row_at tid tbl = Some r" "owner_id r = Some own" "timestamp r = ts"
  shows "row_at tid (snd (complete_task tid fin out (Some own) (Some ts) tbl)) = Some (complete_set fin out r)"
    "row_at tid (snd (dead_letter_task tid fin msg (Some own) (Some ts) tbl)) = Some (dead_letter_set fin msg r)"
    "row_at tid (snd (fail_task cap now tid fin msg retry (Some own) (Some ts) tbl)) =
       Some (if retry then retry_set cap now fin msg r else fail_set fin msg r)"
  using assms row_at_SomeD [OF assms(1)]
  by (simp_all add: complete_task_def dead_letter_task_def fail_task_def Let_def row_at_sql_update write_guard_def)

definition status_after :: "nat \<Rightarrow> task_row \<Rightarrow> run_outcome \<Rightarrow> task_status" where
  "status_after cap r oc = (case oc of
     Returned _ \<Rightarrow> COMPLETED
   | Deferred \<Rightarrow> status r
   | RaisedTimeout \<Rightarrow> DEAD_LETTER
   | RaisedPermanent _ \<Rightarrow> FAILED
   | _ \<Rightarrow> if retries_remain cap r then PENDING else DEAD_LETTER)"

text \<open>
  C20. Every outcome of a run reaches the row.  When the worker still owns the row after an accepted
  run, the row ends completed for a value, dead-lettered for a time-out, failed for a permanent
  failure, and for a cancellation or any other exception queued again while retries remain and
  dead-lettered otherwise; a deferred run leaves it to the background runner.  A time-out raised by
  the task itself counts as one even when no ceiling was set, and is never retried.
\<close>

theorem dispatch_outcomes:
  assumes "accepted (can_claim env row)"
    "run_task env row (run_ceiling env row) (queue w) = (oc, tbl)"
    "row_at (task_id row) tbl = Some r" "owner_id r = Some (runner env)" "timestamp r = timestamp row"
  shows "\<exists>r'. row_at (task_id row) (queue (snd (dispatch_one env row w))) = Some r' \<and>
    status r' = status_after (hard_cap env) r oc"
proof -
  have "queue (snd (dispatch_one env row w)) = snd (finish_run env row oc tbl)"
    using assms(1,2) by (simp add: dispatch_one_def Let_def split: prod.splits)
  moreover have "\<exists>r'. row_at (task_id row) (snd (finish_run env row oc tbl)) = Some r' \<and>
      status r' = status_after (hard_cap env) r oc"
    using assms(3)
    by (cases oc) (simp_all add: finish_run_def Let_def status_after_def
        row_at_continue_if [OF row_at_guarded(1) [OF assms(3-5)]]
        row_at_continue_if [OF row_at_guarded(2) [OF assms(3-5)]]
        row_at_continue_if [OF row_at_guarded(3) [OF assms(3-5)]]
        row_at_guarded(3) [OF assms(3-5)] complete_set_def dead_letter_set_def fail_set_def retry_set_def)
  ultimately show ?thesis by simp
qed

text \<open>A write whose guard matches no row changes nothing and triggers no continuation.\<close>

lemma no_match:
  assumes "unique_ids tbl" "row_at tid tbl = Some r" "owner_id r \<noteq> Some own"
  shows "complete_task tid fin out (Some own) ts tbl = (False, tbl)"
    "dead_letter_task tid fin msg (Some own) ts tbl = (False, tbl)"
    "fail_task cap now tid fin msg retry (Some own) ts tbl = (False, tbl)"
proof -
  have g: "\<not> write_guard tid ts (Some own) x" if "x \<in> set tbl" for x
  proof (cases "task_id x = tid")
    case True
    then have "x = r" using unique_ids_inj [OF assms(1) that] row_at_SomeD [OF assms(2)] by simp
    then show ?thesis using assms(3) by (simp add: write_guard_def)
  qed (simp add: write_guard_def)
  then have "filter (write_guard tid ts (Some own)) tbl = []" "sql_update (write_guard tid ts (Some own)) f tbl = tbl" for f
    by (auto simp: filter_empty_conv sql_update_def intro: map_idI)
  then show "complete_task tid fin out (Some own) ts tbl = (False, tbl)"
    "dead_letter_task tid fin msg (Some own) ts tbl = (False, tbl)"
    "fail_task cap now tid fin msg retry (Some own) ts tbl = (False, tbl)"
    by (simp_all add: complete_task_def dead_letter_task_def fail_task_def Let_def rowcount_def returning_def)
qed

text \<open>
  C21. A lost lease has no effect.  When another attempt took the row over during the run, the
  worker's outcome changes nothing in the table and starts no follow-on task.
\<close>

theorem lost_attempt_has_no_effect:
  assumes "accepted (can_claim env row)"
    "run_task env row (run_ceiling env row) (queue w) = (oc, tbl)" "unique_ids tbl"
    "row_at (task_id row) tbl = Some r" "owner_id r \<noteq> Some (runner env)"
  shows "queue (snd (dispatch_one env row w)) = tbl \<and>
    fst (dispatch_one env row w) \<in> {Finished None, DeferredRun, Cancelled}"
proof -
  have "finish_run env row oc tbl \<in> {(Finished None, tbl), (DeferredRun, tbl), (Cancelled, tbl)}"
    by (cases oc) (simp_all add: finish_run_def Let_def continue_if_def no_match [OF assms(3-5)])
  moreover have "queue (snd (dispatch_one env row w)) = snd (finish_run env row oc tbl)"
    "fst (dispatch_one env row w) = fst (finish_run env row oc tbl)"
    using assms(1,2) by (simp_all add: dispatch_one_def Let_def split: prod.splits)
  ultimately show ?thesis by auto
qed

text \<open>A sample environment: a verdict and a run that ends in a given outcome without other effects.\<close>

definition plain_action :: action where
  "plain_action = \<lparr>verb = ActReport, process = None, payload = []\<rparr>"

definition sample_disp :: "verdict \<Rightarrow> run_outcome \<Rightarrow> disp_env" where
  "sample_disp v oc = \<lparr>
     runner = ''w2'', hard_cap = 5, clock = 2100, db_clock = 2100, claim_reject_backoff = 30,
     can_claim = (\<lambda>_. v), required_capability = (\<lambda>_. Some ''cap''),
     the_oracle = \<lparr>live_before = False, lock_granted = True, live_inside = Some False\<rparr>,
     capability_keys = task_type_capability_inputs_key, json_text = (\<lambda>_ _. None),
     terminal_of = (\<lambda>_. \<lparr>on_success = plain_action, on_failure = plain_action, on_timeout = plain_action,
       timeout_seconds = None\<rparr>),
     is_sync_type = (\<lambda>_. True), run_task = (\<lambda>_ _ tbl. (oc, tbl)),
     driver_inputs = (\<lambda>d. case d of None \<Rightarrow> InNone | Some kvs \<Rightarrow> InDict kvs), py_repr = (\<lambda>s. s),
     timeout_text = (\<lambda>_. ''None''),
     route = \<lparr>rc_env = \<lparr>task_kinds = (\<lambda>_. None), default_title = JNone, correlation_id = None\<rparr>,
       rc_lib = plain_lib, rc_now = 2100, rc_new_id = 9, rc_created = 2100\<rparr>\<rparr>"

definition sample_claim :: claim_cfg where
  "sample_claim = \<lparr>async_types = [''ingest''], sync_types = [], visibility_timeout = 300,
     claimant = ''w2'', task_lookback = 5000, t0 = 2000, t1 = 2000, db_now = 2000\<rparr>"

lemma sample_claimed:
  "fst (claim_batch 5 sample_claim 10 (\<lambda>_. False) [sample_row\<lparr>status := PENDING\<rparr>]) =
     [(batch_set sample_claim (sample_row\<lparr>status := PENDING\<rparr>), error_message sample_row)]"
  by (simp add: claim_batch_def Let_def batch_locked_def batch_candidates_def batch_eligible_def
      pending_visible_def mode_filter_def sample_claim_def)

lemma can_claim_sample: "can_claim (sample_disp v oc) r = v"
  by (simp add: sample_disp_def)

theorem reactive_dlq_never_fires_witness:
  "fst (dispatch_one (sample_disp (Answers False) Deferred)
      (batch_set sample_claim (sample_row\<lparr>status := PENDING\<rparr>))
      \<lparr>queue = snd (claim_batch 5 sample_claim 10 (\<lambda>_. False) [sample_row\<lparr>status := PENDING\<rparr>]), owned = []\<rparr>) = Released"
  using reactive_dlq_never_fires [of "[sample_row\<lparr>status := PENDING\<rparr>]"
      "batch_set sample_claim (sample_row\<lparr>status := PENDING\<rparr>)" "error_message sample_row" 5 sample_claim 10
      "\<lambda>_. False" "sample_disp (Answers False) Deferred" _ "[]"]
  by (simp add: unique_ids_def sample_claimed can_claim_sample)

definition running_row :: task_row where
  "running_row = sample_row\<lparr>owner_id := Some ''w2''\<rparr>"

theorem dispatch_outcomes_witness:
  "\<exists>r'. row_at (task_id running_row) (queue (snd (dispatch_one (sample_disp NoPredicate RaisedTimeout) running_row
      \<lparr>queue = [running_row], owned = []\<rparr>))) = Some r' \<and>
    status r' = status_after (hard_cap (sample_disp NoPredicate RaisedTimeout)) running_row RaisedTimeout"
  by (rule dispatch_outcomes [where tbl = "[running_row]"])
    (simp_all add: sample_disp_def accepted_def running_row_def)

theorem lost_attempt_has_no_effect_witness:
  "queue (snd (dispatch_one (sample_disp NoPredicate (RaisedOther ''boom'')) running_row
      \<lparr>queue = [sample_row], owned = []\<rparr>)) = [sample_row]"
  using lost_attempt_has_no_effect [of "sample_disp NoPredicate (RaisedOther ''boom'')" running_row
      "\<lparr>queue = [sample_row], owned = []\<rparr>" "RaisedOther ''boom''" "[sample_row]" sample_row]
  by (simp add: sample_disp_def accepted_def running_row_def unique_ids_def)

section \<open>Continuation chains\<close>

text \<open>
  A chain of ROUTE continuations: each hop forwards the inputs of the previous one, as the driver
  returns them, with its own payload.
\<close>

fun route_chain :: "pylib \<Rightarrow> (dict \<Rightarrow> seen_inputs) \<Rightarrow> dict list \<Rightarrow> dict \<Rightarrow> dict option" where
  "route_chain lib drv [] d = Some d"
| "route_chain lib drv (p # ps) d =
     (case route_inputs lib (drv d) p of None \<Rightarrow> None | Some d' \<Rightarrow> route_chain lib drv ps d')"

lemma route_depth_dset:
  "lib_int lib (JInt i) = Inr i \<Longrightarrow> route_depth lib (dset route_depth_key (JInt i) d) = i"
  by (simp add: route_depth_def dget_or_def)

lemma route_chain_depth:
  assumes "\<And>i. lib_int lib (JInt i) = Inr i"
  shows "route_chain lib InDict ps d \<noteq> None \<longleftrightarrow> ps = [] \<or> route_depth lib d + int (length ps) \<le> max_route_depth"
proof (induction ps arbitrary: d)
  case (Cons p ps)
  show ?case
  proof (cases "max_route_depth \<le> route_depth lib d")
    case True
    then show ?thesis by (simp add: route_inputs_def base_inputs_def)
  next
    case False
    let ?d = "dset route_depth_key (JInt (route_depth lib d + 1)) (merge_dict d p)"
    have "route_chain lib InDict (p # ps) d = route_chain lib InDict ps ?d"
      using False by (simp add: route_inputs_def base_inputs_def Let_def)
    then show ?thesis using Cons.IH [of ?d] False by (auto simp: route_depth_dset [OF assms])
  qed
qed simp

text \<open>
  C22. Continuation chains end.  When the driver decodes the inputs column, a chain of ROUTE
  continuations from a task that carries no hop count is followed for up to sixteen hops and refused
  after that, whatever payloads the actions add, so cycles of routed tasks stop.
\<close>

theorem route_chain_bounded:
  assumes "\<And>i. lib_int lib (JInt i) = Inr i" "map_of d route_depth_key = None"
  shows "route_chain lib InDict ps d \<noteq> None \<longleftrightarrow> length ps \<le> 16"
proof -
  have "route_depth lib d = 0" using assms by (simp add: route_depth_def dget_or_def)
  then show ?thesis using route_chain_depth [OF assms(1), of ps d] by (auto simp: max_route_depth_def)
qed

lemma plain_lib_int: "lib_int plain_lib (JInt i) = Inr i"
  by (simp add: plain_lib_def)

theorem route_chain_bounded_witness:
  "route_chain plain_lib InDict (replicate 17 []) [(''n'', JInt 1)] = None"
  using route_chain_bounded [of plain_lib "[(''n'', JInt 1)]" "replicate 17 []"]
  by (simp add: plain_lib_int route_depth_key_def)

lemma route_text_step:
  assumes "\<And>i. lib_int lib (JInt i) = Inr i"
  shows "route_inputs lib (InText (enc d)) p = Some (dset route_depth_key (JInt 1) (merge_dict [] p))"
  using assms by (simp add: route_inputs_def base_inputs_def route_depth_def dget_or_def max_route_depth_def)

text \<open>
  The hop limit is lost when the inputs arrive as JSON text, which is what the dispatcher passes
  on: the rows of \<open>claim_batch\<close> are not decoded.  Every hop then starts from empty inputs with hop
  count one, so the original inputs are dropped and chains of any length are followed.
\<close>

theorem route_chain_unbounded_on_text:
  assumes "\<And>i. lib_int lib (JInt i) = Inr i"
  shows "route_chain lib (\<lambda>d. InText (enc d)) (ps @ [p]) d =
    Some (dset route_depth_key (JInt 1) (merge_dict [] p))"
  by (induction ps arbitrary: d) (simp_all add: route_text_step [OF assms])

theorem route_chain_unbounded_on_text_witness:
  "route_chain plain_lib (\<lambda>d. InText ''{}'') (replicate 100 [] @ [[]]) [(''n'', JInt 1)] =
    Some (dset route_depth_key (JInt 1) (merge_dict [] []))"
  by (rule route_chain_unbounded_on_text) (rule plain_lib_int)

section \<open>Recall of mandatory tasks\<close>

lemma requeue_single:
  assumes "unique_ids tbl" "row_at tid tbl = Some r" "requeueable r" "length tbl \<le> 1000"
  shows "row_at tid (snd (requeue_dead_letter_tasks_by_type f (task_type r) None 1000 True [] tbl)) =
    Some (requeue_set True r)"
proof -
  have r: "r \<in> set tbl" using row_at_SomeD [OF assms(2)] by simp
  have "length (filter (\<lambda>r'. requeueable r' \<and> task_type r' = task_type r) tbl) \<le> 1000"
    using assms(4) length_filter_le [of _ tbl] le_trans by blast
  then have "r \<in> set (requeue_victims f (task_type r) None 1000 [] tbl)"
    using r assms(3) by (simp add: requeue_victims_def)
  then show ?thesis using assms(2)
    by (simp add: requeue_dead_letter_tasks_by_type_def Let_def row_at_sql_update)
qed

text \<open>One cycle of a mandatory task that fails permanently: claimed, failed, recalled by the sweep.\<close>

definition recall_cycle :: "task_spec \<Rightarrow> nat \<Rightarrow> string \<Rightarrow> string \<Rightarrow> table \<Rightarrow> table" where
  "recall_cycle spec tid schema w tbl =
     snd (auto_requeue_recovered_mandatory [spec] [(task_key spec, [affinity_tier spec])]
       (snd (fail_task 5 0 tid 0 ''permanent'' False (Some w) None
         (snd (claim_for_execution tid schema w 300 0 0 tbl)))))"

lemma recall_cycle_step:
  assumes "unique_ids tbl" "length tbl \<le> 1000" "mandatory spec" "row_at tid tbl = Some r" "status r = PENDING"
    "catalog_id r = schema" "task_type r = task_key spec"
  shows "\<exists>r'. row_at tid (recall_cycle spec tid schema w tbl) = Some r' \<and> status r' = PENDING \<and>
      retry_count r' = 0 \<and> catalog_id r' = schema \<and> task_type r' = task_key spec"
    "unique_ids (recall_cycle spec tid schema w tbl)" "length (recall_cycle spec tid schema w tbl) \<le> 1000"
proof -
  let ?c = "snd (claim_for_execution tid schema w 300 0 0 tbl)"
  let ?f = "snd (fail_task 5 0 tid 0 ''permanent'' False (Some w) None ?c)"
  let ?r = "fail_set 0 ''permanent'' (execution_set w 300 0 r)"
  have id: "task_id r = tid" using row_at_SomeD [OF assms(4)] by simp
  have "execution_claimable tid schema w 0 r"
    using assms(5,6) id by (simp add: execution_claimable_def foreign_live_lease_def)
  then have "row_at tid ?c = Some (execution_set w 300 0 r)"
    using assms(4) by (simp add: claim_for_execution_def Let_def row_at_sql_update)
  then have f: "row_at tid ?f = Some ?r"
    using id by (simp add: fail_task_def Let_def row_at_sql_update write_guard_def execution_set_def)
  have u: "unique_ids ?f"
    using assms(1) by (simp add: fail_task_def claim_for_execution_def Let_def unique_sql_update)
  have l: "length ?f \<le> 1000"
    using assms(2) by (simp add: fail_task_def claim_for_execution_def Let_def sql_update_def)
  have spec: "recall_cycle spec tid schema w tbl =
      snd (requeue_dead_letter_tasks_by_type (\<lambda>_ _. None) (task_key spec) None 1000 True [] ?f)"
    using assms(3)
    by (auto simp: recall_cycle_def auto_requeue_recovered_mandatory_def mandatory_specs_def
        has_correct_tier_owner_def dget_or_def Let_def split: option.splits prod.splits sum.splits)
  have tt: "task_type ?r = task_key spec" "requeueable ?r"
    using assms(7) by (simp_all add: fail_set_def execution_set_def requeueable_def)
  show "\<exists>r'. row_at tid (recall_cycle spec tid schema w tbl) = Some r' \<and> status r' = PENDING \<and>
      retry_count r' = 0 \<and> catalog_id r' = schema \<and> task_type r' = task_key spec"
    using requeue_single [OF u f tt(2) l] assms(6,7) unfolding spec tt(1)
    by (simp add: requeue_set_def fail_set_def execution_set_def)
  show "unique_ids (recall_cycle spec tid schema w tbl)" "length (recall_cycle spec tid schema w tbl) \<le> 1000"
    using u l unfolding spec
    by (simp_all add: requeue_dead_letter_tasks_by_type_def Let_def unique_sql_update)
      (simp add: sql_update_def)
qed

text \<open>
  Recalled mandatory tasks retry forever.  The recall is documented for rows dead-lettered while
  their tier was down, but it also requeues rows that failed permanently, with their counter reset:
  a mandatory task that fails permanently each time is pending again after every cycle, and neither
  its retry budget nor the hard cap ever stops it.
\<close>

theorem mandatory_recall_unbounded:
  assumes "unique_ids tbl" "length tbl \<le> 1000" "mandatory spec" "row_at tid tbl = Some r" "status r = PENDING"
    "catalog_id r = schema" "task_type r = task_key spec"
  shows "\<exists>r'. row_at tid ((recall_cycle spec tid schema w ^^ n) tbl) = Some r' \<and> status r' = PENDING"
proof -
  have "unique_ids ((recall_cycle spec tid schema w ^^ n) tbl) \<and>
      length ((recall_cycle spec tid schema w ^^ n) tbl) \<le> 1000 \<and>
      (\<exists>r'. row_at tid ((recall_cycle spec tid schema w ^^ n) tbl) = Some r' \<and> status r' = PENDING \<and>
         catalog_id r' = schema \<and> task_type r' = task_key spec)"
  proof (induction n)
    case (Suc n)
    let ?t = "(recall_cycle spec tid schema w ^^ n) tbl"
    from Suc obtain r1 where r1: "unique_ids ?t" "length ?t \<le> 1000" "row_at tid ?t = Some r1"
      "status r1 = PENDING" "catalog_id r1 = schema" "task_type r1 = task_key spec" by blast
    show ?case
      using recall_cycle_step [OF r1(1,2) assms(3) r1(3-6), of w] by auto
  qed (use assms in auto)
  then show ?thesis by blast
qed

theorem mandatory_recall_unbounded_witness:
  "\<exists>r'. row_at 7 ((recall_cycle \<lparr>task_key = ''ingest'', mandatory = True, affinity_tier = None\<rparr> 7 ''c1'' ''w'' ^^ 100)
      [sample_row\<lparr>status := PENDING\<rparr>]) = Some r' \<and> status r' = PENDING"
  by (rule mandatory_recall_unbounded [where r = "sample_row\<lparr>status := PENDING\<rparr>"]) (simp_all add: unique_ids_def)

text \<open>
  Worker processes of one host share their identity.  With \<open>NAME\<close> set and no \<open>RUNNER_ID\<close>, the
  runner identity does not depend on the process, so the owner guard cannot tell them apart.
\<close>

theorem runner_id_shared:
  "env_name \<noteq> [] \<Longrightarrow> runner_id [] env_name hostname pid1 = runner_id [] env_name hostname pid2"
  by (simp add: runner_id_def)

theorem runner_id_shared_witness:
  "runner_id [] ''catalog'' ''pod-1'' 17 = runner_id [] ''catalog'' ''pod-1'' 18"
  by (rule runner_id_shared) simp

end
