(* ===== verification/Task_Listing.thy ===== *)
theory Task_Listing
  imports Task_Lifecycle
begin

text \<open>
  Paged listings of the task API: the keyset queries of \<open>list_tasks\<close>, \<open>list_tasks_system\<close> and
  \<open>list_dead_letter_tasks\<close>, and the page helper of the tasks extension.  A cursor stands for the
  creation time and id that its base64 text encodes.
\<close>

section \<open>Queries\<close>

type_synonym cursor = "time \<times> nat"

definition encode_cursor :: "task_row \<Rightarrow> cursor" where
  "encode_cursor r = (timestamp r, task_id r)"

record task_filter =
  f_kind :: "string option"
  f_status :: "task_status option"
  f_task_type :: "string option"
  f_collection_id :: "string option"
  f_asset_id :: "string option"
  f_created_before :: "time option"

definition opt_eq :: "'a option \<Rightarrow> 'a \<Rightarrow> bool" where
  "opt_eq f v \<longleftrightarrow> (case f of None \<Rightarrow> True | Some x \<Rightarrow> v = x)"

text \<open>The filters; \<open>asset_of\<close> is the text of \<open>inputs->>'asset_id'\<close>.\<close>

definition filter_match :: "(dict option \<Rightarrow> string option) \<Rightarrow> task_filter \<Rightarrow> task_row \<Rightarrow> bool" where
  "filter_match asset_of tf r \<longleftrightarrow>
     opt_eq (f_kind tf) (type_kind r) \<and> opt_eq (f_status tf) (status r) \<and>
     opt_eq (f_task_type tf) (task_type r) \<and>
     (case f_collection_id tf of None \<Rightarrow> True | Some c \<Rightarrow> collection_id r = Some c) \<and>
     (case f_asset_id tf of None \<Rightarrow> True | Some a \<Rightarrow> asset_of (inputs r) = Some a) \<and>
     (case f_created_before tf of None \<Rightarrow> True | Some t \<Rightarrow> timestamp r < t)"

definition before_cursor :: "cursor \<Rightarrow> task_row \<Rightarrow> bool" where
  "before_cursor c r \<longleftrightarrow> timestamp r < fst c \<or> (timestamp r = fst c \<and> task_id r < snd c)"

text \<open>\<open>ORDER BY timestamp DESC, task_id DESC\<close>.\<close>

definition newest_first :: "table \<Rightarrow> table" where
  "newest_first tbl = sort_key (\<lambda>r. - timestamp r) (sort_key (\<lambda>r. - int (task_id r)) tbl)"

definition keyset_query :: "(task_row \<Rightarrow> bool) \<Rightarrow> nat \<Rightarrow> nat \<Rightarrow> cursor option \<Rightarrow> table \<Rightarrow> table" where
  "keyset_query p limit offset cur tbl =
     (case cur of
        Some c \<Rightarrow> take limit (newest_first (filter (\<lambda>r. p r \<and> before_cursor c r) tbl))
      | None \<Rightarrow> take limit (drop offset (newest_first (filter p tbl))))"

definition list_tasks ::
    "(dict option \<Rightarrow> string option) \<Rightarrow> string \<Rightarrow> nat \<Rightarrow> nat \<Rightarrow> task_filter \<Rightarrow> cursor option \<Rightarrow> table \<Rightarrow> table" where
  "list_tasks asset_of schema limit offset tf cur tbl =
     keyset_query (\<lambda>r. catalog_id r = schema \<and> filter_match asset_of tf r) limit offset cur tbl"

definition list_tasks_system ::
    "(dict option \<Rightarrow> string option) \<Rightarrow> nat \<Rightarrow> task_filter \<Rightarrow> cursor option \<Rightarrow> table \<Rightarrow> table" where
  "list_tasks_system asset_of limit tf cur tbl =
     keyset_query (\<lambda>r. catalog_id r \<in> {''system'', ''platform''} \<and>
       filter_match asset_of (tf\<lparr>f_collection_id := None\<rparr>) r) limit 0 cur tbl"

section \<open>Pages\<close>

text \<open>\<open>_to_task_page\<close>: the cursor is the first row that did not fit.\<close>

definition to_task_page :: "table \<Rightarrow> nat \<Rightarrow> table \<times> cursor option" where
  "to_task_page rows limit =
     (if length rows > limit then (take limit rows, Some (encode_cursor (rows ! limit))) else (rows, None))"

definition list_tasks_catalog ::
    "(dict option \<Rightarrow> string option) \<Rightarrow> string \<Rightarrow> nat \<Rightarrow> task_filter \<Rightarrow> cursor option \<Rightarrow> table \<Rightarrow> table \<times> cursor option" where
  "list_tasks_catalog asset_of schema limit tf cur tbl =
     to_task_page (list_tasks asset_of schema (limit + 1) 0 tf cur tbl) limit"

definition list_tasks_system_view ::
    "(dict option \<Rightarrow> string option) \<Rightarrow> nat \<Rightarrow> task_filter \<Rightarrow> cursor option \<Rightarrow> table \<Rightarrow> table \<times> cursor option" where
  "list_tasks_system_view asset_of limit tf cur tbl =
     to_task_page (list_tasks_system asset_of (limit + 1) tf cur tbl) limit"

definition list_dead_letter_catalog ::
    "string option \<Rightarrow> string option \<Rightarrow> nat \<Rightarrow> cursor option \<Rightarrow> table \<Rightarrow> table \<times> cursor option" where
  "list_dead_letter_catalog cat tt limit cur tbl =
     to_task_page (list_dead_letter_tasks cat None tt (limit + 1) cur tbl) limit"

text \<open>A client that follows the cursors for up to \<open>n\<close> requests.\<close>

fun walk :: "nat \<Rightarrow> (cursor option \<Rightarrow> table \<times> cursor option) \<Rightarrow> cursor option \<Rightarrow> table" where
  "walk 0 page cur = []"
| "walk (Suc n) page cur =
     (let (items, nxt) = page cur
      in items @ (case nxt of None \<Rightarrow> [] | Some c \<Rightarrow> walk n page (Some c)))"

section \<open>What a client sees\<close>

text \<open>All but every \<open>(L + 1)\<close>-th element.\<close>

function skim :: "nat \<Rightarrow> 'a list \<Rightarrow> 'a list" where
  "skim limit xs = take limit xs @ (if length xs > limit then skim limit (drop (Suc limit) xs) else [])"
  by pat_completeness auto
termination
  by (relation "measure (\<lambda>(l, xs). length xs)") auto

declare skim.simps [simp del]

text \<open>A listing answers a cursor with the rows after the cursor's row.\<close>

definition keyset :: "table \<Rightarrow> (cursor option \<Rightarrow> table) \<Rightarrow> bool" where
  "keyset xs listing \<longleftrightarrow> listing None = xs \<and>
     (\<forall>i < length xs. listing (Some (encode_cursor (xs ! i))) = drop (Suc i) xs)"

lemma walk_keyset:
  assumes "keyset xs listing" "listing cur = drop p xs" "p \<le> length xs" "length xs - p < n"
  shows "walk n (\<lambda>cur. to_task_page (take (Suc limit) (listing cur)) limit) cur = skim limit (drop p xs)"
  using assms(2-)
proof (induction n arbitrary: cur p)
  case (Suc n)
  let ?ys = "drop p xs"
  show ?case
  proof (cases "length ?ys > limit")
    case True
    then have len: "p + limit < length xs" by simp
    have nxt: "listing (Some (encode_cursor (xs ! (p + limit)))) = drop (Suc (p + limit)) xs"
      using assms(1) len by (simp add: keyset_def)
    have "take (Suc limit) ?ys ! limit = xs ! (p + limit)" using len by simp
    moreover have "walk n (\<lambda>cur. to_task_page (take (Suc limit) (listing cur)) limit)
        (Some (encode_cursor (xs ! (p + limit)))) = skim limit (drop (Suc (p + limit)) xs)"
      by (rule Suc.IH [OF nxt]) (use len Suc.prems(3) in auto)
    moreover have "drop (Suc limit) ?ys = drop (Suc (p + limit)) xs" by (simp add: add.commute)
    ultimately show ?thesis
      using Suc.prems(1) True by (subst skim.simps) (simp add: to_task_page_def)
  next
    case False
    then show ?thesis using Suc.prems(1) by (subst skim.simps) (simp add: to_task_page_def)
  qed
qed simp

lemma drop_after:
  assumes "sorted_wrt R xs" "\<And>a b. R a b \<Longrightarrow> \<not> R b a" "\<And>a. \<not> R a a" "i < length xs"
  shows "filter (R (xs ! i)) xs = drop (Suc i) xs"
proof -
  have "xs = take i xs @ xs ! i # drop (Suc i) xs" using assms(4) by (rule id_take_nth_drop)
  moreover have "filter (R (xs ! i)) (take i xs) = []"
    using assms by (auto simp: filter_empty_conv in_set_conv_nth sorted_wrt_iff_nth_less)
  moreover have "filter (R (xs ! i)) (drop (Suc i) xs) = drop (Suc i) xs"
    using assms by (auto simp: filter_id_conv in_set_conv_nth sorted_wrt_iff_nth_less)
  ultimately show ?thesis using assms(3) by (metis append_Nil filter.simps(2) filter_append)
qed

lemma newest_first_sorted:
  assumes "unique_ids tbl"
  shows "sorted_wrt (\<lambda>a b. before_cursor (encode_cursor a) b) (newest_first tbl)"
proof -
  let ?s = "newest_first tbl"
  have "sorted_wrt (\<lambda>a b. - timestamp a \<le> - timestamp b) ?s"
    unfolding newest_first_def using sorted_sort_key [of "\<lambda>r. - timestamp r"] by (simp only: sorted_map)
  moreover have "sorted_wrt (\<lambda>a b. - timestamp a = - timestamp b \<longrightarrow> - int (task_id a) \<le> - int (task_id b)) ?s"
    unfolding newest_first_def by (rule sort_key_groups)
  moreover have "distinct (map task_id ?s)"
    using assms by (simp add: unique_ids_def distinct_map newest_first_def)
  ultimately show ?thesis
    by (auto simp: sorted_wrt_iff_nth_less before_cursor_def encode_cursor_def distinct_conv_nth)
      (metis (no_types, lifting) less_le_not_le linorder_less_linear nat_less_le not_less_iff_gr_or_eq order.strict_trans)+
qed

lemma skim_nths: "skim limit xs = nths xs {i. i mod Suc limit \<noteq> limit}"
proof (induction limit xs rule: skim.induct)
  case (1 limit xs)
  let ?A = "{i. i mod Suc limit \<noteq> limit}"
  show ?case
  proof (cases "length xs > limit")
    case True
    then have xs: "xs = take limit xs @ xs ! limit # drop (Suc limit) xs" by (rule id_take_nth_drop)
    have "nths (take limit xs) ?A = take limit xs"
      using True by (intro nths_all) auto
    moreover have "nths (xs ! limit # drop (Suc limit) xs) {j. j + limit \<in> ?A} = nths (drop (Suc limit) xs) ?A"
    proof -
      have "(Suc j + limit) mod Suc limit = j mod Suc limit" for j
        by (metis add_Suc_shift mod_add_self2)
      then have "{j. Suc j + limit \<in> ?A} = ?A" by simp
      then show ?thesis by (simp add: nths_Cons)
    qed
    ultimately have "nths xs ?A = take limit xs @ nths (drop (Suc limit) xs) ?A"
      using True by (subst xs) (simp add: nths_append)
    then show ?thesis using 1 True by (subst skim.simps) simp
  next
    case False
    then have "nths xs ?A = xs" by (intro nths_all) auto
    then show ?thesis using False by (subst skim.simps) simp
  qed
qed

lemma keyset_newest:
  assumes "unique_ids tbl"
  shows "keyset (newest_first (filter p tbl))
    (\<lambda>cur. case cur of None \<Rightarrow> newest_first (filter p tbl)
       | Some c \<Rightarrow> newest_first (filter (\<lambda>r. p r \<and> before_cursor c r) tbl))"
proof -
  let ?xs = "newest_first (filter p tbl)"
  have "unique_ids (filter p tbl)" using assms by (simp add: unique_ids_def distinct_map inj_on_def)
  then have "sorted_wrt (\<lambda>a b. before_cursor (encode_cursor a) b) ?xs" by (rule newest_first_sorted)
  then have "filter (before_cursor (encode_cursor (?xs ! i))) ?xs = drop (Suc i) ?xs" if "i < length ?xs" for i
    by (rule drop_after) (use that in \<open>auto simp: before_cursor_def encode_cursor_def\<close>)
  moreover have "filter (before_cursor c) ?xs = newest_first (filter (\<lambda>r. p r \<and> before_cursor c r) tbl)" for c
    by (simp add: newest_first_def filter_sort conj_commute)
  ultimately show ?thesis by (simp add: keyset_def)
qed

text \<open>
  C40. Paging loses tasks.  The cursor of a page names the first task that did not fit, and the next
  page starts strictly after it: a client that follows the cursors of a tenant's listing to the end
  receives all tasks except every \<open>(limit + 1)\<close>-th, which no page ever contains.
\<close>

theorem task_pages_lose_rows:
  assumes "unique_ids tbl" "xs = list_tasks asset_of schema (length tbl) 0 tf None tbl" "length xs < n"
  shows "walk n (\<lambda>cur. list_tasks_catalog asset_of schema limit tf cur tbl) None =
    nths xs {i. i mod Suc limit \<noteq> limit}"
proof -
  let ?p = "\<lambda>r. catalog_id r = schema \<and> filter_match asset_of tf r"
  let ?l = "\<lambda>cur. case cur of None \<Rightarrow> newest_first (filter ?p tbl)
     | Some c \<Rightarrow> newest_first (filter (\<lambda>r. ?p r \<and> before_cursor c r) tbl)"
  have xs: "xs = newest_first (filter ?p tbl)"
    by (simp add: assms(2) list_tasks_def keyset_query_def newest_first_def)
  have page: "(\<lambda>cur. list_tasks_catalog asset_of schema limit tf cur tbl) =
      (\<lambda>cur. to_task_page (take (Suc limit) (?l cur)) limit)"
    by (auto simp: list_tasks_catalog_def list_tasks_def keyset_query_def fun_eq_iff split: option.splits)
  have "walk n (\<lambda>cur. to_task_page (take (Suc limit) (?l cur)) limit) None = skim limit (drop 0 xs)"
  proof (rule walk_keyset)
    show "keyset xs ?l" unfolding xs by (rule keyset_newest [OF assms(1)])
  qed (use assms(3) in \<open>simp_all add: xs\<close>)
  then show ?thesis unfolding page by (simp add: skim_nths)
qed

definition no_filter :: task_filter where
  "no_filter = \<lparr>f_kind = None, f_status = None, f_task_type = None, f_collection_id = None,
     f_asset_id = None, f_created_before = None\<rparr>"

theorem task_pages_lose_rows_witness:
  "walk 3 (\<lambda>cur. list_tasks_catalog (\<lambda>_. None) ''c1'' 1 no_filter cur
       [sample_row, sample_row\<lparr>task_id := 8, timestamp := 50\<rparr>]) None =
     nths [sample_row, sample_row\<lparr>task_id := 8, timestamp := 50\<rparr>] {i. i mod Suc 1 \<noteq> 1}"
proof (rule task_pages_lose_rows)
  show "[sample_row, sample_row\<lparr>task_id := 8, timestamp := 50\<rparr>] =
      list_tasks (\<lambda>_. None) ''c1'' (length [sample_row, sample_row\<lparr>task_id := 8, timestamp := 50\<rparr>]) 0 no_filter None
        [sample_row, sample_row\<lparr>task_id := 8, timestamp := 50\<rparr>]"
    by (simp add: list_tasks_def keyset_query_def newest_first_def filter_match_def no_filter_def opt_eq_def)
qed (simp_all add: unique_ids_def)

end
