(* ===== verification/Circuit_Breaker.thy ===== *)
theory Circuit_Breaker
  imports Py_Values
begin

text \<open>
  The per-indexer circuit breaker of \<open>modules/storage/circuit_breaker.py\<close>.  Its methods hold one lock,
  so each is an atomic step on the breaker's state at one reading of the monotonic clock.  The
  theory shows when a breaker opens, how long it stays open and that it lets a probe through
  again, along arbitrary interleavings of calls for all indexers.
\<close>

section \<open>State and operations\<close>

datatype circuit_state = CLOSED | OPEN | HALF_OPEN

record indexer_circuit =
  state :: circuit_state
  consecutive_failures :: nat
  opened_at :: "rat option"

definition new_circuit :: indexer_circuit where
  "new_circuit = \<lparr>state = CLOSED, consecutive_failures = 0, opened_at = None\<rparr>"

record breaker =
  threshold :: int
  cooldown :: rat
  circuits :: "string \<Rightarrow> indexer_circuit option"

text \<open>The constructor.\<close>

definition circuit_breaker :: "int \<Rightarrow> rat \<Rightarrow> py_exn + breaker" where
  "circuit_breaker failure_threshold cooldown_seconds =
     (if failure_threshold < 1 then Inl ValueError
      else if cooldown_seconds \<le> 0 then Inl ValueError
      else Inr \<lparr>threshold = failure_threshold, cooldown = cooldown_seconds, circuits = Map.empty\<rparr>)"

definition cooled :: "breaker \<Rightarrow> rat \<Rightarrow> indexer_circuit \<Rightarrow> bool" where
  "cooled b now c \<longleftrightarrow> (case opened_at c of None \<Rightarrow> False | Some t \<Rightarrow> cooldown b \<le> now - t)"

definition is_open :: "string \<Rightarrow> rat \<Rightarrow> breaker \<Rightarrow> bool \<times> breaker" where
  "is_open i now b =
     (case circuits b i of
        None \<Rightarrow> (False, b)
      | Some c \<Rightarrow>
          (case state c of
             CLOSED \<Rightarrow> (False, b)
           | HALF_OPEN \<Rightarrow> (False, b)
           | OPEN \<Rightarrow>
               if cooled b now c
               then (False, b\<lparr>circuits := (circuits b)(i \<mapsto> c\<lparr>state := HALF_OPEN\<rparr>)\<rparr>)
               else (True, b)))"

definition record_success :: "string \<Rightarrow> breaker \<Rightarrow> breaker" where
  "record_success i b =
     (case circuits b i of
        None \<Rightarrow> b
      | Some c \<Rightarrow> b\<lparr>circuits := (circuits b)(i \<mapsto> new_circuit)\<rparr>)"

definition failed_circuit :: "int \<Rightarrow> rat \<Rightarrow> indexer_circuit \<Rightarrow> indexer_circuit" where
  "failed_circuit thr now c =
     (let n = consecutive_failures c + 1
      in (case state c of
            HALF_OPEN \<Rightarrow> \<lparr>state = OPEN, consecutive_failures = n, opened_at = Some now\<rparr>
          | CLOSED \<Rightarrow>
              if thr \<le> int n then \<lparr>state = OPEN, consecutive_failures = n, opened_at = Some now\<rparr>
              else c\<lparr>consecutive_failures := n\<rparr>
          | OPEN \<Rightarrow> c\<lparr>consecutive_failures := n\<rparr>))"

definition record_failure :: "string \<Rightarrow> rat \<Rightarrow> breaker \<Rightarrow> breaker" where
  "record_failure i now b =
     b\<lparr>circuits := (circuits b)(i \<mapsto> failed_circuit (threshold b) now
        (case circuits b i of None \<Rightarrow> new_circuit | Some c \<Rightarrow> c))\<rparr>"

definition state_of :: "string \<Rightarrow> breaker \<Rightarrow> circuit_state" where
  "state_of i b = (case circuits b i of None \<Rightarrow> CLOSED | Some c \<Rightarrow> state c)"

definition snapshot :: "breaker \<Rightarrow> string \<Rightarrow> (circuit_state \<times> nat \<times> rat option) option" where
  "snapshot b i = map_option (\<lambda>c. (state c, consecutive_failures c, opened_at c)) (circuits b i)"

definition update_thresholds :: "int \<Rightarrow> rat \<Rightarrow> breaker \<Rightarrow> py_exn + breaker" where
  "update_thresholds failure_threshold cooldown_seconds b =
     (if failure_threshold < 1 then Inl ValueError
      else if cooldown_seconds \<le> 0 then Inl ValueError
      else Inr (b\<lparr>threshold := failure_threshold, cooldown := cooldown_seconds\<rparr>))"

definition reset :: "string option \<Rightarrow> breaker \<Rightarrow> breaker" where
  "reset i b = (case i of
     None \<Rightarrow> b\<lparr>circuits := Map.empty\<rparr>
   | Some k \<Rightarrow> b\<lparr>circuits := (circuits b)(k := None)\<rparr>)"

section \<open>Traces\<close>

datatype breaker_call =
    IsOpen string rat
  | Success string
  | Failed string rat
  | Update int rat
  | Reset "string option"

fun call_step :: "breaker_call \<Rightarrow> breaker \<Rightarrow> breaker" where
  "call_step (IsOpen i now) b = snd (is_open i now b)"
| "call_step (Success i) b = record_success i b"
| "call_step (Failed i now) b = record_failure i now b"
| "call_step (Update thr cd) b = (case update_thresholds thr cd b of Inl _ \<Rightarrow> b | Inr b' \<Rightarrow> b')"
| "call_step (Reset i) b = reset i b"

inductive breaker_reach :: "(breaker_call \<Rightarrow> bool) \<Rightarrow> breaker \<Rightarrow> breaker \<Rightarrow> bool"
  for P :: "breaker_call \<Rightarrow> bool" where
  breaker_refl: "breaker_reach P b b"
| breaker_step: "breaker_reach P b b' \<Longrightarrow> P call \<Longrightarrow> breaker_reach P b (call_step call b')"

text \<open>Every circuit that is not closed knows when it opened, and the thresholds stay valid.\<close>

definition breaker_inv :: "breaker \<Rightarrow> bool" where
  "breaker_inv b \<longleftrightarrow> 1 \<le> threshold b \<and> 0 < cooldown b \<and>
     (\<forall>i c. circuits b i = Some c \<longrightarrow>
        (state c = CLOSED \<longleftrightarrow> opened_at c = None) \<and> (state c \<noteq> CLOSED \<longrightarrow> 0 < consecutive_failures c))"

lemma breaker_inv_new: "circuit_breaker thr cd = Inr b \<Longrightarrow> breaker_inv b"
  by (auto simp: circuit_breaker_def breaker_inv_def split: if_splits)

lemma failed_circuit_inv:
  assumes "state c = CLOSED \<longleftrightarrow> opened_at c = None"
  shows "(state (failed_circuit thr now c) = CLOSED \<longleftrightarrow> opened_at (failed_circuit thr now c) = None) \<and>
    0 < consecutive_failures (failed_circuit thr now c)"
  using assms by (cases "state c") (auto simp: failed_circuit_def Let_def)

lemma breaker_inv_step: "breaker_inv b \<Longrightarrow> breaker_inv (call_step call b)"
proof (cases call)
  case (Failed i now)
  assume inv: "breaker_inv b"
  let ?c = "case circuits b i of None \<Rightarrow> new_circuit | Some c \<Rightarrow> c"
  have "state ?c = CLOSED \<longleftrightarrow> opened_at ?c = None"
    using inv by (auto simp: breaker_inv_def new_circuit_def split: option.splits)
  then show ?thesis using inv Failed failed_circuit_inv [of ?c "threshold b" now]
    by (auto simp: record_failure_def breaker_inv_def)
qed (auto simp: breaker_inv_def is_open_def cooled_def record_success_def update_thresholds_def reset_def new_circuit_def
    split: option.splits circuit_state.splits if_splits)

lemma breaker_inv_reach: "breaker_reach P b b' \<Longrightarrow> breaker_inv b \<Longrightarrow> breaker_inv b'"
  by (induction rule: breaker_reach.induct) (auto intro: breaker_inv_step)

section \<open>Opening\<close>

text \<open>Consecutive failures of one indexer at the given times.\<close>

definition fail_at :: "string \<Rightarrow> rat list \<Rightarrow> breaker \<Rightarrow> breaker" where
  "fail_at i ts b = fold (record_failure i) ts b"

lemma fail_at_closed:
  assumes "state_of i b = CLOSED" "circuits b i = None \<or> (\<exists>c. circuits b i = Some c \<and> consecutive_failures c = 0)"
    "int (length ts) < threshold b"
  shows "\<exists>c. (circuits (fail_at i ts b) i = Some c \<and> state c = CLOSED \<and> consecutive_failures c = length ts) \<or>
      (ts = [] \<and> circuits (fail_at i ts b) i = None)"
    and "threshold (fail_at i ts b) = threshold b"
  using assms(3)
proof (induction ts rule: rev_induct)
  case Nil
  { case 1 then show ?case using assms by (auto simp: fail_at_def state_of_def split: option.splits)
  next case 2 then show ?case by (simp add: fail_at_def) }
next
  case (snoc t ts)
  { case 1
    then show ?case using snoc
      by (auto simp: fail_at_def record_failure_def failed_circuit_def new_circuit_def Let_def)
  next
    case 2
    then show ?case using snoc by (auto simp: fail_at_def record_failure_def) }
qed

text \<open>
  The breaker opens exactly at the threshold.  From a closed circuit without failures, \<open>n\<close>
  consecutive failures leave it closed while \<open>n\<close> is below the threshold, and the failure that
  reaches the threshold opens it at that moment.
\<close>

theorem opens_exactly_at_threshold:
  assumes "breaker_inv b" "circuits b i = None \<or> circuits b i = Some new_circuit"
    "int (length ts) \<le> threshold b"
  shows "state_of i (fail_at i ts b) = (if int (length ts) < threshold b then CLOSED else OPEN) \<and>
    (int (length ts) = threshold b \<longrightarrow>
       (\<exists>c. circuits (fail_at i ts b) i = Some c \<and> opened_at c = Some (last ts)))"
proof -
  have closed: "state_of i b = CLOSED" using assms(2) by (auto simp: state_of_def new_circuit_def)
  have zero: "circuits b i = None \<or> (\<exists>c. circuits b i = Some c \<and> consecutive_failures c = 0)"
    using assms(2) by (auto simp: new_circuit_def)
  show ?thesis
  proof (cases "int (length ts) < threshold b")
    case True
    then show ?thesis using fail_at_closed(1) [OF closed zero True] by (auto simp: state_of_def)
  next
    case False
    then have len: "int (length ts) = threshold b" using assms(3) by simp
    moreover have "1 \<le> threshold b" using assms(1) by (simp add: breaker_inv_def)
    ultimately obtain us t where ts: "ts = us @ [t]" by (cases ts rule: rev_cases) auto
    then have us: "int (length us) < threshold b" "threshold b \<le> int (length us) + 1" using len by auto
    show ?thesis using fail_at_closed [OF closed zero us(1)] us ts
      by (auto simp: fail_at_def record_failure_def failed_circuit_def new_circuit_def state_of_def Let_def)
  qed
qed

definition sample_breaker :: breaker where
  "sample_breaker = \<lparr>threshold = 2, cooldown = 30, circuits = Map.empty\<rparr>"

theorem opens_exactly_at_threshold_witness:
  "state_of ''es'' (fail_at ''es'' [1, 2] sample_breaker) = OPEN"
  using opens_exactly_at_threshold [of sample_breaker "''es''" "[1, 2]"]
  by (simp add: sample_breaker_def breaker_inv_def)

section \<open>Staying open and probing\<close>

text \<open>
  The calls that cannot close the circuit of an indexer before a time: no success or reset for it,
  no change of thresholds, and no query at or after that time.  The exclusion of successes is
  needed: a call that was let through before the circuit opened and reports its success later closes
  it at once (\<open>late_success_closes\<close>).
\<close>

fun before_probe :: "string \<Rightarrow> rat \<Rightarrow> breaker_call \<Rightarrow> bool" where
  "before_probe i t (IsOpen j now) \<longleftrightarrow> j = i \<longrightarrow> now < t"
| "before_probe i t (Success j) \<longleftrightarrow> j \<noteq> i"
| "before_probe i t (Failed j now) \<longleftrightarrow> True"
| "before_probe i t (Update thr cd) \<longleftrightarrow> False"
| "before_probe i t (Reset j) \<longleftrightarrow> (\<exists>k. j = Some k \<and> k \<noteq> i)"

definition open_since :: "string \<Rightarrow> rat \<Rightarrow> rat \<Rightarrow> breaker \<Rightarrow> bool" where
  "open_since i t cd b \<longleftrightarrow> cooldown b = cd \<and>
     (\<exists>c. circuits b i = Some c \<and> state c = OPEN \<and> opened_at c = Some t)"

lemma open_since_step:
  assumes "open_since i t cd b" "before_probe i (t + cd) call"
  shows "open_since i t cd (call_step call b)"
  using assms
  by (cases call) (auto simp: open_since_def is_open_def cooled_def record_success_def record_failure_def
      failed_circuit_def reset_def Let_def split: option.splits circuit_state.splits)

text \<open>
  C24. An open breaker stays open for its cooldown and then lets a probe through, unless a success or
  a reset for the indexer or a change of the thresholds comes first.  Along every interleaving of
  queries, further failures and calls for other indexers, each query before the end of the cooldown
  is refused, and the first query after it is let through as a probe.
\<close>

theorem open_for_cooldown_then_probe:
  assumes "open_since i t cd b" "breaker_reach (before_probe i (t + cd)) b b'"
  shows "(now < t + cd \<longrightarrow> is_open i now b' = (True, b')) \<and>
    (t + cd \<le> now \<longrightarrow> fst (is_open i now b') = False \<and> state_of i (snd (is_open i now b')) = HALF_OPEN)"
proof -
  have "open_since i t cd b'"
    using assms(2,1) by (induction rule: breaker_reach.induct) (auto intro: open_since_step)
  then show ?thesis by (auto simp: open_since_def is_open_def cooled_def state_of_def)
qed

theorem open_for_cooldown_then_probe_witness:
  "is_open ''es'' 20 (call_step (Failed ''es'' 10) (fail_at ''es'' [1, 2] sample_breaker)) =
     (True, call_step (Failed ''es'' 10) (fail_at ''es'' [1, 2] sample_breaker)) \<and>
   fst (is_open ''es'' 40 (call_step (Failed ''es'' 10) (fail_at ''es'' [1, 2] sample_breaker))) = False"
proof -
  have o: "open_since ''es'' 2 30 (fail_at ''es'' [1, 2] sample_breaker)"
    by (simp add: open_since_def fail_at_def record_failure_def failed_circuit_def new_circuit_def
        sample_breaker_def Let_def)
  have r: "breaker_reach (before_probe ''es'' (2 + 30)) (fail_at ''es'' [1, 2] sample_breaker)
      (call_step (Failed ''es'' 10) (fail_at ''es'' [1, 2] sample_breaker))"
    by (intro breaker_step breaker_refl) simp
  show ?thesis
    using open_for_cooldown_then_probe [OF o r, of 20] open_for_cooldown_then_probe [OF o r, of 40] by simp
qed

lemma late_success_closes:
  "open_since i t cd b \<Longrightarrow> fst (is_open i now (record_success i b)) = False"
  by (auto simp: open_since_def record_success_def is_open_def new_circuit_def)

text \<open>
  C26. A breaker never stays open for good: in every reachable state, each indexer is admitted by a
  query at some later time without any further call, and a success then closes its circuit.
\<close>

theorem breaker_recovers:
  assumes "circuit_breaker thr cd = Inr b0" "breaker_reach (\<lambda>_. True) b0 b"
  shows "\<exists>t. \<forall>now \<ge> t. fst (is_open i now b) = False \<and> state_of i (record_success i (snd (is_open i now b))) = CLOSED"
proof -
  have inv: "breaker_inv b" using assms breaker_inv_new breaker_inv_reach by blast
  show ?thesis
  proof (cases "circuits b i")
    case None
    then show ?thesis by (simp add: is_open_def state_of_def record_success_def)
  next
    case (Some c)
    show ?thesis
    proof (cases "opened_at c")
      case None
      then have "state c = CLOSED" using inv Some by (auto simp: breaker_inv_def)
      then show ?thesis using Some by (simp add: is_open_def state_of_def record_success_def new_circuit_def)
    next
      case (Some t)
      have "fst (is_open i now b) = False \<and> state_of i (record_success i (snd (is_open i now b))) = CLOSED"
        if "t + cooldown b \<le> now" for now
        using that Some \<open>circuits b i = Some c\<close>
        by (cases "state c") (auto simp: is_open_def cooled_def state_of_def record_success_def new_circuit_def)
      then show ?thesis by blast
    qed
  qed
qed

theorem breaker_recovers_witness:
  "\<exists>t. \<forall>now \<ge> t. fst (is_open ''es'' now (fail_at ''es'' [1, 2] sample_breaker)) = False \<and>
     state_of ''es'' (record_success ''es'' (snd (is_open ''es'' now (fail_at ''es'' [1, 2] sample_breaker)))) = CLOSED"
proof (rule breaker_recovers)
  show "circuit_breaker 2 30 = Inr sample_breaker" by (simp add: circuit_breaker_def sample_breaker_def)
  have "fail_at ''es'' [1, 2] sample_breaker = call_step (Failed ''es'' 2) (call_step (Failed ''es'' 1) sample_breaker)"
    by (simp add: fail_at_def)
  then show "breaker_reach (\<lambda>_. True) sample_breaker (fail_at ''es'' [1, 2] sample_breaker)"
    using breaker_step [OF breaker_step [OF breaker_refl]] by (simp del: call_step.simps)
qed

end
