(* ===== verification/Ttl_Gate.thy ===== *)
theory Ttl_Gate
  imports Py_Values
begin

text \<open>
  The per-key throttle of \<open>tools/ttl_gate.py\<close>.  Coroutines interleave at the \<open>async with lock\<close> of
  \<open>acquire\<close>: a coroutine fetches the lock of its key, waits, is granted it, decides whether to run,
  may mark its success, and leaves.  The ordered dictionary is an association list whose head is
  the next entry to evict, and the locks of \<open>asyncio\<close> are numbered objects with an owner, so a lock
  that outlives its entry is kept apart from the lock of the entry that replaces it.
\<close>

section \<open>State\<close>

record handle =
  should_run :: bool
  gated :: bool
  marked :: bool

datatype 'k coroutine =
    Idle
  | Waiting 'k nat
  | Inside 'k "nat option" handle

record 'k gate =
  ttl :: rat
  maxsize :: nat
  entries :: "('k \<times> rat \<times> nat) list"
  next_lock :: nat
  owner :: "nat \<Rightarrow> nat option"
  coroutines :: "nat \<Rightarrow> 'k coroutine"

text \<open>The constructor.\<close>

definition ttl_gate :: "int \<Rightarrow> rat \<Rightarrow> py_exn + 'k gate" where
  "ttl_gate cap ttl_seconds =
     (if cap < 0 then Inl ValueError
      else if ttl_seconds < 0 then Inl ValueError
      else Inr \<lparr>ttl = ttl_seconds, maxsize = nat cap, entries = [], next_lock = 0,
                owner = (\<lambda>_. None), coroutines = (\<lambda>_. Idle)\<rparr>)"

section \<open>Operations\<close>

definition move_to_end :: "'k \<Rightarrow> ('k \<times> 'v) list \<Rightarrow> ('k \<times> 'v) list" where
  "move_to_end k es = (case map_of es k of None \<Rightarrow> es | Some v \<Rightarrow> [e \<leftarrow> es. fst e \<noteq> k] @ [(k, v)])"

fun evict_if_needed :: "nat \<Rightarrow> ('k \<times> 'v) list \<Rightarrow> ('k \<times> 'v) list" where
  "evict_if_needed m [] = []"
| "evict_if_needed m (e # es) = (if m \<noteq> 0 \<and> m < length (e # es) then evict_if_needed m es else e # es)"

definition get_lock :: "'k \<Rightarrow> 'k gate \<Rightarrow> nat \<times> 'k gate" where
  "get_lock k g =
     (case map_of (entries g) k of
        None \<Rightarrow> (next_lock g,
          g\<lparr>entries := evict_if_needed (maxsize g) (entries g @ [(k, 0, next_lock g)]),
            next_lock := next_lock g + 1\<rparr>)
      | Some (ts, l) \<Rightarrow> (l, g\<lparr>entries := move_to_end k (entries g)\<rparr>))"

definition set_timestamp :: "'k \<Rightarrow> rat \<Rightarrow> 'k gate \<Rightarrow> 'k gate" where
  "set_timestamp k ts g =
     (case map_of (entries g) k of
        None \<Rightarrow> g
      | Some (old, l) \<Rightarrow> g\<lparr>entries := [e \<leftarrow> entries g. fst e \<noteq> k] @ [(k, ts, l)]\<rparr>)"

definition clear :: "'k gate \<Rightarrow> 'k gate" where
  "clear g = g\<lparr>entries := []\<rparr>"

text \<open>\<open>acquire\<close> up to the wait for the lock, the section after the lock is granted, and the exit.\<close>

definition acquire_enter :: "nat \<Rightarrow> 'k \<Rightarrow> 'k gate \<Rightarrow> 'k gate" where
  "acquire_enter p k g =
     (if maxsize g = 0
      then g\<lparr>coroutines := (coroutines g)(p := Inside k None \<lparr>should_run = True, gated = False, marked = False\<rparr>)\<rparr>
      else (case get_lock k g of (l, g') \<Rightarrow> g'\<lparr>coroutines := (coroutines g')(p := Waiting k l)\<rparr>))"

definition acquire_granted :: "nat \<Rightarrow> 'k \<Rightarrow> nat \<Rightarrow> rat \<Rightarrow> 'k gate \<Rightarrow> 'k gate" where
  "acquire_granted p k l now g =
     (let stamp = (case map_of (entries g) k of Some (ts, _) \<Rightarrow> ts | None \<Rightarrow> 0)
      in g\<lparr>owner := (owner g)(l := Some p),
           coroutines := (coroutines g)(p := Inside k (Some l)
             \<lparr>should_run = ttl g \<le> now - stamp, gated = True, marked = False\<rparr>)\<rparr>)"

definition acquire_exit :: "nat \<Rightarrow> nat option \<Rightarrow> 'k gate \<Rightarrow> 'k gate" where
  "acquire_exit p l g =
     (case l of
        None \<Rightarrow> g\<lparr>coroutines := (coroutines g)(p := Idle)\<rparr>
      | Some n \<Rightarrow> g\<lparr>owner := (owner g)(n := None), coroutines := (coroutines g)(p := Idle)\<rparr>)"

definition mark :: "nat \<Rightarrow> rat \<Rightarrow> 'k gate \<Rightarrow> 'k gate" where
  "mark p now g =
     (case coroutines g p of
        Inside k l h \<Rightarrow>
          if \<not> gated h \<or> marked h then g
          else (set_timestamp k now g)\<lparr>coroutines := (coroutines g)(p := Inside k l (h\<lparr>marked := True\<rparr>))\<rparr>
      | _ \<Rightarrow> g)"

section \<open>Interleavings\<close>

datatype 'k gate_op =
    Enter nat 'k
  | Granted nat rat
  | Mark nat rat
  | Leave nat
  | Clear

text \<open>\<open>None\<close>: the step is not enabled.\<close>

fun gate_exec :: "'k gate_op \<Rightarrow> 'k gate \<Rightarrow> 'k gate option" where
  "gate_exec (Enter p k) g = (case coroutines g p of Idle \<Rightarrow> Some (acquire_enter p k g) | _ \<Rightarrow> None)"
| "gate_exec (Granted p now) g = (case coroutines g p of
     Waiting k l \<Rightarrow> if owner g l = None then Some (acquire_granted p k l now g) else None
   | _ \<Rightarrow> None)"
| "gate_exec (Mark p now) g = (case coroutines g p of Inside k l h \<Rightarrow> Some (mark p now g) | _ \<Rightarrow> None)"
| "gate_exec (Leave p) g = (case coroutines g p of Inside k l h \<Rightarrow> Some (acquire_exit p l g) | _ \<Rightarrow> None)"
| "gate_exec Clear g = Some (clear g)"

inductive gate_run :: "('k gate_op \<Rightarrow> bool) \<Rightarrow> 'k gate \<Rightarrow> 'k gate \<Rightarrow> bool"
  for P :: "'k gate_op \<Rightarrow> bool" where
  gate_refl: "gate_run P g g"
| gate_step: "gate_run P g g' \<Longrightarrow> P x \<Longrightarrow> gate_exec x g' = Some g'' \<Longrightarrow> gate_run P g g''"

definition inside :: "nat \<Rightarrow> 'k \<Rightarrow> 'k gate \<Rightarrow> bool" where
  "inside p k g \<longleftrightarrow> (case coroutines g p of Inside k' l h \<Rightarrow> k' = k | _ \<Rightarrow> False)"

definition runs :: "nat \<Rightarrow> 'k gate \<Rightarrow> bool" where
  "runs p g \<longleftrightarrow> (case coroutines g p of Inside k l h \<Rightarrow> should_run h | _ \<Rightarrow> False)"

section \<open>Entries\<close>

lemma length_evict [simp]: "m \<noteq> 0 \<Longrightarrow> length (evict_if_needed m es) = min m (length es)"
  by (induction es) auto

lemma evict_fits: "length es \<le> m \<Longrightarrow> evict_if_needed m es = es"
  by (cases es) auto

lemma map_of_filter_key: "map_of [e \<leftarrow> es. fst e \<noteq> k] j = (if j = k then None else map_of es j)"
  by (induction es) auto

lemma map_of_move_to_end [simp]: "map_of (move_to_end k es) = map_of es"
proof (cases "map_of es k")
  case (Some v)
  then show ?thesis
    by (intro ext) (auto simp: move_to_end_def map_of_append map_add_def map_of_filter_key split: option.splits)
qed (simp add: move_to_end_def)

lemma length_filter_key_less: "map_of es k = Some v \<Longrightarrow> length [e \<leftarrow> es. fst e \<noteq> k] < length es"
  by (rule length_filter_less [of "(k, v)"]) (auto dest: map_of_SomeD)

lemma length_move_to_end: "length (move_to_end k es) \<le> length es"
  using length_filter_key_less [of es k] by (auto simp: move_to_end_def Suc_le_eq split: option.splits)

lemma length_set_timestamp: "length (entries (set_timestamp k ts g)) \<le> length (entries g)"
  using length_filter_key_less [of "entries g" k]
  by (auto simp: set_timestamp_def Suc_le_eq split: option.splits)

lemma maxsize_exec: "gate_exec x g = Some g' \<Longrightarrow> maxsize g' = maxsize g \<and> ttl g' = ttl g"
  by (cases x) (auto simp: acquire_enter_def get_lock_def acquire_granted_def acquire_exit_def mark_def
      set_timestamp_def clear_def Let_def split: coroutine.splits option.splits if_splits prod.splits)

lemma bounded_exec:
  assumes "gate_exec x g = Some g'" "maxsize g \<noteq> 0" "length (entries g) \<le> maxsize g"
  shows "length (entries g') \<le> maxsize g'"
proof (cases x)
  case (Enter p k)
  then show ?thesis using assms length_move_to_end [of k "entries g"]
    by (auto simp: acquire_enter_def get_lock_def split: coroutine.splits option.splits)
next
  case (Mark p now)
  have "maxsize (set_timestamp k now g) = maxsize g" for k
    by (simp add: set_timestamp_def split: option.splits prod.splits)
  then show ?thesis using Mark assms le_trans [OF length_set_timestamp]
    by (auto simp: mark_def split: coroutine.splits if_splits)
qed (use assms in \<open>auto simp: acquire_granted_def acquire_exit_def clear_def Let_def
      split: coroutine.splits option.splits if_splits\<close>)

text \<open>
  The gate is bounded: along every interleaving an enabled gate never tracks more keys than its
  size.
\<close>

theorem gate_bounded:
  assumes "ttl_gate cap ttl_seconds = Inr g0" "0 < cap" "gate_run P g0 g"
  shows "int (length (entries g)) \<le> cap"
proof -
  have "maxsize g = nat cap \<and> length (entries g) \<le> maxsize g"
    using assms(3,1,2)
  proof (induction rule: gate_run.induct)
    case (gate_refl g)
    then show ?case by (auto simp: ttl_gate_def split: if_splits)
  next
    case (gate_step g g' x g'')
    then show ?case using bounded_exec maxsize_exec by fastforce
  qed
  then show ?thesis using assms(2) by linarith
qed

theorem gate_bounded_witness:
  "int (length (entries (acquire_enter 1 ''b'' (acquire_enter 0 ''a''
     \<lparr>ttl = 60, maxsize = 1, entries = [], next_lock = 0, owner = (\<lambda>_. None), coroutines = (\<lambda>_. Idle)\<rparr>)))) \<le> 1"
    (is "int (length (entries (acquire_enter 1 ?b (acquire_enter 0 ?a ?g)))) \<le> 1")
proof (rule gate_bounded [of 1 60 ?g "\<lambda>_. True"])
  have "gate_exec (Enter 0 ?a) ?g = Some (acquire_enter 0 ?a ?g)" by simp
  moreover have "gate_exec (Enter 1 ?b) (acquire_enter 0 ?a ?g) = Some (acquire_enter 1 ?b (acquire_enter 0 ?a ?g))"
    by (simp add: acquire_enter_def get_lock_def)
  ultimately show "gate_run (\<lambda>_. True) ?g (acquire_enter 1 ?b (acquire_enter 0 ?a ?g))"
    by (blast intro: gate_run.intros)
qed (simp_all add: ttl_gate_def)

section \<open>Keys that fit\<close>

text \<open>
  While the keys in use fit into the gate and nobody clears it, no entry is ever evicted: each key
  keeps one lock, and whoever is inside the gate for a key owns that lock.
\<close>

definition lookup :: "'k gate \<Rightarrow> 'k \<Rightarrow> (rat \<times> nat) option" where
  "lookup g k = map_of (entries g) k"

fun fits :: "'k set \<Rightarrow> 'k gate_op \<Rightarrow> bool" where
  "fits K (Enter p k) \<longleftrightarrow> k \<in> K"
| "fits K Clear \<longleftrightarrow> False"
| "fits K _ \<longleftrightarrow> True"

definition locks_inv :: "'k gate \<Rightarrow> bool" where
  "locks_inv g \<longleftrightarrow>
     (\<forall>k ts l. lookup g k = Some (ts, l) \<longrightarrow> l < next_lock g) \<and>
     (\<forall>k k' ts ts' l. lookup g k = Some (ts, l) \<longrightarrow> lookup g k' = Some (ts', l) \<longrightarrow> k = k') \<and>
     (\<forall>p k l. coroutines g p = Waiting k l \<longrightarrow> (\<exists>ts. lookup g k = Some (ts, l))) \<and>
     (\<forall>p k lo h. coroutines g p = Inside k lo h \<longrightarrow>
        (\<exists>ts l. lo = Some l \<and> lookup g k = Some (ts, l) \<and> owner g l = Some p))"

definition room_inv :: "'k set \<Rightarrow> 'k gate \<Rightarrow> bool" where
  "room_inv K g \<longleftrightarrow> finite K \<and> 0 < maxsize g \<and> card K \<le> maxsize g \<and>
     distinct (map fst (entries g)) \<and> fst ` set (entries g) \<subseteq> K"

lemma room_inv_other [simp]:
  "room_inv K (g\<lparr>coroutines := c\<rparr>) \<longleftrightarrow> room_inv K g" "room_inv K (g\<lparr>owner := ow\<rparr>) \<longleftrightarrow> room_inv K g"
  by (simp_all add: room_inv_def)

lemma room_no_eviction:
  assumes "room_inv K g" "k \<in> K" "lookup g k = None"
  shows "evict_if_needed (maxsize g) (entries g @ [(k, v)]) = entries g @ [(k, v)]"
proof (rule evict_fits)
  have "k \<notin> fst ` set (entries g)" using assms(3) by (auto simp: lookup_def map_of_eq_None_iff)
  then have "insert k (fst ` set (entries g)) \<subseteq> K" "card (insert k (fst ` set (entries g))) = length (entries g) + 1"
    using assms distinct_card [of "map fst (entries g)"] by (auto simp: room_inv_def)
  then have "length (entries g) + 1 \<le> card K" using assms(1) card_mono [of K] by (metis room_inv_def)
  then show "length (entries g @ [(k, v)]) \<le> maxsize g" using assms(1) by (simp add: room_inv_def)
qed

lemma fst_move_to_end:
  "distinct (map fst es) \<Longrightarrow> distinct (map fst (move_to_end k es)) \<and> fst ` set (move_to_end k es) = fst ` set es"
  by (auto simp: move_to_end_def distinct_map_filter split: option.splits dest!: map_of_SomeD)
     (force simp: image_iff)+

lemma lookup_set_timestamp:
  "lookup (set_timestamp k t g) j = (if j = k then map_option (\<lambda>(ts, l). (t, l)) (lookup g k) else lookup g j)"
  by (auto simp: lookup_def set_timestamp_def map_of_append map_add_def map_of_filter_key split: option.splits)

lemma room_set_timestamp: "room_inv K g \<Longrightarrow> room_inv K (set_timestamp k t g)"
  by (auto simp: room_inv_def set_timestamp_def distinct_map_filter split: option.splits dest!: map_of_SomeD)


lemma get_lock_room:
  assumes "room_inv K g" "k \<in> K" "get_lock k g = (l, g')"
  shows "room_inv K g'"
proof (cases "lookup g k")
  case None
  then have "k \<notin> fst ` set (entries g)" by (simp add: lookup_def map_of_eq_None_iff)
  moreover have "g' = g\<lparr>entries := entries g @ [(k, 0, next_lock g)], next_lock := next_lock g + 1\<rparr>"
    using assms(3) None room_no_eviction [OF assms(1,2) None] by (auto simp: get_lock_def lookup_def)
  ultimately show ?thesis using assms(1,2) by (simp add: room_inv_def)
next
  case (Some e)
  then have "g' = g\<lparr>entries := move_to_end k (entries g)\<rparr>"
    using assms(3) by (auto simp: get_lock_def lookup_def split: prod.splits)
  then show ?thesis using assms(1) fst_move_to_end [of "entries g" k] by (simp add: room_inv_def)
qed

lemma get_lock_lookup:
  assumes "room_inv K g" "k \<in> K" "get_lock k g = (l, g')"
  shows "lookup g' = (case lookup g k of None \<Rightarrow> (lookup g)(k \<mapsto> (0, l)) | Some _ \<Rightarrow> lookup g)"
    and "(case lookup g k of None \<Rightarrow> l = next_lock g \<and> next_lock g' = next_lock g + 1
           | Some (ts, l') \<Rightarrow> l = l' \<and> next_lock g' = next_lock g)"
    and "coroutines g' = coroutines g" "owner g' = owner g"
proof -
  have new: "map_of (entries g @ [(k, v)]) = (lookup g)(k \<mapsto> v)" if "lookup g k = None" for v
    using that by (intro ext) (auto simp: lookup_def map_of_append map_add_def split: option.splits)
  show "lookup g' = (case lookup g k of None \<Rightarrow> (lookup g)(k \<mapsto> (0, l)) | Some _ \<Rightarrow> lookup g)"
    using assms new room_no_eviction [OF assms(1,2)]
    by (intro ext) (auto simp: get_lock_def lookup_def [abs_def] split: option.splits prod.splits)
qed (use assms in \<open>auto simp: get_lock_def lookup_def split: option.splits prod.splits\<close>)

lemma exec_room:
  assumes "room_inv K g" "fits K x" "gate_exec x g = Some g'"
  shows "room_inv K g'"
proof (cases x)
  case (Enter p k)
  obtain l g1 where gl: "get_lock k g = (l, g1)" by fastforce
  have "room_inv K g1" using get_lock_room [OF assms(1) _ gl] Enter assms(2) by simp
  moreover have "g' = g1\<lparr>coroutines := (coroutines g1)(p := Waiting k l)\<rparr>"
    using Enter assms gl by (auto simp: acquire_enter_def room_inv_def split: coroutine.splits)
  ultimately show ?thesis by (simp add: room_inv_def)
next
  case (Mark p now)
  then show ?thesis using assms room_set_timestamp [OF assms(1)]
    by (auto simp: mark_def split: coroutine.splits if_splits)
qed (use assms in \<open>auto simp: acquire_granted_def acquire_exit_def Let_def
      split: coroutine.splits option.splits if_splits\<close>)

lemma locks_invI:
  assumes "\<And>k ts l. lookup g k = Some (ts, l) \<Longrightarrow> l < next_lock g"
    "\<And>k k' ts ts' l. lookup g k = Some (ts, l) \<Longrightarrow> lookup g k' = Some (ts', l) \<Longrightarrow> k = k'"
    "\<And>p k l. coroutines g p = Waiting k l \<Longrightarrow> \<exists>ts. lookup g k = Some (ts, l)"
    "\<And>p k lo h. coroutines g p = Inside k lo h \<Longrightarrow> \<exists>ts l. lo = Some l \<and> lookup g k = Some (ts, l) \<and> owner g l = Some p"
  shows "locks_inv g"
  using assms unfolding locks_inv_def by blast

lemma locks_invD:
  assumes "locks_inv g"
  shows "lookup g k = Some (ts, l) \<Longrightarrow> l < next_lock g"
    and "lookup g k = Some (ts, l) \<Longrightarrow> lookup g k' = Some (ts', l) \<Longrightarrow> k = k'"
    and "coroutines g p = Waiting k l \<Longrightarrow> \<exists>ts. lookup g k = Some (ts, l)"
    and "coroutines g p = Inside k lo h \<Longrightarrow> \<exists>ts l. lo = Some l \<and> lookup g k = Some (ts, l) \<and> owner g l = Some p"
  using assms unfolding locks_inv_def by blast+

lemma enter_locks:
  assumes "room_inv K g" "locks_inv g" "k \<in> K"
  shows "locks_inv (acquire_enter p k g)"
proof -
  obtain l g1 where gl: "get_lock k g = (l, g1)" by fastforce
  let ?g = "acquire_enter p k g"
  have g': "?g = g1\<lparr>coroutines := (coroutines g1)(p := Waiting k l)\<rparr>"
    using assms gl by (auto simp: acquire_enter_def room_inv_def)
  note facts = get_lock_lookup [OF assms(1,3) gl] and inv = locks_invD [OF assms(2)]
  show ?thesis
  proof (cases "lookup g k")
    case None
    have new: "lookup ?g = (lookup g)(k \<mapsto> (0, next_lock g))" "next_lock ?g = next_lock g + 1" "l = next_lock g"
      "coroutines ?g = (coroutines g)(p := Waiting k l)" "owner ?g = owner g"
      using facts None g' by (auto simp: lookup_def [abs_def])
    show ?thesis
    proof (rule locks_invI)
      fix q j lo h
      assume "coroutines ?g q = Inside j lo h"
      then have "coroutines g q = Inside j lo h" using new(4) by (auto split: if_splits)
      then obtain ts n where "lo = Some n" "lookup g j = Some (ts, n)" "owner g n = Some q" using inv(4) by blast
      moreover from this None have "j \<noteq> k" by auto
      ultimately show "\<exists>ts n. lo = Some n \<and> lookup ?g j = Some (ts, n) \<and> owner ?g n = Some q" using new by simp
    next
      fix q j n
      assume "coroutines ?g q = Waiting j n"
      then show "\<exists>ts. lookup ?g j = Some (ts, n)"
        using new None inv(3) [of q j n] by (auto split: if_splits)
    next
      show "j = j'" if "lookup ?g j = Some (ts, n)" "lookup ?g j' = Some (ts', n)" for j j' ts ts' n
        using that new inv(1) [of j] inv(1) [of j'] inv(2) [of j _ _ j'] by (auto split: if_splits)
    next
      show "n < next_lock ?g" if "lookup ?g j = Some (ts, n)" for j ts n
        using that new inv(1) [of j ts n] by (auto split: if_splits)
    qed
  next
    case (Some e)
    have same: "lookup ?g = lookup g" "next_lock ?g = next_lock g" "\<exists>ts. lookup g k = Some (ts, l)"
      "coroutines ?g = (coroutines g)(p := Waiting k l)" "owner ?g = owner g"
      using facts Some g' by (auto simp: lookup_def [abs_def] split: prod.splits)
    show ?thesis by (rule locks_invI) (use same inv in \<open>simp_all split: if_splits\<close>)
  qed
qed

lemma granted_locks:
  assumes "locks_inv g" "coroutines g p = Waiting k l" "owner g l = None"
  shows "locks_inv (acquire_granted p k l now g)"
proof -
  let ?g = "acquire_granted p k l now g"
  obtain h where new: "lookup ?g = lookup g" "next_lock ?g = next_lock g" "owner ?g = (owner g)(l := Some p)"
    "coroutines ?g = (coroutines g)(p := Inside k (Some l) h)"
    by (auto simp: acquire_granted_def lookup_def [abs_def] Let_def)
  note inv = locks_invD [OF assms(1)]
  show ?thesis
  proof (rule locks_invI)
    show "\<exists>ts n. lo = Some n \<and> lookup ?g j = Some (ts, n) \<and> owner ?g n = Some q"
      if ins: "coroutines ?g q = Inside j lo h'" for q j lo h'
    proof (cases "q = p")
      case True
      then show ?thesis using that new inv(3) [OF assms(2)] by auto
    next
      case False
      then obtain ts n where "lo = Some n" "lookup g j = Some (ts, n)" "owner g n = Some q"
        using ins new inv(4) [of q j lo h'] by auto
      moreover from this assms(3) have "n \<noteq> l" by auto
      ultimately show ?thesis using new by simp
    qed
  qed (use new inv in \<open>simp_all split: if_splits\<close>)
qed

lemma exit_locks:
  assumes "locks_inv g" "coroutines g p = Inside k lo h"
  shows "locks_inv (acquire_exit p lo g)"
proof -
  note inv = locks_invD [OF assms(1)]
  obtain ts l where l: "lo = Some l" "lookup g k = Some (ts, l)" "owner g l = Some p" using inv(4) [OF assms(2)] by blast
  let ?g = "acquire_exit p lo g"
  have new: "lookup ?g = lookup g" "next_lock ?g = next_lock g" "owner ?g = (owner g)(l := None)"
    "coroutines ?g = (coroutines g)(p := Idle)"
    using l by (auto simp: acquire_exit_def lookup_def [abs_def])
  show ?thesis
  proof (rule locks_invI)
    fix q j lo' h'
    assume ins: "coroutines ?g q = Inside j lo' h'"
    then obtain ts' n where n: "lo' = Some n" "lookup g j = Some (ts', n)" "owner g n = Some q" and "q \<noteq> p"
      using new inv(4) [of q j lo' h'] by (auto split: if_splits)
    moreover from this l have "n \<noteq> l" by auto
    ultimately show "\<exists>ts n. lo' = Some n \<and> lookup ?g j = Some (ts, n) \<and> owner ?g n = Some q" using new by simp
  qed (use new inv in \<open>simp_all split: if_splits\<close>)
qed

lemma mark_locks:
  assumes "locks_inv g"
  shows "locks_inv (mark p now g)"
proof (cases "\<exists>k lo h. coroutines g p = Inside k lo h \<and> gated h \<and> \<not> marked h")
  case True
  then obtain k lo h where ins: "coroutines g p = Inside k lo h" "gated h" "\<not> marked h" by blast
  note inv = locks_invD [OF assms]
  let ?g = "mark p now g"
  have new: "lookup ?g j = (if j = k then map_option (\<lambda>(ts, l). (now, l)) (lookup g k) else lookup g j)"
    "next_lock ?g = next_lock g" "owner ?g = owner g" "coroutines ?g = (coroutines g)(p := Inside k lo (h\<lparr>marked := True\<rparr>))" for j
    using ins lookup_set_timestamp [of k now g j]
    by (auto simp: mark_def lookup_def set_timestamp_def split: option.splits prod.splits)
  have same: "(\<exists>ts. lookup ?g j = Some (ts, n)) \<longleftrightarrow> (\<exists>ts. lookup g j = Some (ts, n))" for j n
    by (auto simp: new(1))
  show ?thesis
  proof (rule locks_invI)
    show "n < next_lock ?g" if "lookup ?g j = Some (ts, n)" for j ts n
      using that same [of j n] new(2) inv(1) [of j _ n] by auto
    show "j = j'" if "lookup ?g j = Some (ts, n)" "lookup ?g j' = Some (ts', n)" for j j' ts ts' n
      using that same [of j n] same [of j' n] inv(2) [of j _ n j'] by auto
    show "\<exists>ts. lookup ?g j = Some (ts, n)" if "coroutines ?g q = Waiting j n" for q j n
      using that same [of j n] new(4) inv(3) [of q j n] by (auto split: if_splits)
    show "\<exists>ts n. lo' = Some n \<and> lookup ?g j = Some (ts, n) \<and> owner ?g n = Some q"
      if ins': "coroutines ?g q = Inside j lo' h'" for q j lo' h'
    proof -
      obtain h2 where "coroutines g q = Inside j lo' h2" using ins' new(4) ins(1) by (auto split: if_splits)
      then obtain ts n where "lo' = Some n" "lookup g j = Some (ts, n)" "owner g n = Some q" using inv(4) by blast
      then show ?thesis using same [of j n] new(3) by auto
    qed
  qed
next
  case False
  then show ?thesis using assms by (auto simp: mark_def split: coroutine.splits)
qed

lemma exec_locks:
  assumes "room_inv K g" "locks_inv g" "fits K x" "gate_exec x g = Some g'"
  shows "locks_inv g'"
  using assms(3,4) enter_locks [OF assms(1,2)] granted_locks [OF assms(2)] exit_locks [OF assms(2)] mark_locks [OF assms(2)]
  by (cases x) (auto split: coroutine.splits if_splits)

lemma run_locks:
  assumes "gate_run P g g'" "\<And>x. P x \<Longrightarrow> fits K x" "room_inv K g" "locks_inv g"
  shows "room_inv K g' \<and> locks_inv g'"
  using assms
proof (induction rule: gate_run.induct)
  case (gate_step g g' x g'')
  then show ?case using exec_room exec_locks by blast
qed simp

lemma fresh_gate_inv:
  assumes "ttl_gate cap ttl_seconds = Inr g" "finite K" "int (card K) \<le> cap" "0 < cap"
  shows "room_inv K g \<and> locks_inv g"
  using assms by (auto simp: ttl_gate_def room_inv_def locks_inv_def lookup_def split: if_splits)

lemma gated_inside:
  assumes "gate_run P g0 g" "0 < maxsize g0" "\<And>q. coroutines g0 q = Idle" "coroutines g p = Inside k lo h"
  shows "gated h"
proof -
  have "0 < maxsize g \<and> (\<forall>q k lo h. coroutines g q = Inside k lo h \<longrightarrow> gated h)"
    using assms(1,2,3)
  proof (induction rule: gate_run.induct)
    case (gate_step g g' x g'')
    then have "0 < maxsize g'" "\<And>q k lo h. coroutines g' q = Inside k lo h \<Longrightarrow> gated h" by auto
    moreover have "coroutines (set_timestamp j t g') = coroutines g'" for j t
      by (simp add: set_timestamp_def split: option.splits prod.splits)
    moreover have "get_lock j g' = (l, g2) \<Longrightarrow> coroutines g2 = coroutines g'" for j l g2
      by (auto simp: get_lock_def split: option.splits prod.splits)
    ultimately have "coroutines g'' q = Inside k lo h \<Longrightarrow> gated h" for q k lo h
      using gate_step(3) by (cases x) (auto simp: acquire_enter_def acquire_granted_def acquire_exit_def mark_def clear_def
          Let_def split: coroutine.splits option.splits if_splits prod.splits)
    then show ?case using maxsize_exec [OF gate_step(3)] \<open>0 < maxsize g'\<close> by auto
  qed simp
  then show ?thesis using assms(4) by blast
qed

section \<open>Serialisation\<close>

text \<open>A gate of the default size, and the state after a schedule.\<close>

definition sample_gate :: "rat \<Rightarrow> string gate" where
  "sample_gate t = \<lparr>ttl = t, maxsize = 4096, entries = [], next_lock = 0, owner = (\<lambda>_. None), coroutines = (\<lambda>_. Idle)\<rparr>"

fun exec_all :: "'k gate_op list \<Rightarrow> 'k gate \<Rightarrow> 'k gate option" where
  "exec_all [] g = Some g"
| "exec_all (x # xs) g = (case gate_exec x g of None \<Rightarrow> None | Some g' \<Rightarrow> exec_all xs g')"

lemma exec_all_run:
  assumes "exec_all xs g' = Some g''" "list_all P xs" "gate_run P g g'"
  shows "gate_run P g g''"
  using assms by (induction xs arbitrary: g') (auto split: option.splits intro: gate_step)

lemmas gate_eval = sample_gate_def acquire_enter_def acquire_granted_def acquire_exit_def mark_def get_lock_def
  set_timestamp_def move_to_end_def clear_def inside_def runs_def Let_def

text \<open>
  C29. Callers of one key are serialised: while the keys in use fit into the gate, at most one
  coroutine at a time is inside the gate for a key, along every interleaving.
\<close>

theorem gate_mutual_exclusion:
  assumes "ttl_gate cap ttl_seconds = Inr g0" "finite K" "int (card K) \<le> cap" "0 < cap"
    "gate_run (fits K) g0 g" "inside p k g" "inside q k g"
  shows "p = q"
proof -
  have "locks_inv g" using run_locks [OF assms(5) _ ] fresh_gate_inv [OF assms(1-4)] by blast
  note inv = locks_invD [OF this]
  obtain lp hp lq hq where "coroutines g p = Inside k lp hp" "coroutines g q = Inside k lq hq"
    using assms(6,7) by (auto simp: inside_def split: coroutine.splits)
  then show ?thesis using inv(4) [of p k lp hp] inv(4) [of q k lq hq] by auto
qed

theorem gate_mutual_exclusion_witness:
  "\<exists>g. exec_all [Enter 0 ''k'', Enter 1 ''k'', Granted 0 100] (sample_gate 60) = Some g \<and> inside 0 ''k'' g \<and>
     (\<forall>q. inside q ''k'' g \<longrightarrow> 0 = q)"
proof -
  obtain g where g: "exec_all [Enter 0 ''k'', Enter 1 ''k'', Granted 0 100] (sample_gate 60) = Some g" "inside 0 ''k'' g"
    by (simp add: gate_eval)
  have "gate_run (fits {''k''}) (sample_gate 60) g" by (rule exec_all_run [OF g(1)]) (simp_all add: gate_refl)
  then have "inside q ''k'' g \<Longrightarrow> 0 = q" for q
    using gate_mutual_exclusion [of 4096 60 "sample_gate 60" "{''k''}" g 0 "''k''" q] g(2)
    by (simp add: ttl_gate_def sample_gate_def)
  then show ?thesis using g by blast
qed

section \<open>The window\<close>

fun fits_after :: "'k set \<Rightarrow> rat \<Rightarrow> 'k gate_op \<Rightarrow> bool" where
  "fits_after K t (Mark p now) \<longleftrightarrow> t \<le> now"
| "fits_after K t x \<longleftrightarrow> fits K x"

lemma fits_after_fits: "fits_after K t x \<Longrightarrow> fits K x"
  by (cases x) auto

lemma mark_lookup:
  "lookup (mark p now g) k = (case coroutines g p of
     Inside j lo h \<Rightarrow> if j = k \<and> gated h \<and> \<not> marked h then map_option (\<lambda>(ts, l). (now, l)) (lookup g k) else lookup g k
   | _ \<Rightarrow> lookup g k)"
proof -
  have "lookup (g1\<lparr>coroutines := c\<rparr>) k = lookup g1 k" for g1 :: "'a gate" and c by (simp add: lookup_def)
  then show ?thesis by (auto simp: mark_def lookup_set_timestamp split: coroutine.splits)
qed

lemma enter_lookup:
  assumes "room_inv K g" "j \<in> K" "lookup g k = Some e"
  shows "lookup (acquire_enter p j g) k = Some e"
proof -
  obtain l g1 where gl: "get_lock j g = (l, g1)" by fastforce
  have "lookup (acquire_enter p j g) = lookup g1"
    using assms(1) gl by (auto simp: acquire_enter_def room_inv_def lookup_def [abs_def])
  then show ?thesis using get_lock_lookup(1) [OF assms(1,2) gl] assms(3) by (auto split: option.splits)
qed

lemma exec_stamp:
  assumes "room_inv K g" "fits_after K t x" "gate_exec x g = Some g'" "lookup g k = Some (ts, l)" "t \<le> ts"
  shows "\<exists>ts'. lookup g' k = Some (ts', l) \<and> t \<le> ts'"
proof (cases x)
  case (Enter p j)
  then show ?thesis using assms enter_lookup [OF assms(1) _ assms(4), of j] by (auto split: coroutine.splits)
next
  case (Mark p now)
  then show ?thesis using assms mark_lookup [of p now g k] by (auto split: coroutine.splits if_splits)
qed (use assms in \<open>auto simp: acquire_granted_def acquire_exit_def lookup_def Let_def
      split: coroutine.splits option.splits if_splits\<close>)

lemma run_stamp:
  assumes "gate_run (fits_after K t) g g'" "room_inv K g" "locks_inv g" "lookup g k = Some (ts, l)" "t \<le> ts"
  shows "\<exists>ts'. lookup g' k = Some (ts', l) \<and> t \<le> ts'"
  using assms
proof (induction rule: gate_run.induct)
  case (gate_step g g' x g'')
  have "room_inv K g'" using run_locks [OF gate_step(1) fits_after_fits [of K t]] gate_step by blast
  then show ?case using gate_step exec_stamp [of K g' t x g''] by blast
qed auto

lemma run_ttl: "gate_run P g g' \<Longrightarrow> ttl g' = ttl g"
  by (induction rule: gate_run.induct) (auto dest: maxsize_exec)

lemma granted_runs:
  assumes "gate_exec (Granted q now) g = Some g'" "inside q k g'" "lookup g k = Some (ts, l)"
  shows "runs q g' \<longleftrightarrow> ttl g \<le> now - ts"
  using assms by (auto simp: acquire_granted_def inside_def runs_def lookup_def Let_def split: coroutine.splits if_splits)

text \<open>
  C27. A marked success suppresses later calls for the key until the window ends: whatever the other
  coroutines do, as long as clocks do not run backwards and the keys fit, a coroutine that is granted
  the key before the window has passed is told not to run.
\<close>

theorem marked_key_suppressed:
  assumes "ttl_gate cap ttl_seconds = Inr g0" "finite K" "int (card K) \<le> cap" "0 < cap"
    "gate_run (fits K) g0 g" "coroutines g p = Inside k lo h" "\<not> marked h"
    "gate_run (fits_after K t) (mark p t g) g'" "gate_exec (Granted q now) g' = Some g''" "inside q k g''"
    "now < t + ttl_seconds"
  shows "\<not> runs q g''"
proof -
  have inv: "room_inv K g" "locks_inv g" using run_locks [OF assms(5)] fresh_gate_inv [OF assms(1-4)] by auto
  have en: "gate_exec (Mark p t) g = Some (mark p t g)" using assms(6) by simp
  have inv1: "room_inv K (mark p t g)" "locks_inv (mark p t g)"
    using exec_room [OF inv(1) _ en] mark_locks [OF inv(2)] by auto
  obtain ts l where l: "lookup g k = Some (ts, l)" using locks_invD(4) [OF inv(2) assms(6)] by blast
  have "gated h"
    using gated_inside [OF assms(5)] assms(1,4,6) by (auto simp: ttl_gate_def split: if_splits)
  then have "lookup (mark p t g) k = Some (t, l)" using mark_lookup [of p t g k] assms(6,7) l by simp
  then obtain ts' where ts': "lookup g' k = Some (ts', l)" "t \<le> ts'"
    using run_stamp [OF assms(8) inv1] by blast
  have "ttl g' = ttl_seconds"
    using run_ttl [OF assms(8)] run_ttl [OF assms(5)] maxsize_exec [OF en] assms(1) by (auto simp: ttl_gate_def split: if_splits)
  then show ?thesis using granted_runs [OF assms(9,10) ts'(1)] ts'(2) assms(11) by simp
qed

theorem marked_key_suppressed_witness:
  "\<exists>g' g''. exec_all [Enter 1 ''k'', Leave 0] (mark 0 100 (the (exec_all [Enter 0 ''k'', Granted 0 100] (sample_gate 60)))) = Some g' \<and>
     gate_exec (Granted 1 150) g' = Some g'' \<and> inside 1 ''k'' g'' \<and> \<not> runs 1 g''"
proof -
  let ?h = "\<lparr>should_run = True, gated = True, marked = False\<rparr>"
  obtain g where g: "exec_all [Enter 0 ''k'', Granted 0 100] (sample_gate 60) = Some g"
    "coroutines g 0 = Inside ''k'' (Some 0) ?h" by (simp add: gate_eval)
  obtain g' g'' where g': "exec_all [Enter 1 ''k'', Leave 0] (mark 0 100 g) = Some g'"
    "gate_exec (Granted 1 150) g' = Some g''" "inside 1 ''k'' g''" using g by (auto simp: gate_eval)
  have r: "gate_run (fits {''k''}) (sample_gate 60) g" by (rule exec_all_run [OF g(1)]) (simp_all add: gate_refl)
  have r': "gate_run (fits_after {''k''} 100) (mark 0 100 g) g'" by (rule exec_all_run [OF g'(1)]) (simp_all add: gate_refl)
  have "\<not> runs 1 g''"
    by (rule marked_key_suppressed [OF _ _ _ _ r g(2) _ r' g'(2,3), of 4096 60]) (simp_all add: ttl_gate_def sample_gate_def)
  then show ?thesis using g g' by auto
qed

text \<open>
  The first call for a key is suppressed while the monotonic clock is below the window, because a
  fresh entry is stamped with the clock value zero instead of with no value.
\<close>

theorem first_call_suppressed:
  assumes "ttl_gate cap ttl_seconds = Inr g" "0 < cap" "now < ttl_seconds"
  shows "\<exists>g'. exec_all [Enter p k, Granted p now] g = Some g' \<and> inside p k g' \<and> \<not> runs p g'"
proof -
  have "g = \<lparr>ttl = ttl_seconds, maxsize = nat cap, entries = [], next_lock = 0, owner = (\<lambda>_. None), coroutines = (\<lambda>_. Idle)\<rparr>"
    "\<not> nat cap < Suc 0" using assms(1,2) by (auto simp: ttl_gate_def split: if_splits)
  then show ?thesis using assms(2,3) by (simp add: gate_eval)
qed

theorem first_call_suppressed_witness:
  "\<exists>g'. exec_all [Enter 0 ''k'', Granted 0 30] (sample_gate 60) = Some g' \<and> inside 0 ''k'' g' \<and> \<not> runs 0 g'"
  by (rule first_call_suppressed [of 4096 60]) (simp_all add: ttl_gate_def sample_gate_def)

text \<open>
  Serialisation depends on the keys fitting: in a gate of size one, an entry that is evicted while its
  coroutine is inside is replaced by one with a fresh lock, so two coroutines run the work of the same
  key at the same time, and the success of the first is then forgotten.
\<close>

theorem eviction_breaks_serialisation:
  "\<exists>g. exec_all [Enter 0 ''a'', Granted 0 100, Enter 1 ''b'', Enter 2 ''a'', Granted 2 100] (sample_gate 60\<lparr>maxsize := 1\<rparr>) = Some g \<and>
     inside 0 ''a'' g \<and> inside 2 ''a'' g \<and> runs 0 g \<and> runs 2 g"
  by (simp add: gate_eval)

text \<open>
  A coroutine that was told not to run can still move the window: its \<open>mark\<close> restarts it.
\<close>

theorem mark_extends_window:
  assumes "coroutines g p = Inside k lo h" "gated h" "\<not> marked h" "\<not> should_run h" "lookup g k = Some (ts, l)"
  shows "lookup (mark p now g) k = Some (now, l)"
  using assms mark_lookup [of p now g k] by simp

theorem mark_extends_window_witness:
  "\<exists>g l. exec_all [Enter 0 ''k'', Granted 0 30] (sample_gate 60) = Some g \<and> lookup (mark 0 30 g) ''k'' = Some (30, l)"
proof -
  obtain g where g: "exec_all [Enter 0 ''k'', Granted 0 30] (sample_gate 60) = Some g"
    "coroutines g 0 = Inside ''k'' (Some 0) \<lparr>should_run = False, gated = True, marked = False\<rparr>" "lookup g ''k'' = Some (0, 0)"
    by (simp add: gate_eval lookup_def)
  show ?thesis using mark_extends_window [OF g(2) _ _ _ g(3), of 30] g(1) by auto
qed

end
