(* ===== verification/Cql_Like.thy ===== *)
theory Cql_Like
  imports Py_Values
begin

text \<open>
  The translations of a CQL2 \<open>LIKE\<close> pattern for the two search backends: \<open>_like_to_wildcard\<close> of
  \<open>modules/storage/drivers/es_common/cql_to_es.py\<close> and \<open>_cql_like_pattern_to_sql\<close> of
  \<open>modules/tools/cql.py\<close>.  The reference meaning of a pattern is its token sequence.  The two target
  languages are read by the documented rules of the Elasticsearch \<open>wildcard\<close> query and of the SQL
  \<open>LIKE\<close> predicate.
\<close>

section \<open>Patterns and their tokens\<close>

text \<open>The wildcard, single-character and escape tokens are strings that are compared with one character.\<close>

datatype like_kind = Wildcard | Single | Literal

type_synonym like_token = "like_kind \<times> char"

definition classify_char :: "string \<Rightarrow> string \<Rightarrow> char \<Rightarrow> like_token" where
  "classify_char wildcard single_char ch =
     (if [ch] = wildcard then (Wildcard, ch) else if [ch] = single_char then (Single, ch) else (Literal, ch))"

fun iter_like_tokens :: "string \<Rightarrow> string \<Rightarrow> string \<Rightarrow> string \<Rightarrow> like_token list" where
  "iter_like_tokens wildcard single_char escape_char [] = []"
| "iter_like_tokens wildcard single_char escape_char [ch] = [classify_char wildcard single_char ch]"
| "iter_like_tokens wildcard single_char escape_char (ch # next # rest) =
     (if [ch] = escape_char \<and> [next] \<in> {wildcard, single_char, escape_char}
      then (Literal, next) # iter_like_tokens wildcard single_char escape_char rest
      else classify_char wildcard single_char ch # iter_like_tokens wildcard single_char escape_char (next # rest))"

text \<open>The text a token sequence matches; \<open>same\<close> is equality of characters, or equality up to case.\<close>

fun like_match :: "(char \<Rightarrow> char \<Rightarrow> bool) \<Rightarrow> like_token list \<Rightarrow> string \<Rightarrow> bool" where
  "like_match same [] s \<longleftrightarrow> s = []"
| "like_match same ((Wildcard, p) # ts) [] \<longleftrightarrow> like_match same ts []"
| "like_match same ((Wildcard, p) # ts) (c # s) \<longleftrightarrow> like_match same ts (c # s) \<or> like_match same ((Wildcard, p) # ts) s"
| "like_match same ((Single, p) # ts) [] \<longleftrightarrow> False"
| "like_match same ((Single, p) # ts) (c # s) \<longleftrightarrow> like_match same ts s"
| "like_match same ((Literal, p) # ts) [] \<longleftrightarrow> False"
| "like_match same ((Literal, p) # ts) (c # s) \<longleftrightarrow> same p c \<and> like_match same ts s"

section \<open>The translators\<close>

fun es_token :: "like_token \<Rightarrow> char" where
  "es_token (Wildcard, ch) = CHR ''*''"
| "es_token (Single, ch) = CHR ''?''"
| "es_token (Literal, ch) = ch"

definition like_to_wildcard :: "string \<Rightarrow> string \<Rightarrow> string \<Rightarrow> string \<Rightarrow> string" where
  "like_to_wildcard value_text wildcard single_char escape_char =
     map es_token (iter_like_tokens wildcard single_char escape_char value_text)"

fun text_token :: "like_token \<Rightarrow> char" where
  "text_token (Wildcard, ch) = CHR '' ''"
| "text_token (Single, ch) = CHR '' ''"
| "text_token (Literal, ch) = ch"

text \<open>\<open>str.strip()\<close> for a given notion of white space.\<close>

definition strip_space :: "(char \<Rightarrow> bool) \<Rightarrow> string \<Rightarrow> string" where
  "strip_space space s = rev (dropWhile space (rev (dropWhile space s)))"

definition like_to_match_text :: "(char \<Rightarrow> bool) \<Rightarrow> string \<Rightarrow> string \<Rightarrow> string \<Rightarrow> string \<Rightarrow> string" where
  "like_to_match_text space value_text wildcard single_char escape_char =
     strip_space space (map text_token (iter_like_tokens wildcard single_char escape_char value_text))"

text \<open>The walk of the SQL translator.\<close>

definition sql_char :: "string \<Rightarrow> string \<Rightarrow> string \<Rightarrow> char \<Rightarrow> string" where
  "sql_char wildcard singlechar escapechar ch =
     (if [ch] = wildcard then ''%''
      else if [ch] = singlechar then ''_''
      else if [ch] \<in> {''%'', ''_'', escapechar} then escapechar @ [ch]
      else [ch])"

fun cql_like_pattern_to_sql :: "string \<Rightarrow> string \<Rightarrow> string \<Rightarrow> string \<Rightarrow> string" where
  "cql_like_pattern_to_sql wildcard singlechar escapechar [] = []"
| "cql_like_pattern_to_sql wildcard singlechar escapechar [ch] = sql_char wildcard singlechar escapechar ch"
| "cql_like_pattern_to_sql wildcard singlechar escapechar (ch # next # rest) =
     (if [ch] = escapechar \<and> [next] \<in> {wildcard, singlechar, escapechar}
      then (if [next] \<in> {''%'', ''_'', escapechar} then escapechar @ [next] else [next])
           @ cql_like_pattern_to_sql wildcard singlechar escapechar rest
      else sql_char wildcard singlechar escapechar ch
           @ cql_like_pattern_to_sql wildcard singlechar escapechar (next # rest))"

section \<open>The target languages\<close>

text \<open>SQL \<open>LIKE p ESCAPE e\<close>: a pattern that ends in the escape character is an error.\<close>

fun sql_like_tokens :: "char \<Rightarrow> string \<Rightarrow> like_token list option" where
  "sql_like_tokens e [] = Some []"
| "sql_like_tokens e [p] =
     (if p = e then None
      else Some [(if p = CHR ''%'' then Wildcard else if p = CHR ''_'' then Single else Literal, p)])"
| "sql_like_tokens e (p # q # ps) =
     (if p = e then map_option (Cons (Literal, q)) (sql_like_tokens e ps)
      else map_option (Cons (if p = CHR ''%'' then Wildcard else if p = CHR ''_'' then Single else Literal, p))
             (sql_like_tokens e (q # ps)))"

definition like_predicate :: "(char \<Rightarrow> char \<Rightarrow> bool) \<Rightarrow> char \<Rightarrow> string \<Rightarrow> string \<Rightarrow> bool option" where
  "like_predicate same e p s = map_option (\<lambda>ts. like_match same ts s) (sql_like_tokens e p)"

text \<open>The \<open>wildcard\<close> query: a star, a question mark, and the backslash as escape.\<close>

abbreviation backslash :: char where "backslash \<equiv> CHR 0x5C"

definition es_kind :: "char \<Rightarrow> like_kind" where
  "es_kind p = (if p = CHR ''*'' then Wildcard else if p = CHR ''?'' then Single else Literal)"

fun es_wildcard_tokens :: "string \<Rightarrow> like_token list" where
  "es_wildcard_tokens [] = []"
| "es_wildcard_tokens [p] = [(es_kind p, p)]"
| "es_wildcard_tokens (p # q # ps) =
     (if p = backslash then (Literal, q) # es_wildcard_tokens ps
      else (es_kind p, p) # es_wildcard_tokens (q # ps))"

definition es_wildcard :: "(char \<Rightarrow> char \<Rightarrow> bool) \<Rightarrow> string \<Rightarrow> string \<Rightarrow> bool" where
  "es_wildcard same p s = like_match same (es_wildcard_tokens p) s"

section \<open>Matching does not look at the character of a wildcard\<close>

definition same_token :: "like_token \<Rightarrow> like_token \<Rightarrow> bool" where
  "same_token t u \<longleftrightarrow> fst t = fst u \<and> (fst t = Literal \<longrightarrow> snd t = snd u)"

lemma same_token_refl [simp]: "same_token t t"
  by (simp add: same_token_def)

lemma list_all2_same_refl [simp]: "list_all2 same_token ts ts"
  by (simp add: list_all2_refl)

lemma like_match_wild:
  assumes "\<And>s. like_match same ts s \<longleftrightarrow> like_match same us s"
  shows "like_match same ((Wildcard, p) # ts) s \<longleftrightarrow> like_match same ((Wildcard, q) # us) s"
  by (induction s) (simp_all add: assms)

lemma like_match_cong: "list_all2 same_token ts us \<Longrightarrow> like_match same ts s \<longleftrightarrow> like_match same us s"
proof (induction ts us arbitrary: s rule: list_all2_induct)
  case (Cons t ts u us)
  obtain k p l q where tu: "t = (k, p)" "u = (l, q)" by fastforce
  show ?case
  proof (cases k)
    case Wildcard
    then show ?thesis using Cons tu like_match_wild by (simp add: same_token_def)
  next
    case Single
    then show ?thesis using Cons tu by (cases s) (auto simp: same_token_def)
  next
    case Literal
    then show ?thesis using Cons tu by (cases s) (auto simp: same_token_def)
  qed
qed simp

section \<open>The SQL translation\<close>

text \<open>What one translated character is read as, in front of the rest of a pattern.\<close>

definition sql_reads :: "char \<Rightarrow> string \<Rightarrow> like_token \<Rightarrow> bool" where
  "sql_reads e chunk t \<longleftrightarrow> (\<forall>ps ts. sql_like_tokens e ps = Some ts \<longrightarrow>
     (\<exists>u. same_token u t \<and> sql_like_tokens e (chunk @ ps) = Some (u # ts)))"

lemma sql_plain_reads:
  assumes "p \<noteq> e" "same_token (if p = CHR ''%'' then Wildcard else if p = CHR ''_'' then Single else Literal, p) t"
  shows "sql_reads e [p] t"
  unfolding sql_reads_def
proof (intro allI impI)
  fix ps ts
  assume "sql_like_tokens e ps = Some ts"
  then show "\<exists>u. same_token u t \<and> sql_like_tokens e ([p] @ ps) = Some (u # ts)"
    using assms by (cases ps) auto
qed

lemma sql_escaped_reads: "sql_reads e [e, p] (Literal, p)"
  unfolding sql_reads_def by auto

lemma sql_char_reads:
  assumes "e \<notin> {CHR ''%'', CHR ''_''}"
  shows "sql_reads e (sql_char wildcard singlechar [e] ch) (classify_char wildcard singlechar ch)"
  using assms sql_escaped_reads [of e ch]
  by (auto simp: sql_char_def classify_char_def same_token_def intro!: sql_plain_reads)

lemma sql_tokens_prepend:
  assumes "sql_reads e chunk t" "\<exists>us. sql_like_tokens e ps = Some us \<and> list_all2 same_token us ts"
  shows "\<exists>us. sql_like_tokens e (chunk @ ps) = Some us \<and> list_all2 same_token us (t # ts)"
  using assms unfolding sql_reads_def by (metis list_all2_Cons)

lemma sql_pattern_tokens:
  assumes "e \<notin> {CHR ''%'', CHR ''_''}"
  shows "\<exists>us. sql_like_tokens e (cql_like_pattern_to_sql wildcard singlechar [e] pat) = Some us \<and>
    list_all2 same_token us (iter_like_tokens wildcard singlechar [e] pat)"
proof (induction wildcard singlechar "[e]" pat rule: cql_like_pattern_to_sql.induct)
  case (2 wildcard singlechar ch)
  then show ?case
    using sql_tokens_prepend [OF sql_char_reads [OF assms], of "[]" "[]" wildcard singlechar ch] by simp
next
  case (3 wildcard singlechar ch nxt rest)
  show ?case
  proof (cases "[ch] = [e] \<and> [nxt] \<in> {wildcard, singlechar, [e]}")
    case True
    have "sql_reads e (if [nxt] \<in> {''%'', ''_'', [e]} then [e] @ [nxt] else [nxt]) (Literal, nxt)"
      using sql_escaped_reads [of e nxt] by (auto simp: same_token_def intro!: sql_plain_reads)
    then show ?thesis using True sql_tokens_prepend 3(1) by simp
  next
    case False
    then show ?thesis using sql_tokens_prepend [OF sql_char_reads [OF assms]] 3(2) by auto
  qed
qed simp

text \<open>
  The SQL translation of a \<open>LIKE\<close> pattern is exact: for every choice of tokens with an escape
  character other than the two SQL wildcards, the SQL predicate is well-formed and matches the same
  texts as the pattern.
\<close>

theorem sql_like_exact:
  assumes "e \<notin> {CHR ''%'', CHR ''_''}"
  shows "like_predicate same e (cql_like_pattern_to_sql wildcard singlechar [e] pat) s =
    Some (like_match same (iter_like_tokens wildcard singlechar [e] pat) s)"
  using sql_pattern_tokens [OF assms, of wildcard singlechar pat] like_match_cong
  by (auto simp: like_predicate_def)

theorem sql_like_exact_witness:
  "like_predicate (=) backslash (cql_like_pattern_to_sql ''%'' ''.'' [backslash] ''a_b.%'') ''a_bcd'' = Some True"
  using sql_like_exact [of backslash "(=)" "''%''" "''.''" "''a_b.%''" "''a_bcd''"]
  by (simp add: classify_char_def)

section \<open>The Elasticsearch translation\<close>

definition es_plain :: "like_token list \<Rightarrow> bool" where
  "es_plain ts \<longleftrightarrow> (\<forall>c. (Literal, c) \<in> set ts \<longrightarrow> c \<notin> {CHR ''*'', CHR ''?'', backslash})"

lemma es_tokens_plain: "es_plain ts \<Longrightarrow> list_all2 same_token (es_wildcard_tokens (map es_token ts)) ts"
proof (induction ts)
  case (Cons t ts)
  obtain k c where t: "t = (k, c)" by fastforce
  have one: "same_token (es_kind (es_token t), es_token t) t" "es_token t \<noteq> backslash"
    using Cons.prems t by (cases k; auto simp: es_plain_def same_token_def es_kind_def)+
  have "list_all2 same_token (es_wildcard_tokens (map es_token ts)) ts" using Cons by (simp add: es_plain_def)
  then show ?case using one by (cases ts) auto
qed simp

text \<open>
  The two backends agree on \<open>LIKE\<close>: a pattern whose literal characters are none of the three
  special characters of the Elasticsearch query matches the same texts in Elasticsearch as in SQL.
\<close>

theorem like_backends_agree:
  assumes "e \<notin> {CHR ''%'', CHR ''_''}" "es_plain (iter_like_tokens wildcard singlechar [e] pat)"
  shows "like_predicate same e (cql_like_pattern_to_sql wildcard singlechar [e] pat) s =
    Some (es_wildcard same (like_to_wildcard pat wildcard singlechar [e]) s)"
proof -
  have "es_wildcard same (like_to_wildcard pat wildcard singlechar [e]) s =
      like_match same (iter_like_tokens wildcard singlechar [e] pat) s"
    using like_match_cong [OF es_tokens_plain [OF assms(2)]] by (simp add: es_wildcard_def like_to_wildcard_def)
  moreover have "like_predicate same e (cql_like_pattern_to_sql wildcard singlechar [e] pat) s =
      Some (like_match same (iter_like_tokens wildcard singlechar [e] pat) s)"
    using sql_pattern_tokens [OF assms(1), of wildcard singlechar pat] like_match_cong by (auto simp: like_predicate_def)
  ultimately show ?thesis by simp
qed

theorem like_backends_agree_witness:
  "like_predicate (=) backslash (cql_like_pattern_to_sql ''%'' ''.'' [backslash] ''a.%'') ''abcd'' =
     Some (es_wildcard (=) (like_to_wildcard ''a.%'' ''%'' ''.'' [backslash]) ''abcd'')"
  by (rule like_backends_agree) (simp_all add: classify_char_def es_plain_def)

text \<open>
  A star or question mark in the pattern is a literal for CQL2 and SQL, but reaches the \<open>wildcard\<close>
  query unescaped and matches anything there; an escaped backslash turns the wildcard behind it into
  a literal.
\<close>

theorem like_literal_leaks:
  "like_predicate (=) backslash (cql_like_pattern_to_sql ''%'' ''.'' [backslash] ''a*'') ''abc'' = Some False \<and>
   es_wildcard (=) (like_to_wildcard ''a*'' ''%'' ''.'' [backslash]) ''abc'' \<and>
   like_predicate (=) backslash (cql_like_pattern_to_sql ''%'' ''.'' [backslash] (''a'' @ [backslash, backslash] @ ''%''))
     (''a'' @ [backslash] @ ''b'') = Some True \<and>
   \<not> es_wildcard (=) (like_to_wildcard (''a'' @ [backslash, backslash] @ ''%'') ''%'' ''.'' [backslash]) (''a'' @ [backslash] @ ''b'')"
  by (simp add: like_predicate_def es_wildcard_def like_to_wildcard_def classify_char_def sql_char_def es_kind_def)

end
