(* ===== verification/Cql_Text.thy ===== *)
theory Cql_Text
  imports Py_Values "HOL-Library.Sublist"
begin

text \<open>
  The text side of the CQL2 filter pipeline (\<open>modules/tools/cql.py\<close>): the rewriting of doubled quotes
  before and after the third-party parser, the renaming of bind parameters after the third-party
  compiler, the collection of property names, and \<open>parse_cql_filter\<close> and \<open>parse_cql2_json_filter\<close> around
  them.  Parsers, SQL evaluator and compiler are outside the repository and are parameters.
\<close>

section \<open>Replacement of a text\<close>

text \<open>\<open>s.replace(old, new)\<close> for a non-empty \<open>old\<close>: leftmost matches that do not overlap.\<close>

function replace_all :: "string \<Rightarrow> string \<Rightarrow> string \<Rightarrow> string" where
  "replace_all old new s =
     (case s of
        [] \<Rightarrow> []
      | c # cs \<Rightarrow>
          if old \<noteq> [] \<and> take (length old) s = old then new @ replace_all old new (drop (length old) s)
          else c # replace_all old new cs)"
  by pat_completeness auto
termination
  by (relation "measure (\<lambda>(old, new, s). length s)") (auto simp: length_greater_0_conv [symmetric] simp del: length_greater_0_conv)

declare replace_all.simps [simp del]

lemma replace_all_Nil [simp]: "replace_all old new [] = []"
  by (simp add: replace_all.simps)

lemma replace_all_hit:
  assumes "old \<noteq> []"
  shows "replace_all old new (old @ s) = new @ replace_all old new s"
proof (cases old)
  case (Cons a l)
  then show ?thesis by (subst replace_all.simps) simp
qed (use assms in simp)

lemma replace_all_miss:
  "\<not> (old \<noteq> [] \<and> take (length old) (c # s) = old) \<Longrightarrow> replace_all old new (c # s) = c # replace_all old new s"
  by (subst replace_all.simps) auto

lemma replace_all_head:
  assumes "old = o1 # os" "c \<noteq> o1"
  shows "replace_all old new (c # s) = c # replace_all old new s"
  using assms by (intro replace_all_miss) auto

lemma replace_all_absent:
  assumes "old = o1 # os" "o1 \<notin> set s"
  shows "replace_all old new s = s"
  using assms(2)
proof (induction s)
  case (Cons c s)
  then show ?case using replace_all_head [OF assms(1), of c new s] by auto
qed simp

section \<open>Quotes\<close>

abbreviation quote :: char where "quote \<equiv> CHR 0x27"

definition quote_escape_sentinel :: string where
  "quote_escape_sentinel = [CHR 0x00, CHR 0x01] @ ''CQLQUOTE'' @ [CHR 0x01, CHR 0x00]"

fun quote_scan :: "bool \<Rightarrow> string \<Rightarrow> string" where
  "quote_scan in_literal [] = []"
| "quote_scan in_literal [ch] = [ch]"
| "quote_scan in_literal (ch # next # rest) =
     (if ch \<noteq> quote then ch # quote_scan in_literal (next # rest)
      else if \<not> in_literal then quote # quote_scan True (next # rest)
      else if next = quote then quote_escape_sentinel @ quote_scan True rest
      else quote # quote_scan False (next # rest))"

definition preprocess_cql2_text_quotes :: "string \<Rightarrow> string" where
  "preprocess_cql2_text_quotes cql_text = quote_scan False (replace_all quote_escape_sentinel [] cql_text)"

text \<open>
  The parsed tree as the Python objects the walks see: strings, other scalars, dictionaries, lists and
  tuples, and objects with a class name and named fields.
\<close>

datatype obj =
    OStr string
  | OScal scalar
  | ODict dict
  | OSeq "obj list"
  | ONode string "(string \<times> obj) list"

abbreviation unescape :: "string \<Rightarrow> string" where
  "unescape \<equiv> replace_all quote_escape_sentinel [quote]"

fun restore_escaped_quotes :: "obj \<Rightarrow> obj" where
  "restore_escaped_quotes (ONode cls kvs) =
     ONode cls (map (\<lambda>(name, v). (name,
       case v of
         OStr s \<Rightarrow> OStr (unescape s)
       | OSeq items \<Rightarrow> OSeq (map (\<lambda>item. case item of OStr s \<Rightarrow> OStr (unescape s) | _ \<Rightarrow> restore_escaped_quotes item) items)
       | _ \<Rightarrow> restore_escaped_quotes v)) kvs)"
| "restore_escaped_quotes v = v"

subsection \<open>Literals survive the grammar\<close>

text \<open>
  A filter text as plain text and string literals in turn; a literal doubles the quotes of its value.
  The grammar of the parser reads a literal from a quote to the next quote.
\<close>

fun double_quotes :: "string \<Rightarrow> string" where
  "double_quotes [] = []"
| "double_quotes (c # cs) = (if c = quote then [quote, quote] else [c]) @ double_quotes cs"

fun encode_quotes :: "string \<Rightarrow> string" where
  "encode_quotes [] = []"
| "encode_quotes (c # cs) = (if c = quote then quote_escape_sentinel else [c]) @ encode_quotes cs"

fun render_literals :: "(string \<times> string) list \<Rightarrow> string" where
  "render_literals [] = []"
| "render_literals ((v, p) # ls) = [quote] @ double_quotes v @ [quote] @ p @ render_literals ls"

fun literals_ok :: "(string \<times> string) list \<Rightarrow> bool" where
  "literals_ok [] \<longleftrightarrow> True"
| "literals_ok ((v, p) # ls) \<longleftrightarrow> quote \<notin> set p \<and> (ls = [] \<or> p \<noteq> []) \<and> literals_ok ls"

lemma sentinel_Cons: "quote_escape_sentinel = CHR 0x00 # tl quote_escape_sentinel"
  by (simp add: quote_escape_sentinel_def)

lemma quote_notin_sentinel: "quote \<notin> set quote_escape_sentinel"
  by (simp add: quote_escape_sentinel_def)

lemma unescape_encode: "CHR 0x00 \<notin> set v \<Longrightarrow> unescape (encode_quotes v) = v"
proof (induction v)
  case (Cons c v)
  show ?case
  proof (cases "c = quote")
    case True
    then show ?thesis using Cons replace_all_hit [of quote_escape_sentinel "[quote]" "encode_quotes v"]
      by (simp add: quote_escape_sentinel_def)
  next
    case False
    then show ?thesis using Cons replace_all_head [OF sentinel_Cons, of c "[quote]" "encode_quotes v"] by auto
  qed
qed simp

lemma quote_notin_encode: "quote \<notin> set (encode_quotes v)"
  by (induction v) (auto simp: quote_notin_sentinel)

lemma quote_scan_plain:
  "quote \<notin> set p \<Longrightarrow> quote_scan b (p @ s) = p @ quote_scan b s"
proof (induction p)
  case (Cons c p)
  then show ?case by (cases "p @ s") auto
qed simp

lemma quote_scan_open: "s \<noteq> [] \<Longrightarrow> quote_scan False (quote # s) = quote # quote_scan True s"
  by (cases s) auto

lemma quote_scan_close:
  "s = [] \<or> hd s \<noteq> quote \<Longrightarrow> quote_scan True (quote # s) = quote # quote_scan False s"
  by (cases s) auto

lemma quote_scan_value:
  "s \<noteq> [] \<Longrightarrow> quote_scan True (double_quotes v @ s) = encode_quotes v @ quote_scan True s"
proof (induction v)
  case (Cons c v)
  show ?case
  proof (cases "c = quote")
    case False
    then show ?thesis using Cons quote_scan_plain [of "[c]" True "double_quotes v @ s"] by simp
  qed (use Cons in simp)
qed simp

lemma quote_scan_render:
  "literals_ok ls \<Longrightarrow> quote_scan False (render_literals ls) = concat (map (\<lambda>(v, p). [quote] @ encode_quotes v @ [quote] @ p) ls)"
proof (induction ls)
  case (Cons l ls)
  obtain v p where l: "l = (v, p)" by fastforce
  let ?rest = "p @ render_literals ls"
  have "?rest = [] \<or> hd ?rest \<noteq> quote" using Cons.prems l by (cases p) auto
  then have "quote_scan True (quote # ?rest) = quote # quote_scan False ?rest" by (rule quote_scan_close)
  moreover have "quote_scan False ?rest = p @ quote_scan False (render_literals ls)"
    using quote_scan_plain [of p False "render_literals ls"] Cons.prems l by simp
  ultimately show ?case using l Cons
    by (simp add: quote_scan_open quote_scan_value)
qed simp

lemma split_on_plain_last: "c \<notin> set p \<Longrightarrow> split_on c p = [p]"
  by (induction p) auto

lemma split_on_plain: "c \<notin> set p \<Longrightarrow> split_on c (p @ c # s) = p # split_on c s"
  by (induction p) auto

lemma split_encoded:
  assumes "quote \<notin> set p0" "literals_ok ls"
  shows "split_on quote (p0 @ concat (map (\<lambda>(v, p). [quote] @ encode_quotes v @ [quote] @ p) ls)) =
    p0 # concat (map (\<lambda>(v, p). [encode_quotes v, p]) ls)"
  using assms
proof (induction ls arbitrary: p0)
  case Nil
  then show ?case by (simp add: split_on_plain_last)
next
  case (Cons l ls)
  obtain v p where l: "l = (v, p)" by fastforce
  then show ?case using Cons split_on_plain [of quote p0]
      split_on_plain [of quote "encode_quotes v" "p @ concat (map (\<lambda>(v, p). [quote] @ encode_quotes v @ [quote] @ p) ls)"]
    by (simp add: quote_notin_encode)
qed

lemma render_set: "CHR 0x00 \<notin> set (render_literals ls) \<Longrightarrow> (v, p) \<in> set ls \<Longrightarrow> CHR 0x00 \<notin> set v"
proof -
  have dq: "set v \<subseteq> set (double_quotes v)" for v by (induction v) auto
  show "CHR 0x00 \<notin> set (render_literals ls) \<Longrightarrow> (v, p) \<in> set ls \<Longrightarrow> CHR 0x00 \<notin> set v"
    by (induction ls) (auto dest: subsetD [OF dq])
qed

text \<open>
  C30. String literals survive the quote rewriting: in a filter text without the null character, the
  parts between quotes that the grammar sees are the plain parts and the literals in order, and
  restoring a literal gives exactly the value whose quotes the user doubled.
\<close>

theorem quoted_literals_roundtrip:
  assumes "quote \<notin> set p0" "literals_ok ls" "CHR 0x00 \<notin> set (p0 @ render_literals ls)"
  shows "split_on quote (preprocess_cql2_text_quotes (p0 @ render_literals ls)) =
      p0 # concat (map (\<lambda>(v, p). [encode_quotes v, p]) ls) \<and>
    list_all (\<lambda>(v, p). unescape (encode_quotes v) = v) ls"
proof -
  have "replace_all quote_escape_sentinel [] (p0 @ render_literals ls) = p0 @ render_literals ls"
    using replace_all_absent [OF sentinel_Cons] assms(3) by blast
  then have "preprocess_cql2_text_quotes (p0 @ render_literals ls) =
      p0 @ concat (map (\<lambda>(v, p). [quote] @ encode_quotes v @ [quote] @ p) ls)"
    using quote_scan_plain [OF assms(1), of False "render_literals ls"] quote_scan_render [OF assms(2)]
    by (simp add: preprocess_cql2_text_quotes_def)
  moreover have "list_all (\<lambda>(v, p). unescape (encode_quotes v) = v) ls"
    using assms(3) render_set by (auto simp: list_all_iff intro!: unescape_encode)
  ultimately show ?thesis using split_encoded [OF assms(1,2)] by simp
qed

theorem quoted_literals_roundtrip_witness:
  "split_on quote (preprocess_cql2_text_quotes (''a = '' @ render_literals [([quote] @ ''PK'' @ [quote], '' ''), (''x'', [])])) =
     [''a = '', quote_escape_sentinel @ ''PK'' @ quote_escape_sentinel, '' '', ''x'', []] \<and>
   unescape (quote_escape_sentinel @ ''PK'' @ quote_escape_sentinel) = [quote] @ ''PK'' @ [quote]"
  using quoted_literals_roundtrip [of "''a = ''" "[([quote] @ ''PK'' @ [quote], '' ''), (''x'', [])]"] by simp

text \<open>
  The removal of sentinels from the input does not hold off a crafted one: a sentinel inside the two
  halves of another is removed and leaves the outer one, which then turns into a quote.
\<close>

theorem nested_sentinel_survives:
  "preprocess_cql2_text_quotes (take 5 quote_escape_sentinel @ quote_escape_sentinel @ drop 5 quote_escape_sentinel) =
     quote_escape_sentinel \<and> unescape quote_escape_sentinel = [quote]"
  by (simp add: preprocess_cql2_text_quotes_def quote_escape_sentinel_def replace_all.simps)

section \<open>Bind parameters\<close>

text \<open>
  The compiled fragment as text and placeholders.  \<open>word\<close> is the character class \<open>\\w\<close>.  The name
  pattern also accepts a line break at the end.
\<close>

definition safe_param_name :: "(char \<Rightarrow> bool) \<Rightarrow> string \<Rightarrow> bool" where
  "safe_param_name word k \<longleftrightarrow>
     k \<noteq> [] \<and> (let w = (if last k = CHR 0x0A then butlast k else k) in w \<noteq> [] \<and> list_all word w)"

definition cqlp :: "nat \<Rightarrow> string" where
  "cqlp n = ''cqlp_'' @ nat_str n"

lemma cqlp_inject [simp]: "cqlp m = cqlp n \<longleftrightarrow> m = n"
  by (simp add: cqlp_def)

lemma finite_taken: "finite {j. i \<le> j \<and> cqlp j \<in> set used}"
proof (rule finite_imageD [of cqlp])
  show "finite (cqlp ` {j. i \<le> j \<and> cqlp j \<in> set used})" by (rule finite_subset [of _ "set used"]) auto
qed (auto intro: inj_onI)

text \<open>\<open>while f"cqlp_{idx}" in used\<close>.\<close>

function next_free :: "string list \<Rightarrow> nat \<Rightarrow> nat" where
  "next_free used idx = (if cqlp idx \<in> set used then next_free used (idx + 1) else idx)"
  by pat_completeness auto

termination
proof (relation "measure (\<lambda>(used, idx). card {j. idx \<le> j \<and> cqlp j \<in> set used})")
  fix used idx
  assume "cqlp idx \<in> set used"
  then have "idx \<in> {j. idx \<le> j \<and> cqlp j \<in> set used}" "idx \<notin> {j. idx + 1 \<le> j \<and> cqlp j \<in> set used}" by simp_all
  moreover have "{j. idx + 1 \<le> j \<and> cqlp j \<in> set used} \<subseteq> {j. idx \<le> j \<and> cqlp j \<in> set used}" by auto
  ultimately have "{j. idx + 1 \<le> j \<and> cqlp j \<in> set used} \<subset> {j. idx \<le> j \<and> cqlp j \<in> set used}" by blast
  then show "((used, idx + 1), used, idx) \<in> measure (\<lambda>(used, idx). card {j. idx \<le> j \<and> cqlp j \<in> set used})"
    using psubset_card_mono [OF finite_taken] by auto
qed simp

declare next_free.simps [simp del]

lemma next_free_unused: "cqlp (next_free used idx) \<notin> set used \<and> idx \<le> next_free used idx"
proof (induction used idx rule: next_free.induct)
  case (1 used idx)
  then show ?case by (subst (1 2) next_free.simps) auto
qed

text \<open>\<open>re.sub(rf":{re.escape(key)}(?!\\w)", f":{safe}", where)\<close>.\<close>

definition placeholder_at :: "(char \<Rightarrow> bool) \<Rightarrow> string \<Rightarrow> string \<Rightarrow> bool" where
  "placeholder_at word key s \<longleftrightarrow> take (length key + 1) s = CHR '':'' # key \<and>
     (case drop (length key + 1) s of [] \<Rightarrow> True | c # _ \<Rightarrow> \<not> word c)"

function sub_placeholder :: "(char \<Rightarrow> bool) \<Rightarrow> string \<Rightarrow> string \<Rightarrow> string \<Rightarrow> string" where
  "sub_placeholder word key new s =
     (case s of
        [] \<Rightarrow> []
      | c # cs \<Rightarrow>
          if placeholder_at word key s then CHR '':'' # new @ sub_placeholder word key new (drop (length key + 1) s)
          else c # sub_placeholder word key new cs)"
  by pat_completeness auto
termination
  by (relation "measure (\<lambda>(w, k, n, s). length s)") auto

declare sub_placeholder.simps [simp del]

fun rename_params ::
  "(char \<Rightarrow> bool) \<Rightarrow> (string \<times> 'v) list \<Rightarrow> string list \<Rightarrow> string list \<Rightarrow> nat \<Rightarrow> string \<Rightarrow> (string \<times> 'v) list \<Rightarrow>
   string \<times> (string \<times> 'v) list" where
  "rename_params word params [] used idx whr new_params = (whr, new_params)"
| "rename_params word params (key # keys) used idx whr new_params =
     (let n = next_free used idx; safe = cqlp n in
      rename_params word params keys (safe # used) (n + 1) (sub_placeholder word key safe whr)
        (case map_of params key of None \<Rightarrow> new_params | Some v \<Rightarrow> dset safe v new_params))"

definition sanitize_bind_param_names ::
  "(char \<Rightarrow> bool) \<Rightarrow> string \<Rightarrow> (string \<times> 'v) list \<Rightarrow> string \<times> (string \<times> 'v) list" where
  "sanitize_bind_param_names word whr params =
     (let unsafe = [k \<leftarrow> map fst params. \<not> safe_param_name word k] in
      if unsafe = [] then (whr, params)
      else (let new_params = [kv \<leftarrow> params. safe_param_name word (fst kv)] in
            rename_params word params (sort_key (\<lambda>k. - int (length k)) unsafe) (map fst new_params) 0 whr new_params))"

text \<open>A compiled fragment as text pieces and placeholders.\<close>

datatype frag = Txt string | Ph string

fun frag_str :: "frag \<Rightarrow> string" where
  "frag_str (Txt t) = t"
| "frag_str (Ph n) = CHR '':'' # n"

fun map_ph :: "(string \<Rightarrow> string) \<Rightarrow> frag \<Rightarrow> frag" where
  "map_ph \<sigma> (Txt t) = Txt t"
| "map_ph \<sigma> (Ph n) = Ph (\<sigma> n)"

abbreviation sql_str :: "frag list \<Rightarrow> string" where
  "sql_str xs \<equiv> concat (map frag_str xs)"

text \<open>No colon inside a text starts something comparable with a key.\<close>

definition colons_ok :: "string list \<Rightarrow> string \<Rightarrow> bool" where
  "colons_ok keys t \<longleftrightarrow> (\<forall>u v. t = u @ CHR '':'' # v \<longrightarrow> (\<forall>k\<in>set keys. \<not> prefix k v \<and> \<not> prefix v k))"

fun frag_ok :: "string list \<Rightarrow> frag \<Rightarrow> bool" where
  "frag_ok keys (Txt t) \<longleftrightarrow> t \<noteq> [] \<and> colons_ok keys t"
| "frag_ok keys (Ph n) \<longleftrightarrow> n \<noteq> [] \<and> colons_ok keys n \<and> (\<forall>k\<in>set keys. n \<noteq> k \<longrightarrow> \<not> prefix n k)"

text \<open>A placeholder is not followed by a word character.\<close>

fun delimited :: "(char \<Rightarrow> bool) \<Rightarrow> frag list \<Rightarrow> bool" where
  "delimited word [] \<longleftrightarrow> True"
| "delimited word (x # xs) \<longleftrightarrow>
     (case (x, xs) of (Ph n, Txt (c # t) # ys) \<Rightarrow> \<not> word c | _ \<Rightarrow> True) \<and> delimited word xs"

lemma delimited_map: "delimited word (map (map_ph \<sigma>) xs) \<longleftrightarrow> delimited word xs"
proof (induction xs)
  case (Cons x xs)
  show ?case
  proof (cases xs)
    case (Cons y ys)
    then show ?thesis using Cons.IH by (cases x; cases y) simp_all
  qed (use Cons in \<open>cases x; simp\<close>)
qed simp

lemma delimited_rest:
  assumes "delimited word (Ph n # xs)" "list_all (frag_ok keys) xs" "\<not> word (CHR '':'')"
  shows "case sql_str xs of [] \<Rightarrow> True | c # _ \<Rightarrow> \<not> word c"
proof (cases xs)
  case (Cons x ys)
  then show ?thesis using assms by (cases x; cases "frag_str x") auto
qed simp

lemma sub_pass:
  assumes "\<And>u v. t = u @ v \<Longrightarrow> v \<noteq> [] \<Longrightarrow> \<not> placeholder_at word key (v @ r)"
  shows "sub_placeholder word key new (t @ r) = t @ sub_placeholder word key new r"
  using assms
proof (induction t)
  case (Cons c t)
  have "\<not> placeholder_at word key ((c # t) @ r)" by (rule Cons.prems [of "[]"]) simp_all
  then have "sub_placeholder word key new ((c # t) @ r) = c # sub_placeholder word key new (t @ r)"
    by (subst sub_placeholder.simps) simp
  moreover have "\<not> placeholder_at word key (v @ r)" if "t = u @ v" "v \<noteq> []" for u v
    using Cons.prems [of "c # u" v] that by simp
  ultimately show ?case using Cons.IH by simp
qed simp

lemma placeholder_at_iff:
  "placeholder_at word key s \<longleftrightarrow> (\<exists>r. s = CHR '':'' # key @ r \<and> (case r of [] \<Rightarrow> True | c # _ \<Rightarrow> \<not> word c))"
proof
  assume "placeholder_at word key s"
  then have "s = (CHR '':'' # key) @ drop (length key + 1) s"
    "case drop (length key + 1) s of [] \<Rightarrow> True | c # _ \<Rightarrow> \<not> word c"
    unfolding placeholder_at_def using append_take_drop_id [of "length key + 1" s] by simp_all
  then show "\<exists>r. s = CHR '':'' # key @ r \<and> (case r of [] \<Rightarrow> True | c # _ \<Rightarrow> \<not> word c)" by auto
qed (auto simp: placeholder_at_def)

lemma append_comparable: "a @ r = b @ r' \<Longrightarrow> prefix a b \<or> prefix b a"
  by (auto simp: append_eq_append_conv2 prefix_def)

lemma colons_no_start:
  assumes "colons_ok keys t" "key \<in> set keys" "t = u @ v" "v \<noteq> []"
  shows "\<not> placeholder_at word key (v @ r)"
proof
  assume "placeholder_at word key (v @ r)"
  then obtain r' where v: "v @ r = CHR '':'' # key @ r'" using placeholder_at_iff by blast
  then obtain v' where v': "v = CHR '':'' # v'" using assms(4) by (cases v) simp_all
  then have "t = u @ CHR '':'' # v'" using assms(3) by simp
  then have "\<not> prefix key v' \<and> \<not> prefix v' key" using assms(1,2) unfolding colons_ok_def by blast
  moreover have "v' @ r = key @ r'" using v v' by simp
  then have "prefix v' key \<or> prefix key v'" by (rule append_comparable)
  ultimately show False by blast
qed

lemma sub_step:
  assumes "list_all (frag_ok keys) xs" "delimited word xs" "key \<in> set keys" "\<not> word (CHR '':'')"
    "\<And>n. Ph n \<in> set xs \<Longrightarrow> n \<noteq> key \<Longrightarrow> \<not> prefix key n"
  shows "sub_placeholder word key new (sql_str xs) = sql_str (map (map_ph (\<lambda>n. if n = key then new else n)) xs)"
  using assms(1,2,5)
proof (induction xs)
  case Nil
  then show ?case by (simp add: sub_placeholder.simps)
next
  case (Cons x xs)
  let ?r = "sql_str xs"
  have ih: "sub_placeholder word key new ?r = sql_str (map (map_ph (\<lambda>n. if n = key then new else n)) xs)"
    using Cons by simp
  show ?case
  proof (cases x)
    case (Txt t)
    have "sub_placeholder word key new (t @ ?r) = t @ sub_placeholder word key new ?r"
      by (rule sub_pass) (use Cons.prems(1) Txt assms(3) colons_no_start in auto)
    then show ?thesis using ih Txt by simp
  next
    case (Ph n)
    show ?thesis
    proof (cases "n = key")
      case True
      have "placeholder_at word key (CHR '':'' # key @ ?r)"
        using delimited_rest [of word n xs keys] Cons.prems Ph assms(4) by (auto simp: placeholder_at_iff)
      then show ?thesis using ih Ph True by (simp add: sub_placeholder.simps [of word key new "CHR '':'' # key @ ?r"])
    next
      case False
      have ok: "colons_ok keys n" "\<not> prefix n key" "\<not> prefix key n"
        using Cons.prems Ph False assms(3) by auto
      have "sub_placeholder word key new ((CHR '':'' # n) @ ?r) = (CHR '':'' # n) @ sub_placeholder word key new ?r"
      proof (rule sub_pass)
        fix u v
        assume uv: "CHR '':'' # n = u @ v" "v \<noteq> []"
        show "\<not> placeholder_at word key (v @ ?r)"
        proof (cases u)
          case Nil
          have "\<not> (\<exists>r'. n @ ?r = key @ r')" using ok append_comparable [of n ?r key] by blast
          then show ?thesis using uv Nil by (auto simp: placeholder_at_iff)
        next
          case (Cons a u')
          then show ?thesis using uv colons_no_start [OF ok(1) assms(3), of u' v] by auto
        qed
      qed
      then show ?thesis using ih Ph False by simp
    qed
  qed
qed

lemma safe_prefix:
  assumes "safe_param_name word n" "prefix k n" "k \<noteq> []" "\<not> word (CHR 0x0A)"
  shows "safe_param_name word k"
proof -
  obtain m where m: "n = k @ m" using assms(2) by (auto simp: prefix_def)
  let ?w = "if last n = CHR 0x0A then butlast n else n"
  have w: "?w \<noteq> []" "list_all word ?w" using assms(1) by (auto simp: safe_param_name_def Let_def)
  show ?thesis
  proof (cases "m = []")
    case False
    then have "list_all word k" using w(2) m by (auto simp: butlast_append split: if_splits)
    then have "word (last k)" using assms(3) by (simp add: list_all_iff)
    then have "last k \<noteq> CHR 0x0A" using assms(4) by metis
    then show ?thesis using \<open>list_all word k\<close> assms(3) by (simp add: safe_param_name_def)
  qed (use assms(1) m in simp)
qed

text \<open>The character class of names: letters of the generated names and digits, but no colon and no line break.\<close>

definition word_class :: "(char \<Rightarrow> bool) \<Rightarrow> bool" where
  "word_class word \<longleftrightarrow> list_all word ''cqlp_'' \<and> (\<forall>c. is_digit c \<longrightarrow> word c) \<and> \<not> word (CHR '':'') \<and> \<not> word (CHR 0x0A)"

lemma cqlp_word: "word_class word \<Longrightarrow> list_all word (cqlp n)"
  using nat_str_digits by (auto simp: word_class_def cqlp_def list_all_iff)

lemma cqlp_safe: "word_class word \<Longrightarrow> safe_param_name word (cqlp n)"
proof -
  assume wc: "word_class word"
  have "last (cqlp n) \<in> set (cqlp n)" by (rule last_in_set) (simp add: cqlp_def)
  then have "last (cqlp n) \<noteq> CHR 0x0A" using cqlp_word [OF wc, of n] wc by (auto simp: list_all_iff word_class_def)
  then show ?thesis using cqlp_word [OF wc, of n] by (simp add: safe_param_name_def cqlp_def)
qed

lemma no_colons_ok [simp]: "CHR '':'' \<notin> set t \<Longrightarrow> colons_ok keys t"
  by (auto simp: colons_ok_def)

lemma cqlp_colons: "word_class word \<Longrightarrow> colons_ok keys (cqlp n)"
proof -
  assume wc: "word_class word"
  then have "CHR '':'' \<notin> set (cqlp n)" using cqlp_word [OF wc, of n] by (auto simp: list_all_iff word_class_def)
  then show ?thesis by simp
qed

text \<open>Keys as the renaming loop meets them: unsafe, not empty, not of the generated form, longest first.\<close>

definition keys_ok :: "(char \<Rightarrow> bool) \<Rightarrow> string list \<Rightarrow> bool" where
  "keys_ok word keys \<longleftrightarrow> distinct keys \<and> sorted_wrt (\<lambda>a b. length b \<le> length a) keys \<and>
     (\<forall>k\<in>set keys. k \<noteq> [] \<and> \<not> safe_param_name word k \<and> \<not> prefix ''cqlp_'' k)"

lemma cqlp_not_prefix: "keys_ok word keys \<Longrightarrow> k \<in> set keys \<Longrightarrow> \<not> prefix (cqlp n) k"
  unfolding keys_ok_def cqlp_def using append_prefixD by blast

lemma frag_ok_subset: "frag_ok keys x \<Longrightarrow> set ks \<subseteq> set keys \<Longrightarrow> frag_ok ks x"
  by (cases x) (auto simp: colons_ok_def)

lemma frag_ok_renamed:
  assumes "word_class word" "keys_ok word (key # keys)" "frag_ok (key # keys) x"
  shows "frag_ok keys (map_ph (\<lambda>n. if n = key then cqlp m else n) x)"
proof (cases x)
  case (Ph n)
  have "keys_ok word keys" using assms(2) by (simp add: keys_ok_def)
  then show ?thesis
    using Ph frag_ok_subset [OF assms(3), of keys] cqlp_colons [OF assms(1)] cqlp_not_prefix
    by (auto simp: cqlp_def)
qed (use frag_ok_subset [OF assms(3), of keys] in auto)

text \<open>Every placeholder is a parameter: safe, or one of the keys still to rename.\<close>

definition names_ok :: "(char \<Rightarrow> bool) \<Rightarrow> string list \<Rightarrow> frag list \<Rightarrow> bool" where
  "names_ok word keys xs \<longleftrightarrow> (\<forall>n. Ph n \<in> set xs \<longrightarrow> safe_param_name word n \<or> n \<in> set keys)"

lemma names_ok_renamed:
  assumes "word_class word" "names_ok word (key # keys) xs"
  shows "names_ok word keys (map (map_ph (\<lambda>n. if n = key then cqlp m else n)) xs)"
  unfolding names_ok_def
proof (intro allI impI)
  fix n
  assume "Ph n \<in> set (map (map_ph (\<lambda>n. if n = key then cqlp m else n)) xs)"
  then obtain x where x: "x \<in> set xs" "Ph n = map_ph (\<lambda>n. if n = key then cqlp m else n) x" by auto
  from x(2) obtain n' where "x = Ph n'" "n = (if n' = key then cqlp m else n')" by (cases x) auto
  then show "safe_param_name word n \<or> n \<in> set keys"
    using x assms cqlp_safe [OF assms(1), of m] by (auto simp: names_ok_def split: if_splits)
qed

lemma key_not_prefix:
  assumes "word_class word" "keys_ok word (key # keys)" "names_ok word (key # keys) xs" "list_all (frag_ok (key # keys)) xs"
    "Ph n \<in> set xs" "n \<noteq> key"
  shows "\<not> prefix key n"
proof
  assume pre: "prefix key n"
  have key: "key \<noteq> []" "\<not> safe_param_name word key" using assms(2) by (auto simp: keys_ok_def)
  show False
  proof (cases "safe_param_name word n")
    case True
    then show False using safe_prefix [OF True pre key(1)] key(2) assms(1) by (simp add: word_class_def)
  next
    case False
    then have "n \<in> set keys" using assms(3,5,6) by (auto simp: names_ok_def)
    then have "length n \<le> length key" using assms(2) by (auto simp: keys_ok_def)
    then show False using pre assms(6) prefix_length_le [OF pre] by (auto simp: prefix_def)
  qed
qed

lemma rename_loop:
  assumes "word_class word" "keys_ok word keys" "names_ok word keys xs" "list_all (frag_ok keys) xs" "delimited word xs"
    "set keys \<subseteq> dom (map_of params)" "fst ` set np \<subseteq> set used"
  shows "\<exists>\<sigma> np'. rename_params word params keys used idx (sql_str xs) np = (sql_str (map (map_ph \<sigma>) xs), np') \<and>
    (\<forall>n. n \<notin> set keys \<longrightarrow> \<sigma> n = n) \<and>
    (\<forall>k\<in>set keys. \<exists>m. \<sigma> k = cqlp m \<and> cqlp m \<notin> set used \<and> map_of np' (\<sigma> k) = map_of params k) \<and>
    (\<forall>n\<in>set used. map_of np' n = map_of np n)"
  using assms
proof (induction keys arbitrary: xs used idx np)
  case Nil
  have "map_ph (\<lambda>n. n) x = x" for x by (cases x) auto
  then have "map (map_ph (\<lambda>n. n)) xs = xs" by (simp add: map_idI)
  then show ?case by (intro exI [of _ "\<lambda>n. n"] exI [of _ np]) simp
next
  case (Cons key keys)
  define n where "n = next_free used idx"
  define f where "f = (\<lambda>m. if m = key then cqlp n else m)"
  have fresh: "cqlp n \<notin> set used" using next_free_unused [of used idx] by (simp add: n_def)
  obtain v where v: "map_of params key = Some v" using Cons.prems(6) by auto
  have keys: "keys_ok word keys" "key \<notin> set keys" "cqlp n \<notin> set keys"
    using Cons.prems(1,2) cqlp_safe [of word n] by (auto simp: keys_ok_def)
  have step: "sub_placeholder word key (cqlp n) (sql_str xs) = sql_str (map (map_ph f) xs)"
    unfolding f_def
    by (rule sub_step [OF Cons.prems(4,5)])
       (use Cons.prems(1) key_not_prefix [OF Cons.prems(1-4)] in \<open>auto simp: word_class_def\<close>)
  have ok: "names_ok word keys (map (map_ph f) xs)" "list_all (frag_ok keys) (map (map_ph f) xs)"
      "delimited word (map (map_ph f) xs)" "set keys \<subseteq> dom (map_of params)"
      "fst ` set (dset (cqlp n) v np) \<subseteq> set (cqlp n # used)"
    using Cons.prems names_ok_renamed [OF Cons.prems(1,3)] frag_ok_renamed [OF Cons.prems(1,2)]
    by (auto simp: f_def list_all_iff delimited_map)
  obtain \<sigma> np' where ih: "rename_params word params keys (cqlp n # used) (n + 1) (sql_str (map (map_ph f) xs)) (dset (cqlp n) v np) =
        (sql_str (map (map_ph \<sigma>) (map (map_ph f) xs)), np')"
      "\<And>m. m \<notin> set keys \<Longrightarrow> \<sigma> m = m"
      "\<And>k. k \<in> set keys \<Longrightarrow> \<exists>m. \<sigma> k = cqlp m \<and> cqlp m \<notin> set (cqlp n # used) \<and> map_of np' (\<sigma> k) = map_of params k"
      "\<And>m. m \<in> set (cqlp n # used) \<Longrightarrow> map_of np' m = map_of (dset (cqlp n) v np) m"
    using Cons.IH [OF Cons.prems(1) keys(1) ok, of "n + 1"] by blast
  have comp: "map_ph \<sigma> (map_ph f x) = map_ph (\<sigma> \<circ> f) x" for x by (cases x) auto
  show ?case
  proof (intro exI conjI)
    show "rename_params word params (key # keys) used idx (sql_str xs) np = (sql_str (map (map_ph (\<sigma> \<circ> f)) xs), np')"
      using ih(1) step v by (simp add: n_def [symmetric] comp Let_def comp_def)
    show "\<forall>m. m \<notin> set (key # keys) \<longrightarrow> (\<sigma> \<circ> f) m = m" using ih(2) by (auto simp: f_def)
    show "\<forall>k\<in>set (key # keys). \<exists>m. (\<sigma> \<circ> f) k = cqlp m \<and> cqlp m \<notin> set used \<and> map_of np' ((\<sigma> \<circ> f) k) = map_of params k"
    proof
      fix k
      assume "k \<in> set (key # keys)"
      then consider "k = key" | "k \<in> set keys" "k \<noteq> key" using keys(2) by auto
      then show "\<exists>m. (\<sigma> \<circ> f) k = cqlp m \<and> cqlp m \<notin> set used \<and> map_of np' ((\<sigma> \<circ> f) k) = map_of params k"
      proof cases
        case 1
        then show ?thesis using ih(2) [OF keys(3)] ih(4) [of "cqlp n"] fresh v by (simp add: f_def)
      next
        case 2
        then show ?thesis using ih(3) [of k] by (auto simp: f_def)
      qed
    qed
    show "\<forall>m\<in>set used. map_of np' m = map_of np m" using ih(4) fresh by auto
  qed
qed

text \<open>
  Renaming bind parameters keeps their values.  For a compiled fragment whose placeholders are
  its parameters, delimited by characters that are not word characters, there is a renaming that the
  fragment and the parameters share: every placeholder gets a name that the text scanner accepts, and
  the value bound to the new name is the value that was bound to the old one.
\<close>

theorem bind_names_sound:
  assumes "word_class word" "distinct (map fst params)" "[] \<notin> fst ` set params"
    and "\<And>n. Ph n \<in> set xs \<Longrightarrow> n \<in> fst ` set params" "delimited word xs"
    and "list_all (frag_ok [k \<leftarrow> map fst params. \<not> safe_param_name word k]) xs"
    and "\<And>k. k \<in> fst ` set params \<Longrightarrow> \<not> safe_param_name word k \<Longrightarrow> \<not> prefix ''cqlp_'' k"
  shows "\<exists>\<sigma> params'. sanitize_bind_param_names word (sql_str xs) params = (sql_str (map (map_ph \<sigma>) xs), params') \<and>
    (\<forall>n\<in>fst ` set params. safe_param_name word (\<sigma> n) \<and> map_of params' (\<sigma> n) = map_of params n)"
proof -
  define unsafe where "unsafe = [k \<leftarrow> map fst params. \<not> safe_param_name word k]"
  define keys where "keys = sort_key (\<lambda>k. - int (length k)) unsafe"
  define np where "np = [kv \<leftarrow> params. safe_param_name word (fst kv)]"
  have sets: "set keys = set unsafe" "set unsafe \<subseteq> fst ` set params" by (auto simp: keys_def unsafe_def)
  have np: "map_of np n = map_of params n" if "safe_param_name word n" for n
    using that unfolding np_def by (induction params) auto
  show ?thesis
  proof (cases "unsafe = []")
    case True
    have "map_ph (\<lambda>n. n) x = x" for x by (cases x) auto
    then have "map (map_ph (\<lambda>n. n)) xs = xs" by (simp add: map_idI)
    moreover have "\<forall>n\<in>fst ` set params. safe_param_name word n" using True by (auto simp: unsafe_def filter_empty_conv)
    ultimately show ?thesis using True
      by (intro exI [of _ "\<lambda>n. n"] exI [of _ params]) (simp add: sanitize_bind_param_names_def unsafe_def [symmetric])
  next
    case False
    have sorted: "sorted_wrt (\<lambda>a b. length b \<le> length a) keys"
      using sorted_sort_key [of "\<lambda>k. - int (length k)" unsafe] by (simp add: keys_def sorted_map)
    have "k \<noteq> [] \<and> \<not> safe_param_name word k \<and> \<not> prefix ''cqlp_'' k" if "k \<in> set keys" for k
    proof -
      have "k \<in> fst ` set params" "\<not> safe_param_name word k" using that sets by (auto simp: unsafe_def)
      then show ?thesis using assms(3,7) by metis
    qed
    moreover have "distinct keys" using assms(2) by (simp add: keys_def unsafe_def)
    ultimately have ko: "keys_ok word keys" using sorted by (simp add: keys_ok_def)
    have no: "names_ok word keys xs" using assms(4) sets by (auto simp: names_ok_def unsafe_def)
    have fo: "list_all (frag_ok keys) xs"
      using assms(6) frag_ok_subset sets(1) unfolding list_all_iff unsafe_def [symmetric] by blast
    have dm: "set keys \<subseteq> dom (map_of params)" using sets by (auto simp: dom_map_of_conv_image_fst)
    have us: "fst ` set np \<subseteq> set (map fst np)" by simp
    obtain \<sigma> np' where r: "rename_params word params keys (map fst np) 0 (sql_str xs) np = (sql_str (map (map_ph \<sigma>) xs), np')"
        "\<And>n. n \<notin> set keys \<Longrightarrow> \<sigma> n = n"
        "\<And>k. k \<in> set keys \<Longrightarrow> \<exists>m. \<sigma> k = cqlp m \<and> map_of np' (\<sigma> k) = map_of params k"
        "\<And>n. n \<in> set (map fst np) \<Longrightarrow> map_of np' n = map_of np n"
      using rename_loop [OF assms(1) ko no fo assms(5) dm us, of 0] by blast
    have "safe_param_name word (\<sigma> n) \<and> map_of np' (\<sigma> n) = map_of params n" if "n \<in> fst ` set params" for n
    proof (cases "n \<in> set keys")
      case True
      then show ?thesis using r(3) [OF True] cqlp_safe [OF assms(1)] by auto
    next
      case False
      then have s: "safe_param_name word n" using that sets by (auto simp: unsafe_def)
      then have "n \<in> set (map fst np)" using that by (auto simp: np_def)
      then show ?thesis using r(2) [OF False] r(4) s np by simp
    qed
    moreover have "sanitize_bind_param_names word (sql_str xs) params = (sql_str (map (map_ph \<sigma>) xs), np')"
      using r(1) False by (simp add: sanitize_bind_param_names_def Let_def unsafe_def [symmetric] keys_def np_def)
    ultimately show ?thesis by blast
  qed
qed

text \<open>One quoted column and one plain column.\<close>

definition sample_word :: "char \<Rightarrow> bool" where
  "sample_word c \<longleftrightarrow> is_digit c \<or> c \<in> set ''abcdefghijklmnopqrstuvwxyz_''"

definition sample_frags :: "frag list" where
  "sample_frags = [Txt (CHR 0x22 # ''c'' @ [CHR 0x22] @ '' = ''), Ph (CHR 0x22 # ''c'' @ [CHR 0x22]), Txt '' AND d = '', Ph ''d_1'']"

definition sample_params :: "(string \<times> int) list" where
  "sample_params = [(CHR 0x22 # ''c'' @ [CHR 0x22], 5), (''d_1'', 7)]"

theorem bind_names_sound_witness:
  "\<exists>\<sigma> params'. sanitize_bind_param_names sample_word (sql_str sample_frags) sample_params =
      (sql_str (map (map_ph \<sigma>) sample_frags), params') \<and>
    (\<forall>n\<in>fst ` set sample_params. safe_param_name sample_word (\<sigma> n) \<and> map_of params' (\<sigma> n) = map_of sample_params n)"
proof (rule bind_names_sound)
  show "word_class sample_word" by (simp add: word_class_def sample_word_def is_digit_def)
qed (auto simp: sample_frags_def sample_params_def sample_word_def is_digit_def safe_param_name_def)

section \<open>Property names\<close>

text \<open>
  \<open>_extract_property_names\<close>: the fields \<open>lhs\<close>, \<open>rhs\<close> and \<open>node\<close>, and the members of the fields \<open>nodes\<close>,
  \<open>sub_nodes\<close> and \<open>arguments\<close>, where they are set and true.
\<close>

fun obj_true :: "obj \<Rightarrow> bool" where
  "obj_true (OStr s) \<longleftrightarrow> s \<noteq> []"
| "obj_true (OScal x) \<longleftrightarrow> truthy (JScalar x)"
| "obj_true (ODict d) \<longleftrightarrow> d \<noteq> []"
| "obj_true (OSeq xs) \<longleftrightarrow> xs \<noteq> []"
| "obj_true (ONode c f) \<longleftrightarrow> True"

fun seq_items :: "obj \<Rightarrow> obj list" where
  "seq_items (OSeq xs) = xs"
| "seq_items v = []"

definition name_children :: "(string \<times> obj) list \<Rightarrow> obj list" where
  "name_children kvs =
     [v. a \<leftarrow> [''lhs'', ''rhs'', ''node''], v \<leftarrow> (case map_of kvs a of Some v \<Rightarrow> if obj_true v then [v] else [] | None \<Rightarrow> [])] @
     [x. a \<leftarrow> [''nodes'', ''sub_nodes'', ''arguments''], v \<leftarrow> (case map_of kvs a of Some v \<Rightarrow> [v] | None \<Rightarrow> []), x \<leftarrow> seq_items v]"

lemma map_of_size: "map_of kvs a = Some v \<Longrightarrow> size v < size (ONode cls kvs)"
proof -
  assume "map_of kvs a = Some v"
  then have "(a, v) \<in> set kvs" by (rule map_of_SomeD)
  then show ?thesis by (induction kvs) auto
qed

lemma seq_items_size: "x \<in> set (seq_items v) \<Longrightarrow> size x < size v"
proof (cases v)
  case (OSeq xs)
  assume "x \<in> set (seq_items v)"
  then show ?thesis using OSeq size_list_estimation' [of x xs "size x" size] by fastforce
qed simp_all

lemma name_children_size:
  assumes "v \<in> set (name_children kvs)"
  shows "size v < size (ONode cls kvs)"
proof -
  consider a where "map_of kvs a = Some v" | a w where "map_of kvs a = Some w" "v \<in> set (seq_items w)"
    using assms by (auto simp: name_children_def split: option.splits if_splits) metis+
  then show ?thesis
  proof cases
    case (2 a w)
    show ?thesis using less_trans [OF seq_items_size [OF 2(2)] map_of_size [OF 2(1)]] .
  qed (rule map_of_size)
qed

function extract_property_names :: "obj \<Rightarrow> string list" where
  "extract_property_names (ONode cls kvs) =
     (case (cls, map_of kvs ''name'') of (''Attribute'', Some (OStr n)) \<Rightarrow> [n] | _ \<Rightarrow> []) @
     concat (map extract_property_names (name_children kvs))"
| "extract_property_names (OStr s) = []"
| "extract_property_names (OScal x) = []"
| "extract_property_names (ODict d) = []"
| "extract_property_names (OSeq xs) = []"
  by pat_completeness auto
termination
  by (relation "measure size") (auto simp del: obj.size dest: name_children_size)

section \<open>Coordinate systems of geometry literals\<close>

definition has_default_crs :: "obj option \<Rightarrow> bool" where
  "has_default_crs existing =
     (case existing of
        None \<Rightarrow> True
      | Some (OScal x) \<Rightarrow> x = SNone \<or> scalar_eq x (SInt 4326)
      | Some (OStr s) \<Rightarrow> s = [] \<or> list_ex (prefix ''4326'') (suffixes s)
      | _ \<Rightarrow> False)"

definition stamp_node :: "int \<Rightarrow> string \<Rightarrow> (string \<times> obj) list \<Rightarrow> (string \<times> obj) list" where
  "stamp_node srid cls kvs =
     (let kvs1 = (case map_of kvs ''geometry'' of
                    Some (ODict d) \<Rightarrow>
                      if map_of d ''crs'' = None
                      then dset ''geometry'' (ODict (dset ''crs'' (JObj [(''type'', JStr ''name''),
                             (''properties'', JObj [(''name'', JStr (''urn:ogc:def:crs:EPSG::'' @ int_str srid))])]) d)) kvs
                      else kvs
                  | _ \<Rightarrow> kvs)
      in if cls = ''BBox'' \<and> has_default_crs (map_of kvs1 ''crs'') then dset ''crs'' (OScal (SInt srid)) kvs1 else kvs1)"

text \<open>
  The walk stamps a node and then its fields; a stamped field is a dictionary or a number, which the
  walk leaves alone, so the fields can be visited first.
\<close>

fun stamp_geometry_srid :: "int \<Rightarrow> obj \<Rightarrow> obj" where
  "stamp_geometry_srid srid (ONode cls kvs) =
     ONode cls (stamp_node srid cls (map (\<lambda>(k, v). (k,
       case v of OSeq xs \<Rightarrow> OSeq (map (stamp_geometry_srid srid) xs) | _ \<Rightarrow> stamp_geometry_srid srid v)) kvs))"
| "stamp_geometry_srid srid v = v"

section \<open>The filter parsers\<close>

datatype cql_error = ImportErr | ValueErr | KeyErr | OtherErr

text \<open>The value of an evaluated filter: a Boolean or an SQL expression.\<close>

datatype 'x sql_filter = SqlBool bool | SqlExpr 'x

text \<open>The third-party functions, with the character class of the parameter scanner and \<open>str.lower\<close>.\<close>

record ('x, 'c) cql_lib =
  available :: bool
  lower :: "string \<Rightarrow> string"
  word_char :: "char \<Rightarrow> bool"
  parse_cql2_text :: "string \<Rightarrow> cql_error + obj"
  parse_ecql :: "string \<Rightarrow> cql_error + obj"
  parse_cql2_json :: "json \<Rightarrow> cql_error + obj"
  to_filter :: "obj \<Rightarrow> (string \<times> 'c) list \<Rightarrow> cql_error + 'x sql_filter"
  compile_sql :: "'x \<Rightarrow> cql_error + string \<times> (string \<times> json) list"

text \<open>The part the two parsers share: stamping, validation, evaluation and compilation.\<close>

definition check_properties :: "string list option \<Rightarrow> (string \<times> 'c) list option \<Rightarrow> obj \<Rightarrow> bool" where
  "check_properties valid_props field_mapping tree \<longleftrightarrow>
     (let valid = (case (valid_props, field_mapping) of
                     (None, Some m) \<Rightarrow> map fst m
                   | (None, None) \<Rightarrow> []
                   | (Some ps, _) \<Rightarrow> ps)
      in valid = [] \<or> list_all (\<lambda>p. p \<in> set valid) (extract_property_names tree))"

definition convert_filter ::
  "('x, 'c) cql_lib \<Rightarrow> (string \<times> 'c) list option \<Rightarrow> string list option \<Rightarrow> int option \<Rightarrow> obj \<Rightarrow>
   cql_error + string \<times> (string \<times> json) list" where
  "convert_filter C field_mapping valid_props geometry_srid tree0 =
     (let tree = (case geometry_srid of None \<Rightarrow> tree0 | Some srid \<Rightarrow> stamp_geometry_srid srid tree0) in
      if \<not> check_properties valid_props field_mapping tree then Inl ValueErr
      else (case field_mapping of
              None \<Rightarrow> Inl ValueErr
            | Some m \<Rightarrow>
                (case to_filter C tree m of
                   Inl KeyErr \<Rightarrow> Inl ValueErr
                 | Inl e \<Rightarrow> Inl e
                 | Inr (SqlBool b) \<Rightarrow> Inr (if b then [] else ''1=0'', [])
                 | Inr (SqlExpr x) \<Rightarrow>
                     (case compile_sql C x of
                        Inl e \<Rightarrow> Inl e
                      | Inr (whr, params) \<Rightarrow> Inr (sanitize_bind_param_names (word_char C) whr params)))))"

text \<open>Every exception inside the \<open>try\<close> block leaves as a \<open>ValueError\<close>.\<close>

definition as_value_error :: "cql_error + 'a \<Rightarrow> cql_error + 'a" where
  "as_value_error r = (case r of Inl e \<Rightarrow> Inl ValueErr | Inr x \<Rightarrow> Inr x)"

definition strip_outer_quotes :: "string \<Rightarrow> string" where
  "strip_outer_quotes t =
     (if 2 \<le> length t \<and> hd t = CHR 0x22 \<and> last t = CHR 0x22 then butlast (tl t) else t)"

definition parse_cql_filter ::
  "('x, 'c) cql_lib \<Rightarrow> string \<Rightarrow> (string \<times> 'c) list option \<Rightarrow> string list option \<Rightarrow> string \<Rightarrow> int option \<Rightarrow>
   cql_error + string \<times> (string \<times> json) list" where
  "parse_cql_filter C cql_text field_mapping valid_props parser_type geometry_srid =
     (if \<not> available C then Inl ImportErr
      else if cql_text = [] then Inr ([], [])
      else (let t = strip_outer_quotes cql_text in
            as_value_error
              (bind_e (if lower C parser_type = ''cql2''
                       then bind_e (parse_cql2_text C (preprocess_cql2_text_quotes t)) (\<lambda>tree. Inr (restore_escaped_quotes tree))
                       else if lower C parser_type = ''ecql'' then parse_ecql C t
                       else Inl ValueErr)
                 (convert_filter C field_mapping valid_props geometry_srid))))"

definition parse_cql2_json_filter ::
  "('x, 'c) cql_lib \<Rightarrow> json \<Rightarrow> (string \<times> 'c) list option \<Rightarrow> string list option \<Rightarrow> int option \<Rightarrow>
   cql_error + string \<times> (string \<times> json) list" where
  "parse_cql2_json_filter C cql_json field_mapping valid_props geometry_srid =
     (if \<not> available C then Inl ImportErr
      else if \<not> truthy cql_json then Inr ([], [])
      else as_value_error (bind_e (parse_cql2_json C cql_json) (convert_filter C field_mapping valid_props geometry_srid)))"

text \<open>
  Filters fail as bad requests and name only known properties.  With the parser installed, a
  filter text either is refused with a \<open>ValueError\<close>, whatever the parser, the evaluator and the
  compiler raise, or every property name that the tree walk finds in the evaluated tree is an allowed
  one, provided any are declared.
\<close>

theorem parse_cql_guarded:
  assumes "available C" "cql_text \<noteq> []"
  shows "parse_cql_filter C cql_text (Some m) valid_props parser_type srid = Inl ValueErr \<or>
    (\<exists>tree out fl. to_filter C tree m = Inr fl \<and>
       parse_cql_filter C cql_text (Some m) valid_props parser_type srid = Inr out \<and>
       (let valid = (case valid_props of None \<Rightarrow> map fst m | Some ps \<Rightarrow> ps) in
        valid = [] \<or> set (extract_property_names tree) \<subseteq> set valid))"
proof (cases "parse_cql_filter C cql_text (Some m) valid_props parser_type srid")
  case (Inl e)
  then show ?thesis using assms by (auto simp: parse_cql_filter_def as_value_error_def Let_def split: sum.splits)
next
  case (Inr out)
  then obtain tree0 where conv: "convert_filter C (Some m) valid_props srid tree0 = Inr out"
    using assms by (auto simp: parse_cql_filter_def as_value_error_def Let_def split: sum.splits elim!: bind_e_InrE)
  let ?tree = "case srid of None \<Rightarrow> tree0 | Some s \<Rightarrow> stamp_geometry_srid s tree0"
  from conv obtain fl where "to_filter C ?tree m = Inr fl" "check_properties valid_props (Some m) ?tree"
    by (auto simp: convert_filter_def Let_def split: if_splits sum.splits cql_error.splits)
  then show ?thesis using Inr
    by (intro disjI2 exI [of _ ?tree] exI [of _ out] exI [of _ fl])
       (auto simp: check_properties_def list_all_iff Let_def split: option.splits)
qed

theorem parse_cql_guarded_witness:
  "let C = \<lparr>available = True, lower = (\<lambda>s. s), word_char = sample_word, parse_cql2_text = (\<lambda>_. Inr (ONode ''Attribute'' [(''name'', OStr ''a'')])),
     parse_ecql = (\<lambda>_. Inl OtherErr), parse_cql2_json = (\<lambda>_. Inl OtherErr), to_filter = (\<lambda>_ _. Inr (SqlBool True)), compile_sql = (\<lambda>_. Inl OtherErr)\<rparr>
   in parse_cql_filter C ''a'' (Some [(''b'', ())]) None ''cql2'' None = Inl ValueErr \<or>
     (\<exists>tree out fl. to_filter C tree [(''b'', ())] = Inr fl \<and>
       parse_cql_filter C ''a'' (Some [(''b'', ())]) None ''cql2'' None = Inr out \<and>
       (let valid = (case None of None \<Rightarrow> map fst [(''b'', ())] | Some ps \<Rightarrow> ps) in
        valid = [] \<or> set (extract_property_names tree) \<subseteq> set valid))"
  unfolding Let_def [of "\<lparr>available = True, lower = _, word_char = _, parse_cql2_text = _, parse_ecql = _, parse_cql2_json = _, to_filter = _, compile_sql = _\<rparr>"]
  by (rule parse_cql_guarded) simp_all

end
