(* ===== verification/Cql_Es.thy ===== *)
theory Cql_Es
  imports Cql_Like
begin

text \<open>
  The CQL2 translator for Elasticsearch (\<open>modules/storage/drivers/es_common/cql_to_es.py\<close>), the temporal
  handler of the PostgreSQL evaluator (\<open>modules/tools/cql.py\<close>) that it mirrors, the field mappings and
  the container classification of \<open>modules/storage/computed_fields.py\<close>.  The syntax tree is what the
  third-party parser hands to the evaluator.  The search engine is the interface \<open>cql_engine\<close>; the
  reference meaning of a filter is the three-valued one of SQL.
\<close>

section \<open>Filters\<close>

datatype lit = LScal scalar | LTime int

datatype expr =
    EAttr string
  | ELit lit
  | EGeom json
  | EEnvelope rat rat rat rat
  | EOther

datatype comparison_op = EQ | NE | LT | LE | GT | GE

datatype temporal_op =
    T_DISJOINT | T_AFTER | T_BEFORE | T_TOVERLAPS | T_OVERLAPPEDBY | T_BEGINS | T_BEGUNBY | T_DURING | T_TCONTAINS
  | T_TEQUALS | T_MEETS | T_METBY | T_ENDS | T_ENDEDBY

datatype geo_op = G_INTERSECTS | G_DISJOINT | G_WITHIN | G_CONTAINS

text \<open>A flag is the node's \<open>not_\<close>; \<open>POther\<close> is any node without a handler.\<close>

datatype pred =
    PNot pred
  | PAnd pred pred
  | POr pred pred
  | PCompare comparison_op expr expr
  | PBetween bool expr expr expr
  | PIn bool expr "expr list"
  | PLike bool bool string string string string expr
  | PIsNull bool expr
  | PExists bool expr
  | PTemporal temporal_op expr expr
  | PSpatial geo_op expr expr
  | PBBox expr rat rat rat rat
  | POther

section \<open>Queries\<close>

text \<open>
  What a handler returns for an expression: a field path and a text literal are both strings.  \<open>RPair\<close>
  is an evaluated interval.
\<close>

datatype val = RScal scalar | RTime int | RGeom json | RPair val val

abbreviation RStr :: "string \<Rightarrow> val" where "RStr s \<equiv> RScal (SStr s)"

datatype esq =
    QTerm val val
  | QTerms val "val list"
  | QRange val "(string \<times> val) list" "string option"
  | QExists val
  | QWildcard val string bool
  | QMatch string string
  | QGeo val val string
  | QBool "esq list" "esq list" "nat option" "esq list"

datatype cql_fail = UntranslatableFilterError | Unhashable

definition comparison_op_map :: "comparison_op \<Rightarrow> string" where
  "comparison_op_map opr = (case opr of LT \<Rightarrow> ''lt'' | LE \<Rightarrow> ''lte'' | GT \<Rightarrow> ''gt'' | GE \<Rightarrow> ''gte'' | _ \<Rightarrow> [])"

definition negate_if :: "bool \<Rightarrow> esq \<Rightarrow> esq" where
  "negate_if n q = (if n then QBool [] [] None [q] else q)"

text \<open>A dictionary key must be hashable; a geometry is a dictionary.\<close>

fun hashable :: "val \<Rightarrow> bool" where
  "hashable (RGeom g) = False"
| "hashable (RPair a b) = (hashable a \<and> hashable b)"
| "hashable v = True"

definition with_key :: "val \<Rightarrow> esq \<Rightarrow> cql_fail + esq" where
  "with_key k q = (if hashable k then Inr q else Inl Unhashable)"

section \<open>Handlers\<close>

definition num :: "rat \<Rightarrow> json" where
  "num r = JScalar (SFloat (Fin r))"

definition envelope :: "rat \<Rightarrow> rat \<Rightarrow> rat \<Rightarrow> rat \<Rightarrow> json" where
  "envelope x1 x2 y1 y2 = JObj [(''type'', JStr ''envelope''),
     (''coordinates'', JList [JList [num (min x1 x2), num (max y1 y2)], JList [num (max x1 x2), num (min y1 y2)]])]"

fun eval_expr :: "(string \<times> string) list \<Rightarrow> expr \<Rightarrow> cql_fail + val" where
  "eval_expr fm (EAttr n) = (case map_of fm n of None \<Rightarrow> Inl UntranslatableFilterError | Some p \<Rightarrow> Inr (RStr p))"
| "eval_expr fm (ELit (LScal s)) = Inr (RScal s)"
| "eval_expr fm (ELit (LTime t)) = Inr (RTime t)"
| "eval_expr fm (EGeom g) = Inr (RGeom g)"
| "eval_expr fm (EEnvelope x1 x2 y1 y2) = Inr (RGeom (envelope x1 x2 y1 y2))"
| "eval_expr fm EOther = Inl UntranslatableFilterError"

definition equality :: "comparison_op \<Rightarrow> val \<Rightarrow> val \<Rightarrow> cql_fail + esq" where
  "equality opr lhs rhs = with_key lhs (negate_if (opr = NE) (QTerm lhs rhs))"

definition comparison :: "comparison_op \<Rightarrow> val \<Rightarrow> val \<Rightarrow> cql_fail + esq" where
  "comparison opr lhs rhs = with_key lhs (QRange lhs [(comparison_op_map opr, rhs)] None)"

definition between :: "bool \<Rightarrow> val \<Rightarrow> val \<Rightarrow> val \<Rightarrow> cql_fail + esq" where
  "between n lhs low high = with_key lhs (negate_if n (QRange lhs [(''gte'', low), (''lte'', high)] None))"

definition in_handler :: "bool \<Rightarrow> val \<Rightarrow> val list \<Rightarrow> cql_fail + esq" where
  "in_handler n lhs options = with_key lhs (negate_if n (QTerms lhs options))"

definition like_handler ::
  "(char \<Rightarrow> bool) \<Rightarrow> (string \<times> string) list \<Rightarrow> bool \<Rightarrow> bool \<Rightarrow> string \<Rightarrow> string \<Rightarrow> string \<Rightarrow> string \<Rightarrow> expr \<Rightarrow> val \<Rightarrow>
   cql_fail + esq" where
  "like_handler space ft n nocase pat wildcard singlechar escapechar lhs_node lhs =
     (let attr_name = (case lhs_node of EAttr a \<Rightarrow> a | _ \<Rightarrow> []);
          fulltext_path = (if attr_name = [] then None else map_of ft attr_name)
      in (case fulltext_path of
            Some path \<Rightarrow> Inr (negate_if n (QMatch path (like_to_match_text space pat wildcard singlechar escapechar)))
          | None \<Rightarrow> with_key lhs (negate_if n (QWildcard lhs (like_to_wildcard pat wildcard singlechar escapechar) nocase))))"

definition null_handler :: "bool \<Rightarrow> val \<Rightarrow> esq" where
  "null_handler n lhs = negate_if (\<not> n) (QExists lhs)"

definition exists_handler :: "bool \<Rightarrow> val \<Rightarrow> esq" where
  "exists_handler n lhs = negate_if n (QExists lhs)"

text \<open>
  The bounds of a temporal operand: an instant stands for both, and everything else is unpacked as two
  values, which succeeds for an interval, for a text of two characters and for a dictionary of two keys.
\<close>

definition unpack_pair :: "'a list \<Rightarrow> ('a \<times> 'a) option" where
  "unpack_pair xs = (if length xs = 2 then Some (xs ! 0, xs ! 1) else None)"

definition temporal_bounds :: "val \<Rightarrow> (val \<times> val) option" where
  "temporal_bounds v =
     (case v of
        RTime t \<Rightarrow> Some (RTime t, RTime t)
      | RPair a b \<Rightarrow> Some (a, b)
      | RScal s \<Rightarrow> (case s of SStr cs \<Rightarrow> map_option (\<lambda>(a, b). (RStr [a], RStr [b])) (unpack_pair cs) | _ \<Rightarrow> None)
      | RGeom g \<Rightarrow> (case g of JObj kvs \<Rightarrow> map_option (\<lambda>(a, b). (RStr (fst a), RStr (fst b))) (unpack_pair kvs) | _ \<Rightarrow> None))"

definition temporal_query :: "temporal_op \<Rightarrow> val \<Rightarrow> val \<Rightarrow> val \<Rightarrow> cql_fail + esq" where
  "temporal_query opr lhs low high =
     (case opr of
        T_DISJOINT \<Rightarrow> Inr (negate_if True (QRange lhs [(''gte'', low), (''lte'', high)] None))
      | T_AFTER \<Rightarrow> Inr (QRange lhs [(''gt'', high)] None)
      | T_BEFORE \<Rightarrow> Inr (QRange lhs [(''lt'', low)] None)
      | T_TOVERLAPS \<Rightarrow> Inr (QRange lhs [(''gte'', low), (''lte'', high)] None)
      | T_OVERLAPPEDBY \<Rightarrow> Inr (QRange lhs [(''gte'', low), (''lte'', high)] None)
      | T_BEGINS \<Rightarrow> Inr (QTerm lhs low)
      | T_BEGUNBY \<Rightarrow> Inr (QTerm lhs high)
      | T_DURING \<Rightarrow> Inr (QRange lhs [(''gt'', low), (''lt'', high)] (Some ''WITHIN''))
      | T_TCONTAINS \<Rightarrow> Inr (QRange lhs [(''gt'', low), (''lt'', high)] (Some ''CONTAINS''))
      | _ \<Rightarrow> Inl UntranslatableFilterError)"

definition temporal :: "temporal_op \<Rightarrow> val \<Rightarrow> val \<Rightarrow> cql_fail + esq" where
  "temporal opr lhs rhs =
     (case temporal_bounds rhs of
        None \<Rightarrow> Inl UntranslatableFilterError
      | Some (low, high) \<Rightarrow> bind_e (temporal_query opr lhs low high) (with_key lhs))"

definition geo_relation :: "geo_op \<Rightarrow> string" where
  "geo_relation opr = (case opr of
     G_INTERSECTS \<Rightarrow> ''intersects'' | G_DISJOINT \<Rightarrow> ''disjoint'' | G_WITHIN \<Rightarrow> ''within'' | G_CONTAINS \<Rightarrow> ''contains'')"

definition spatial_comparison :: "geo_op \<Rightarrow> val \<Rightarrow> val \<Rightarrow> cql_fail + esq" where
  "spatial_comparison opr lhs rhs = with_key lhs (QGeo lhs rhs (geo_relation opr))"

text \<open>The evaluator: operands first, then the handler of the node.\<close>

fun cql_to_es :: "(char \<Rightarrow> bool) \<Rightarrow> (string \<times> string) list \<Rightarrow> (string \<times> string) list \<Rightarrow> pred \<Rightarrow> cql_fail + esq" where
  "cql_to_es sp fm ft (PNot p) = bind_e (cql_to_es sp fm ft p) (\<lambda>q. Inr (QBool [] [] None [q]))"
| "cql_to_es sp fm ft (PAnd p r) =
     bind_e (cql_to_es sp fm ft p) (\<lambda>a. bind_e (cql_to_es sp fm ft r) (\<lambda>b. Inr (QBool [a, b] [] None [])))"
| "cql_to_es sp fm ft (POr p r) =
     bind_e (cql_to_es sp fm ft p) (\<lambda>a. bind_e (cql_to_es sp fm ft r) (\<lambda>b. Inr (QBool [] [a, b] (Some 1) [])))"
| "cql_to_es sp fm ft (PCompare opr l r) =
     bind_e (eval_expr fm l) (\<lambda>lhs. bind_e (eval_expr fm r) (\<lambda>rhs.
       if opr \<in> {EQ, NE} then equality opr lhs rhs else comparison opr lhs rhs))"
| "cql_to_es sp fm ft (PBetween n e lo hi) =
     bind_e (eval_expr fm e) (\<lambda>lhs. bind_e (eval_expr fm lo) (\<lambda>low. bind_e (eval_expr fm hi) (\<lambda>high.
       between n lhs low high)))"
| "cql_to_es sp fm ft (PIn n e es) =
     bind_e (eval_expr fm e) (\<lambda>lhs. bind_e (map_e (eval_expr fm) es) (\<lambda>options. in_handler n lhs options))"
| "cql_to_es sp fm ft (PLike n nocase pat w s esc e) =
     bind_e (eval_expr fm e) (\<lambda>lhs. like_handler sp ft n nocase pat w s esc e lhs)"
| "cql_to_es sp fm ft (PIsNull n e) = bind_e (eval_expr fm e) (\<lambda>lhs. Inr (null_handler n lhs))"
| "cql_to_es sp fm ft (PExists n e) = bind_e (eval_expr fm e) (\<lambda>lhs. Inr (exists_handler n lhs))"
| "cql_to_es sp fm ft (PTemporal opr l r) =
     bind_e (eval_expr fm l) (\<lambda>lhs. bind_e (eval_expr fm r) (\<lambda>rhs. temporal opr lhs rhs))"
| "cql_to_es sp fm ft (PSpatial opr l r) =
     bind_e (eval_expr fm l) (\<lambda>lhs. bind_e (eval_expr fm r) (\<lambda>rhs. spatial_comparison opr lhs rhs))"
| "cql_to_es sp fm ft (PBBox e minx miny maxx maxy) =
     bind_e (eval_expr fm e) (\<lambda>lhs. with_key lhs (QGeo lhs (RGeom (envelope minx maxx miny maxy)) ''intersects''))"
| "cql_to_es sp fm ft POther = Inl UntranslatableFilterError"

text \<open>\<open>cql_ast_to_es_query\<close>: no mapping for analysed fields means an empty one.\<close>

definition cql_ast_to_es_query ::
  "(char \<Rightarrow> bool) \<Rightarrow> pred \<Rightarrow> (string \<times> string) list \<Rightarrow> (string \<times> string) list option \<Rightarrow> cql_fail + esq" where
  "cql_ast_to_es_query sp node field_mapping fulltext_mapping =
     cql_to_es sp field_mapping (case fulltext_mapping of None \<Rightarrow> [] | Some m \<Rightarrow> m) node"

text \<open>The temporal handler of the SQL evaluator on a column value, with null as \<open>None\<close>.\<close>

datatype sql_temporal_error = UnsupportedOperand | UnsupportedOperator

definition sql_temporal ::
  "(val \<Rightarrow> val \<Rightarrow> bool) \<Rightarrow> (val \<Rightarrow> val \<Rightarrow> bool) \<Rightarrow> temporal_op \<Rightarrow> val option \<Rightarrow> val \<Rightarrow> sql_temporal_error + bool option" where
  "sql_temporal eqv lt opr lhs rhs =
     (case temporal_bounds rhs of
        None \<Rightarrow> Inl UnsupportedOperand
      | Some (low, high) \<Rightarrow>
          (case opr of
             T_BEFORE \<Rightarrow> Inr (map_option (\<lambda>x. lt x low) lhs)
           | T_AFTER \<Rightarrow> Inr (map_option (\<lambda>x. lt high x) lhs)
           | T_TEQUALS \<Rightarrow> Inr (map_option (\<lambda>x. eqv x low) lhs)
           | T_DISJOINT \<Rightarrow> Inr (map_option (\<lambda>x. \<not> (\<not> lt x low \<and> \<not> lt high x)) lhs)
           | T_TOVERLAPS \<Rightarrow> Inr (map_option (\<lambda>x. \<not> lt x low \<and> \<not> lt high x) lhs)
           | T_OVERLAPPEDBY \<Rightarrow> Inr (map_option (\<lambda>x. \<not> lt x low \<and> \<not> lt high x) lhs)
           | T_BEGINS \<Rightarrow> Inr (map_option (\<lambda>x. eqv x low) lhs)
           | T_BEGUNBY \<Rightarrow> Inr (map_option (\<lambda>x. eqv x high) lhs)
           | T_DURING \<Rightarrow> Inr (map_option (\<lambda>x. lt low x \<and> lt x high) lhs)
           | T_TCONTAINS \<Rightarrow> Inr (map_option (\<lambda>x. lt low x \<and> lt x high) lhs)
           | _ \<Rightarrow> Inl UnsupportedOperator))"

section \<open>The engine's contract\<close>

text \<open>
  A document gives each field path its list of values.  \<open>eqv\<close> and \<open>lt\<close> are equality and order of the
  mapped values, \<open>same\<close> compares characters with or without case, \<open>geo\<close> is the spatial relation and
  \<open>analyzed\<close> the analysed text search.  The \<open>relation\<close> of a range query only concerns range fields.
\<close>

type_synonym es_doc = "string \<Rightarrow> val list"

fun in_bounds :: "(val \<Rightarrow> val \<Rightarrow> bool) \<Rightarrow> (string \<times> val) list \<Rightarrow> val \<Rightarrow> bool" where
  "in_bounds lt [] x \<longleftrightarrow> True"
| "in_bounds lt ((k, b) # bs) x \<longleftrightarrow>
     (if k = ''gt'' then lt b x else if k = ''gte'' then \<not> lt x b
      else if k = ''lt'' then lt x b else if k = ''lte'' then \<not> lt b x else False) \<and> in_bounds lt bs x"

fun text_of :: "val \<Rightarrow> string option" where
  "text_of (RScal (SStr s)) = Some s"
| "text_of v = None"

definition wild_hit :: "(bool \<Rightarrow> char \<Rightarrow> char \<Rightarrow> bool) \<Rightarrow> string \<Rightarrow> bool \<Rightarrow> val \<Rightarrow> bool" where
  "wild_hit same pat nocase x = (case text_of x of None \<Rightarrow> False | Some s \<Rightarrow> es_wildcard (same nocase) pat s)"

locale cql_engine =
  fixes hit :: "esq \<Rightarrow> es_doc \<Rightarrow> bool"
    and eqv :: "val \<Rightarrow> val \<Rightarrow> bool" and lt :: "val \<Rightarrow> val \<Rightarrow> bool"
    and same :: "bool \<Rightarrow> char \<Rightarrow> char \<Rightarrow> bool"
    and geo :: "string \<Rightarrow> val \<Rightarrow> val \<Rightarrow> bool" and analyzed :: "string \<Rightarrow> val \<Rightarrow> bool"
  assumes hit_term: "hit (QTerm (RStr f) v) d \<longleftrightarrow> (\<exists>x\<in>set (d f). eqv x v)"
    and hit_terms: "hit (QTerms (RStr f) vs) d \<longleftrightarrow> (\<exists>x\<in>set (d f). \<exists>v\<in>set vs. eqv x v)"
    and hit_range: "hit (QRange (RStr f) bs rel) d \<longleftrightarrow> (\<exists>x\<in>set (d f). in_bounds lt bs x)"
    and hit_exists: "hit (QExists (RStr f)) d \<longleftrightarrow> d f \<noteq> []"
    and hit_wildcard: "hit (QWildcard (RStr f) pat nocase) d \<longleftrightarrow> (\<exists>x\<in>set (d f). wild_hit same pat nocase x)"
    and hit_match: "hit (QMatch f text) d \<longleftrightarrow> (\<exists>x\<in>set (d f). analyzed text x)"
    and hit_geo: "hit (QGeo (RStr f) g grel) d \<longleftrightarrow> (\<exists>x\<in>set (d f). geo grel x g)"
    and hit_bool: "sh \<noteq> [] \<or> msm = None \<Longrightarrow> hit (QBool fi sh msm mn) d \<longleftrightarrow>
      (\<forall>q\<in>set fi. hit q d) \<and> (\<forall>q\<in>set mn. \<not> hit q d) \<and>
      (case msm of Some n \<Rightarrow> n | None \<Rightarrow> if sh \<noteq> [] \<and> fi = [] then 1 else 0) \<le> length (filter (\<lambda>q. hit q d) sh)"

text \<open>An evaluator of the query language for any such operations.\<close>

fun path_values :: "es_doc \<Rightarrow> val \<Rightarrow> val list" where
  "path_values d (RScal (SStr f)) = d f"
| "path_values d v = []"

fun cql_hit ::
  "(val \<Rightarrow> val \<Rightarrow> bool) \<Rightarrow> (val \<Rightarrow> val \<Rightarrow> bool) \<Rightarrow> (bool \<Rightarrow> char \<Rightarrow> char \<Rightarrow> bool) \<Rightarrow> (string \<Rightarrow> val \<Rightarrow> val \<Rightarrow> bool) \<Rightarrow>
   (string \<Rightarrow> val \<Rightarrow> bool) \<Rightarrow> esq \<Rightarrow> es_doc \<Rightarrow> bool" where
  "cql_hit eqv lt same geo an (QTerm k v) d \<longleftrightarrow> list_ex (\<lambda>x. eqv x v) (path_values d k)"
| "cql_hit eqv lt same geo an (QTerms k vs) d \<longleftrightarrow> list_ex (\<lambda>x. list_ex (eqv x) vs) (path_values d k)"
| "cql_hit eqv lt same geo an (QRange k bs rel) d \<longleftrightarrow> list_ex (in_bounds lt bs) (path_values d k)"
| "cql_hit eqv lt same geo an (QExists k) d \<longleftrightarrow> path_values d k \<noteq> []"
| "cql_hit eqv lt same geo an (QWildcard k pat nocase) d \<longleftrightarrow> list_ex (wild_hit same pat nocase) (path_values d k)"
| "cql_hit eqv lt same geo an (QMatch f text) d \<longleftrightarrow> list_ex (an text) (d f)"
| "cql_hit eqv lt same geo an (QGeo k g rel) d \<longleftrightarrow> list_ex (\<lambda>x. geo rel x g) (path_values d k)"
| "cql_hit eqv lt same geo an (QBool fi sh msm mn) d \<longleftrightarrow>
     list_all (\<lambda>q. cql_hit eqv lt same geo an q d) fi \<and> list_all (\<lambda>q. \<not> cql_hit eqv lt same geo an q d) mn \<and>
     (case msm of Some n \<Rightarrow> n | None \<Rightarrow> if sh \<noteq> [] \<and> fi = [] then 1 else 0)
       \<le> length (filter (\<lambda>q. cql_hit eqv lt same geo an q d) sh)"

interpretation cql_eval: cql_engine "cql_hit eqv lt same geo an" eqv lt same geo an for eqv lt same geo an
  by unfold_locales (simp_all add: list_ex_iff list_all_iff)

section \<open>The reference meaning\<close>

text \<open>Three-valued logic; a property that is absent is null.\<close>

fun and3 :: "bool option \<Rightarrow> bool option \<Rightarrow> bool option" where
  "and3 (Some False) y = Some False"
| "and3 (Some True) y = y"
| "and3 None (Some False) = Some False"
| "and3 None y = None"

definition not3 :: "bool option \<Rightarrow> bool option" where
  "not3 = map_option Not"

definition or3 :: "bool option \<Rightarrow> bool option \<Rightarrow> bool option" where
  "or3 x y = not3 (and3 (not3 x) (not3 y))"

definition flip3 :: "bool \<Rightarrow> bool option \<Rightarrow> bool option" where
  "flip3 n x = (if n then not3 x else x)"

fun expr_val :: "(string \<Rightarrow> val option) \<Rightarrow> expr \<Rightarrow> val option" where
  "expr_val props (EAttr n) = props n"
| "expr_val props (ELit (LScal s)) = Some (RScal s)"
| "expr_val props (ELit (LTime t)) = Some (RTime t)"
| "expr_val props (EGeom g) = Some (RGeom g)"
| "expr_val props (EEnvelope x1 x2 y1 y2) = Some (RGeom (envelope x1 x2 y1 y2))"
| "expr_val props EOther = None"

definition lift3 :: "(val \<Rightarrow> val \<Rightarrow> bool) \<Rightarrow> val option \<Rightarrow> val option \<Rightarrow> bool option" where
  "lift3 r x y = (case (x, y) of (Some a, Some b) \<Rightarrow> Some (r a b) | _ \<Rightarrow> None)"

definition compare3 :: "(val \<Rightarrow> val \<Rightarrow> bool) \<Rightarrow> (val \<Rightarrow> val \<Rightarrow> bool) \<Rightarrow> comparison_op \<Rightarrow> val \<Rightarrow> val \<Rightarrow> bool" where
  "compare3 eqv lt opr x y = (case opr of
     EQ \<Rightarrow> eqv x y | NE \<Rightarrow> \<not> eqv x y | LT \<Rightarrow> lt x y | LE \<Rightarrow> \<not> lt y x | GT \<Rightarrow> lt y x | GE \<Rightarrow> \<not> lt x y)"

definition like3 :: "(bool \<Rightarrow> char \<Rightarrow> char \<Rightarrow> bool) \<Rightarrow> bool \<Rightarrow> like_token list \<Rightarrow> val option \<Rightarrow> bool option" where
  "like3 same nocase ts v = (case v of None \<Rightarrow> None | Some x \<Rightarrow>
     Some (case text_of x of None \<Rightarrow> False | Some s \<Rightarrow> like_match (same nocase) ts s))"

fun holds3 ::
  "(val \<Rightarrow> val \<Rightarrow> bool) \<Rightarrow> (val \<Rightarrow> val \<Rightarrow> bool) \<Rightarrow> (bool \<Rightarrow> char \<Rightarrow> char \<Rightarrow> bool) \<Rightarrow> (string \<Rightarrow> val \<Rightarrow> val \<Rightarrow> bool) \<Rightarrow>
   (string \<Rightarrow> val option) \<Rightarrow> pred \<Rightarrow> bool option" where
  "holds3 eqv lt same geo props (PNot p) = not3 (holds3 eqv lt same geo props p)"
| "holds3 eqv lt same geo props (PAnd p r) = and3 (holds3 eqv lt same geo props p) (holds3 eqv lt same geo props r)"
| "holds3 eqv lt same geo props (POr p r) = or3 (holds3 eqv lt same geo props p) (holds3 eqv lt same geo props r)"
| "holds3 eqv lt same geo props (PCompare opr l r) = lift3 (compare3 eqv lt opr) (expr_val props l) (expr_val props r)"
| "holds3 eqv lt same geo props (PBetween n e lo hi) =
     flip3 n (and3 (lift3 (\<lambda>x y. \<not> lt x y) (expr_val props e) (expr_val props lo))
                   (lift3 (\<lambda>x y. \<not> lt y x) (expr_val props e) (expr_val props hi)))"
| "holds3 eqv lt same geo props (PIn n e es) =
     flip3 n (foldr (\<lambda>o3 acc. or3 (lift3 eqv (expr_val props e) (expr_val props o3)) acc) es (Some False))"
| "holds3 eqv lt same geo props (PLike n nocase pat w s esc e) =
     flip3 n (like3 same nocase (iter_like_tokens w s esc pat) (expr_val props e))"
| "holds3 eqv lt same geo props (PIsNull n e) = Some ((expr_val props e = None) \<noteq> n)"
| "holds3 eqv lt same geo props (PExists n e) = Some ((expr_val props e \<noteq> None) \<noteq> n)"
| "holds3 eqv lt same geo props (PTemporal opr l r) =
     (case expr_val props r of
        None \<Rightarrow> None
      | Some v \<Rightarrow> (case sql_temporal eqv lt opr (expr_val props l) v of Inl _ \<Rightarrow> None | Inr b \<Rightarrow> b))"
| "holds3 eqv lt same geo props (PSpatial opr l r) =
     lift3 (\<lambda>x y. geo (geo_relation opr) x y) (expr_val props l) (expr_val props r)"
| "holds3 eqv lt same geo props (PBBox e minx miny maxx maxy) =
     map_option (\<lambda>x. geo ''intersects'' x (RGeom (envelope minx maxx miny maxy))) (expr_val props e)"
| "holds3 eqv lt same geo props POther = None"

text \<open>
  The filters the translator is meant for: a property on the left, a literal on the right, the
  temporal operators it supports, and \<open>LIKE\<close> on fields without analysed text.
\<close>

definition es_temporal_ops :: "temporal_op list" where
  "es_temporal_ops = [T_DISJOINT, T_AFTER, T_BEFORE, T_TOVERLAPS, T_OVERLAPPEDBY, T_BEGINS, T_BEGUNBY, T_DURING, T_TCONTAINS]"

fun attr_in :: "(string \<times> string) list \<Rightarrow> expr \<Rightarrow> bool" where
  "attr_in fm (EAttr n) \<longleftrightarrow> map_of fm n \<noteq> None"
| "attr_in fm e \<longleftrightarrow> False"

fun is_lit :: "expr \<Rightarrow> bool" where
  "is_lit (ELit l) \<longleftrightarrow> True"
| "is_lit e \<longleftrightarrow> False"

fun is_shape :: "expr \<Rightarrow> bool" where
  "is_shape (EGeom g) \<longleftrightarrow> True"
| "is_shape (EEnvelope a b c d) \<longleftrightarrow> True"
| "is_shape e \<longleftrightarrow> False"

fun plain_attr :: "(string \<times> string) list \<Rightarrow> expr \<Rightarrow> bool" where
  "plain_attr ft (EAttr n) \<longleftrightarrow> n = [] \<or> map_of ft n = None"
| "plain_attr ft e \<longleftrightarrow> True"

fun translatable :: "(string \<times> string) list \<Rightarrow> (string \<times> string) list \<Rightarrow> pred \<Rightarrow> bool" where
  "translatable fm ft (PNot p) \<longleftrightarrow> translatable fm ft p"
| "translatable fm ft (PAnd p r) \<longleftrightarrow> translatable fm ft p \<and> translatable fm ft r"
| "translatable fm ft (POr p r) \<longleftrightarrow> translatable fm ft p \<and> translatable fm ft r"
| "translatable fm ft (PCompare opr l r) \<longleftrightarrow> attr_in fm l \<and> is_lit r"
| "translatable fm ft (PBetween n e lo hi) \<longleftrightarrow> attr_in fm e \<and> is_lit lo \<and> is_lit hi"
| "translatable fm ft (PIn n e es) \<longleftrightarrow> attr_in fm e \<and> list_all is_lit es"
| "translatable fm ft (PLike n nocase pat w s esc e) \<longleftrightarrow>
     attr_in fm e \<and> plain_attr ft e \<and> es_plain (iter_like_tokens w s esc pat)"
| "translatable fm ft (PIsNull n e) \<longleftrightarrow> attr_in fm e"
| "translatable fm ft (PExists n e) \<longleftrightarrow> attr_in fm e"
| "translatable fm ft (PTemporal opr l r) \<longleftrightarrow> attr_in fm l \<and> opr \<in> set es_temporal_ops \<and> (\<exists>t. r = ELit (LTime t))"
| "translatable fm ft (PSpatial opr l r) \<longleftrightarrow> attr_in fm l \<and> is_shape r"
| "translatable fm ft (PBBox e minx miny maxx maxy) \<longleftrightarrow> attr_in fm e"
| "translatable fm ft POther \<longleftrightarrow> False"

text \<open>The document stores the value of each mapped property at its path.\<close>

definition stores :: "(string \<times> string) list \<Rightarrow> (string \<Rightarrow> val option) \<Rightarrow> es_doc \<Rightarrow> bool" where
  "stores fm props d \<longleftrightarrow>
     (\<forall>n f. map_of fm n = Some f \<longrightarrow> d f = (case props n of None \<Rightarrow> [] | Some v \<Rightarrow> [v]))"

section \<open>Agreement\<close>

lemma and3_Some: "and3 x y = Some b \<longleftrightarrow> (if b then x = Some True \<and> y = Some True else x = Some False \<or> y = Some False)"
  by (cases "(x, y)" rule: and3.cases) auto

lemma or3_Some: "or3 x y = Some b \<longleftrightarrow> (if b then x = Some True \<or> y = Some True else x = Some False \<and> y = Some False)"
  by (auto simp: or3_def not3_def and3_Some)

lemma attr_stored:
  assumes "attr_in fm e" "stores fm props d"
  obtains n f where "e = EAttr n" "eval_expr fm e = Inr (RStr f)"
    "d f = (case expr_val props e of None \<Rightarrow> [] | Some v \<Rightarrow> [v])"
proof (cases e)
  case (EAttr n)
  then obtain f where "map_of fm n = Some f" using assms(1) by auto
  then show ?thesis using that [of n f] EAttr assms(2) by (simp add: stores_def)
qed (use assms(1) in simp_all)

lemma lit_value:
  assumes "is_lit r"
  obtains v where "eval_expr fm r = Inr v" "expr_val props r = Some v"
proof (cases r)
  case (ELit l)
  then show ?thesis using that by (cases l) auto
qed (use assms in simp_all)

lemma shape_value:
  assumes "is_shape r"
  obtains v where "eval_expr fm r = Inr v" "expr_val props r = Some v"
  using assms that by (cases r) auto

lemma lits_values:
  assumes "list_all is_lit es"
  obtains vs where "map_e (eval_expr fm) es = Inr vs" "map (expr_val props) es = map Some vs"
  using assms
proof (induction es arbitrary: thesis)
  case (Cons e es)
  have "is_lit e" using Cons.prems(2) by simp
  then obtain v where v: "eval_expr fm e = Inr v" "expr_val props e = Some v" by (rule lit_value)
  obtain vs where "map_e (eval_expr fm) es = Inr vs" "map (expr_val props) es = map Some vs"
    using Cons.IH Cons.prems(2) by auto
  then show ?case using Cons.prems(1) [of "v # vs"] v by simp
qed simp

lemma in_list3:
  "map (expr_val props) es = map Some vs \<Longrightarrow>
   foldr (\<lambda>o3 acc. or3 (lift3 eqv (Some x) (expr_val props o3)) acc) es (Some False) = Some (\<exists>v\<in>set vs. eqv x v)"
proof (induction es arbitrary: vs)
  case (Cons e es)
  then obtain v ws where "vs = v # ws" "expr_val props e = Some v" "map (expr_val props) es = map Some ws"
    by (cases vs) auto
  then show ?case using Cons.IH [of ws] by (cases "eqv x v") (auto simp: or3_def not3_def lift3_def)
qed simp

lemma like_tokens_hit:
  assumes "es_plain (iter_like_tokens w s esc pat)"
  shows "wild_hit same (like_to_wildcard pat w s esc) nocase x =
    (case text_of x of None \<Rightarrow> False | Some t \<Rightarrow> like_match (same nocase) (iter_like_tokens w s esc pat) t)"
  using like_match_cong [OF es_tokens_plain [OF assms]]
  by (simp add: wild_hit_def es_wildcard_def like_to_wildcard_def split: option.splits)

context cql_engine
begin

lemma hit_not [simp]: "hit (QBool [] [] None [q]) d \<longleftrightarrow> \<not> hit q d"
  by (simp add: hit_bool)

lemma hit_and [simp]: "hit (QBool [q, r] [] None []) d \<longleftrightarrow> hit q d \<and> hit r d"
  by (simp add: hit_bool)

lemma hit_or [simp]: "hit (QBool [] [q, r] (Some (Suc 0)) []) d \<longleftrightarrow> hit q d \<or> hit r d"
  by (simp add: hit_bool)

lemma hit_negate [simp]: "hit (negate_if n q) d \<longleftrightarrow> hit q d \<noteq> n"
  by (simp add: negate_if_def)

lemmas hit_leaf = hit_term hit_terms hit_range hit_exists hit_wildcard hit_match hit_geo

text \<open>On one value, each temporal query means what the SQL handler computes.\<close>

lemma temporal_leaf:
  assumes "opr \<in> set es_temporal_ops" "temporal_bounds rhs = Some (low, high)" "d f = [x]"
  shows "\<exists>q. temporal opr (RStr f) rhs = Inr q \<and> sql_temporal eqv lt opr (Some x) rhs = Inr (Some (hit q d))"
  using assms by (cases opr rule: temporal_op.exhaust) (simp_all add: es_temporal_ops_def temporal_def temporal_query_def sql_temporal_def with_key_def hit_leaf)

definition cql_agrees :: "(string \<Rightarrow> val option) \<Rightarrow> es_doc \<Rightarrow> cql_fail + esq \<Rightarrow> pred \<Rightarrow> bool" where
  "cql_agrees props d r p \<longleftrightarrow> (\<exists>q. r = Inr q \<and> (\<forall>b. holds3 eqv lt same geo props p = Some b \<longrightarrow> hit q d = b))"

lemma compare_agrees:
  assumes "attr_in fm l" "is_lit r" "stores fm props d"
  shows "cql_agrees props d (cql_to_es sp fm ft (PCompare opr l r)) (PCompare opr l r)"
proof -
  obtain n f where l: "l = EAttr n" "eval_expr fm l = Inr (RStr f)" "d f = (case expr_val props l of None \<Rightarrow> [] | Some v \<Rightarrow> [v])"
    using attr_stored [OF assms(1,3)] .
  obtain v where v: "eval_expr fm r = Inr v" "expr_val props r = Some v" using lit_value [OF assms(2)] .
  show ?thesis using l v unfolding cql_agrees_def
    by (cases opr) (auto simp: equality_def comparison_def with_key_def comparison_op_map_def hit_leaf lift3_def compare3_def
        split: option.splits)
qed

lemma between_agrees:
  assumes "attr_in fm e" "is_lit lo" "is_lit hi" "stores fm props d"
  shows "cql_agrees props d (cql_to_es sp fm ft (PBetween n e lo hi)) (PBetween n e lo hi)"
proof -
  obtain m f where l: "e = EAttr m" "eval_expr fm e = Inr (RStr f)" "d f = (case expr_val props e of None \<Rightarrow> [] | Some v \<Rightarrow> [v])"
    using attr_stored [OF assms(1,4)] .
  obtain v where v: "eval_expr fm lo = Inr v" "expr_val props lo = Some v" using lit_value [OF assms(2)] .
  obtain w where w: "eval_expr fm hi = Inr w" "expr_val props hi = Some w" using lit_value [OF assms(3)] .
  have one: "and3 (Some a) (Some b) = Some (a \<and> b)" for a b by (cases a) auto
  show ?thesis using l v w unfolding cql_agrees_def
    by (auto simp: between_def with_key_def hit_leaf lift3_def flip3_def not3_def one split: option.splits if_splits)
qed

lemma in_agrees:
  assumes "attr_in fm e" "list_all is_lit es" "stores fm props d"
  shows "cql_agrees props d (cql_to_es sp fm ft (PIn n e es)) (PIn n e es)"
proof -
  obtain m f where l: "e = EAttr m" "eval_expr fm e = Inr (RStr f)" "d f = (case expr_val props e of None \<Rightarrow> [] | Some v \<Rightarrow> [v])"
    using attr_stored [OF assms(1,3)] .
  obtain vs where vs: "map_e (eval_expr fm) es = Inr vs" "map (expr_val props) es = map Some vs" using lits_values [OF assms(2)] .
  show ?thesis
  proof (cases "props m")
    case (Some x)
    then show ?thesis using l vs in_list3 [OF vs(2)] unfolding cql_agrees_def
      by (auto simp: in_handler_def with_key_def hit_leaf flip3_def not3_def split: if_splits)
  next
    case None
    have "foldr (\<lambda>o3 acc. or3 (lift3 eqv None (expr_val props o3)) acc) es (Some False) = Some b \<Longrightarrow> \<not> b" for b
      by (induction es arbitrary: b) (auto simp: lift3_def or3_Some)
    then show ?thesis using l vs None unfolding cql_agrees_def
      by (auto simp: in_handler_def with_key_def hit_leaf flip3_def not3_def split: if_splits)
  qed
qed

lemma like_agrees:
  assumes "attr_in fm e" "plain_attr ft e" "es_plain (iter_like_tokens w s esc pat)" "stores fm props d"
  shows "cql_agrees props d (cql_to_es sp fm ft (PLike n nocase pat w s esc e)) (PLike n nocase pat w s esc e)"
proof -
  obtain m f where l: "e = EAttr m" "eval_expr fm e = Inr (RStr f)" "d f = (case expr_val props e of None \<Rightarrow> [] | Some v \<Rightarrow> [v])"
    using attr_stored [OF assms(1,4)] .
  then show ?thesis using assms(2) like_tokens_hit [OF assms(3)] unfolding cql_agrees_def
    by (auto simp: like_handler_def with_key_def hit_leaf like3_def flip3_def not3_def Let_def split: option.splits if_splits)
qed

lemma temporal_agrees:
  assumes "attr_in fm l" "opr \<in> set es_temporal_ops" "r = ELit (LTime t)" "stores fm props d"
  shows "cql_agrees props d (cql_to_es sp fm ft (PTemporal opr l r)) (PTemporal opr l r)"
proof -
  obtain m f where l: "l = EAttr m" "eval_expr fm l = Inr (RStr f)" "d f = (case expr_val props l of None \<Rightarrow> [] | Some v \<Rightarrow> [v])"
    using attr_stored [OF assms(1,4)] .
  have tb: "temporal_bounds (RTime t) = Some (RTime t, RTime t)" by (simp add: temporal_bounds_def)
  show ?thesis
  proof (cases "props m")
    case (Some x)
    then show ?thesis using l assms(3) temporal_leaf [OF assms(2) tb, of d f x] unfolding cql_agrees_def by auto
  next
    case None
    then have "holds3 eqv lt same geo props (PTemporal opr l r) = None"
      using l assms(2,3) tb by (cases opr rule: temporal_op.exhaust) (auto simp: sql_temporal_def)
    moreover have "\<exists>q. temporal opr (RStr f) (RTime t) = Inr q"
      using assms(2) tb by (cases opr rule: temporal_op.exhaust) (auto simp: es_temporal_ops_def temporal_def temporal_query_def with_key_def)
    ultimately show ?thesis using l assms(3) unfolding cql_agrees_def by auto
  qed
qed

lemma spatial_agrees:
  assumes "attr_in fm l" "is_shape r" "stores fm props d"
  shows "cql_agrees props d (cql_to_es sp fm ft (PSpatial opr l r)) (PSpatial opr l r)"
proof -
  obtain n f where l: "l = EAttr n" "eval_expr fm l = Inr (RStr f)" "d f = (case expr_val props l of None \<Rightarrow> [] | Some v \<Rightarrow> [v])"
    using attr_stored [OF assms(1,3)] .
  obtain v where v: "eval_expr fm r = Inr v" "expr_val props r = Some v" using shape_value [OF assms(2)] .
  show ?thesis using l v unfolding cql_agrees_def
    by (auto simp: spatial_comparison_def with_key_def hit_leaf lift3_def split: option.splits)
qed

lemma field_agrees:
  assumes "attr_in fm e" "stores fm props d"
  shows "cql_agrees props d (cql_to_es sp fm ft (PIsNull n e)) (PIsNull n e)"
    and "cql_agrees props d (cql_to_es sp fm ft (PExists n e)) (PExists n e)"
    and "cql_agrees props d (cql_to_es sp fm ft (PBBox e a b c g)) (PBBox e a b c g)"
proof -
  obtain m f where l: "e = EAttr m" "eval_expr fm e = Inr (RStr f)" "d f = (case expr_val props e of None \<Rightarrow> [] | Some v \<Rightarrow> [v])"
    using attr_stored [OF assms] .
  show "cql_agrees props d (cql_to_es sp fm ft (PIsNull n e)) (PIsNull n e)"
    and "cql_agrees props d (cql_to_es sp fm ft (PExists n e)) (PExists n e)"
    and "cql_agrees props d (cql_to_es sp fm ft (PBBox e a b c g)) (PBBox e a b c g)"
    using l unfolding cql_agrees_def
    by (auto simp: null_handler_def exists_handler_def with_key_def hit_leaf split: option.splits)
qed

lemma cql_to_es_agrees:
  assumes "stores fm props d"
  shows "translatable fm ft p \<Longrightarrow> cql_agrees props d (cql_to_es sp fm ft p) p"
proof (induction p)
  case (PNot p)
  then show ?case by (auto simp: cql_agrees_def not3_def)
next
  case (PAnd p r)
  then obtain q1 q2 where "cql_to_es sp fm ft p = Inr q1" "cql_to_es sp fm ft r = Inr q2"
      "\<And>b. holds3 eqv lt same geo props p = Some b \<Longrightarrow> hit q1 d = b" "\<And>b. holds3 eqv lt same geo props r = Some b \<Longrightarrow> hit q2 d = b"
    by (auto simp: cql_agrees_def)
  then show ?case by (auto simp: cql_agrees_def and3_Some)
next
  case (POr p r)
  then obtain q1 q2 where "cql_to_es sp fm ft p = Inr q1" "cql_to_es sp fm ft r = Inr q2"
      "\<And>b. holds3 eqv lt same geo props p = Some b \<Longrightarrow> hit q1 d = b" "\<And>b. holds3 eqv lt same geo props r = Some b \<Longrightarrow> hit q2 d = b"
    by (auto simp: cql_agrees_def)
  then show ?case by (auto simp: cql_agrees_def or3_Some)
qed (use assms compare_agrees between_agrees in_agrees like_agrees temporal_agrees spatial_agrees field_agrees in \<open>auto simp del: cql_to_es.simps\<close>)

end

text \<open>
  C15. The Elasticsearch translation of a filter cql_agrees with its SQL meaning: every filter of the
  supported form is translated, and on a document that stores the properties, the query hits exactly
  when the three-valued meaning is true, wherever that meaning is not unknown.  In particular every
  row that SQL returns is hit.
\<close>

theorem cql_backends_agree:
  assumes "cql_engine hit eqv lt same geo analyzed" "stores fm props d" "translatable fm ft p"
  shows "\<exists>q. cql_ast_to_es_query sp p fm (Some ft) = Inr q \<and>
    (\<forall>b. holds3 eqv lt same geo props p = Some b \<longrightarrow> hit q d = b)"
proof -
  have "cql_engine.cql_agrees hit eqv lt same geo props d (cql_to_es sp fm ft p) p"
    by (rule cql_engine.cql_to_es_agrees [OF assms(1,2,3)])
  then show ?thesis by (simp add: cql_ast_to_es_query_def cql_engine.cql_agrees_def [OF assms(1)])
qed

text \<open>A document with a name and a time, under the evaluator with plain equality.\<close>

definition sample_hit :: "esq \<Rightarrow> es_doc \<Rightarrow> bool" where
  "sample_hit = cql_hit (=) (\<lambda>x y. case (x, y) of (RTime a, RTime b) \<Rightarrow> a < b | _ \<Rightarrow> False) (\<lambda>_. (=)) (\<lambda>_ _ _. True) (\<lambda>_ _. True)"

definition sample_mapping :: "(string \<times> string) list" where
  "sample_mapping = [(''name'', ''properties.name.keyword''), (''when'', ''properties.when'')]"

definition sample_props :: "string \<Rightarrow> val option" where
  "sample_props n = (if n = ''name'' then Some (RStr ''abc'') else if n = ''when'' then Some (RTime 5) else None)"

definition sample_doc :: es_doc where
  "sample_doc f = (if f = ''properties.name.keyword'' then [RStr ''abc''] else if f = ''properties.when'' then [RTime 5] else [])"

lemma sample_stores: "stores sample_mapping sample_props sample_doc"
  by (simp add: stores_def sample_mapping_def sample_props_def sample_doc_def)

lemma sample_engine:
  "cql_engine sample_hit (=) (\<lambda>x y. case (x, y) of (RTime a, RTime b) \<Rightarrow> a < b | _ \<Rightarrow> False) (\<lambda>_. (=)) (\<lambda>_ _ _. True) (\<lambda>_ _. True)"
  unfolding sample_hit_def by (rule cql_eval.cql_engine_axioms)

theorem cql_backends_agree_witness:
  "\<exists>q. cql_ast_to_es_query (\<lambda>_. False) (PAnd (PLike False False ''a%'' ''%'' ''.'' [backslash] (EAttr ''name''))
        (PNot (PTemporal T_AFTER (EAttr ''when'') (ELit (LTime 7))))) sample_mapping (Some []) = Inr q \<and> sample_hit q sample_doc"
proof -
  let ?p = "PAnd (PLike False False ''a%'' ''%'' ''.'' [backslash] (EAttr ''name'')) (PNot (PTemporal T_AFTER (EAttr ''when'') (ELit (LTime 7))))"
  have t: "translatable sample_mapping [] ?p"
    by (simp add: sample_mapping_def es_temporal_ops_def es_plain_def classify_char_def)
  have h: "holds3 (=) (\<lambda>x y. case (x, y) of (RTime a, RTime b) \<Rightarrow> a < b | _ \<Rightarrow> False) (\<lambda>_. (=)) (\<lambda>_ _ _. True) sample_props ?p = Some True"
    by (simp add: sample_props_def flip3_def like3_def classify_char_def sql_temporal_def temporal_bounds_def not3_def)
  show ?thesis using cql_backends_agree [OF sample_engine sample_stores t, of "\<lambda>_. False"] h by blast
qed

text \<open>
  The temporal handlers of the two backends agree.  For an operand with two bounds, the query of
  each supported operator hits a document with one time value exactly when the SQL comparison is true;
  the operators Elasticsearch refuses are equality and the four that SQL refuses as well.
\<close>

theorem temporal_backends_agree:
  assumes "cql_engine hit eqv lt same geo analyzed" "temporal_bounds rhs = Some (low, high)" "d f = [x]"
  shows "(opr \<in> set es_temporal_ops \<longrightarrow>
      (\<exists>q. temporal opr (RStr f) rhs = Inr q \<and> sql_temporal eqv lt opr (Some x) rhs = Inr (Some (hit q d)))) \<and>
    (opr \<notin> set es_temporal_ops \<longrightarrow> temporal opr (RStr f) rhs = Inl UntranslatableFilterError \<and>
      (opr = T_TEQUALS \<or> sql_temporal eqv lt opr (Some x) rhs = Inl UnsupportedOperator))"
proof (intro conjI impI)
  assume "opr \<notin> set es_temporal_ops"
  then show "temporal opr (RStr f) rhs = Inl UntranslatableFilterError"
    and "opr = T_TEQUALS \<or> sql_temporal eqv lt opr (Some x) rhs = Inl UnsupportedOperator"
    using assms(2) by (cases opr rule: temporal_op.exhaust;
      simp add: es_temporal_ops_def temporal_def temporal_query_def sql_temporal_def)+
next
  assume "opr \<in> set es_temporal_ops"
  from cql_engine.temporal_leaf [of hit eqv lt same geo analyzed opr rhs low high d f x, OF assms(1) this assms(2,3)]
  show "\<exists>q. temporal opr (RStr f) rhs = Inr q \<and> sql_temporal eqv lt opr (Some x) rhs = Inr (Some (hit q d))" .
qed

theorem temporal_backends_agree_witness:
  "\<exists>q. temporal T_DURING (RStr ''properties.when'') (RPair (RTime 1) (RTime 9)) = Inr q \<and>
     sql_temporal (=) (\<lambda>x y. case (x, y) of (RTime a, RTime b) \<Rightarrow> a < b | _ \<Rightarrow> False) T_DURING (Some (RTime 5)) (RPair (RTime 1) (RTime 9)) =
       Inr (Some (sample_hit q sample_doc))"
  using temporal_backends_agree [OF sample_engine, of "RPair (RTime 1) (RTime 9)" "RTime 1" "RTime 9" sample_doc "''properties.when''" "RTime 5" T_DURING]
  by (simp add: temporal_bounds_def sample_doc_def es_temporal_ops_def)

section \<open>Where the translation differs\<close>

text \<open>
  A negated comparison hits documents without the property, for which the SQL condition is unknown.
\<close>

theorem negation_hits_missing:
  assumes "cql_engine hit eqv lt same geo analyzed" "map_of fm n = Some f" "d f = []" "props n = None"
  shows "\<exists>q. cql_to_es sp fm ft (PCompare NE (EAttr n) (ELit l)) = Inr q \<and> hit q d \<and>
    holds3 eqv lt same geo props (PCompare NE (EAttr n) (ELit l)) = None"
  using assms by (cases l) (auto simp: equality_def with_key_def cql_engine.hit_negate cql_engine.hit_term lift3_def)

theorem negation_hits_missing_witness:
  "\<exists>q. cql_to_es (\<lambda>_. False) [(''gone'', ''properties.gone'')] [] (PCompare NE (EAttr ''gone'') (ELit (LScal (SInt 1)))) = Inr q \<and> sample_hit q sample_doc"
  using negation_hits_missing [OF sample_engine, of "[(''gone'', ''properties.gone'')]" "''gone''" "''properties.gone''" sample_doc sample_props
      "\<lambda>_. False" "[]" "LScal (SInt 1)"]
  by (auto simp: sample_doc_def sample_props_def)

text \<open>
  A comparison of two properties is not refused: the path of the second becomes a literal, so equal
  properties do not match.
\<close>

theorem property_comparison_misread:
  assumes "cql_engine hit eqv lt same geo analyzed" "map_of fm a = Some f" "map_of fm b = Some g"
    "d f = [x]" "\<not> eqv x (RStr g)" "props a = Some x" "props b = Some x" "eqv x x"
  shows "\<exists>q. cql_to_es sp fm ft (PCompare EQ (EAttr a) (EAttr b)) = Inr q \<and> \<not> hit q d \<and>
    holds3 eqv lt same geo props (PCompare EQ (EAttr a) (EAttr b)) = Some True"
  using assms by (auto simp: equality_def with_key_def negate_if_def cql_engine.hit_term lift3_def compare3_def)

theorem property_comparison_misread_witness:
  "\<exists>q. cql_to_es (\<lambda>_. False) sample_mapping [] (PCompare EQ (EAttr ''when'') (EAttr ''when'')) = Inr q \<and> \<not> sample_hit q sample_doc"
  using property_comparison_misread [OF sample_engine, of sample_mapping "''when''" "''properties.when''" "''when''" "''properties.when''"
      sample_doc "RTime 5" sample_props "\<lambda>_. False" "[]"]
  by (auto simp: sample_mapping_def sample_doc_def sample_props_def)

end
