(* ===== verification/Cql_Fields.thy ===== *)
theory Cql_Fields
  imports Cql_Es
begin

text \<open>
  The field paths of CQL2 filters: the container classification (\<open>classify_container\<close> of
  \<open>modules/storage/computed_fields.py\<close>), the exact and the analysed field mapping of
  \<open>es_common/cql_to_es.py\<close>, and the path resolver of the sort parameter (\<open>resolve_es_field_path\<close> of
  \<open>modules/elasticsearch/items_projection.py\<close>).
\<close>

section \<open>Containers\<close>

record field_def =
  data_type :: string
  container :: string
  expose :: bool
  fulltext :: bool

definition identity_field_names :: "string list" where
  "identity_field_names = [''external_id'', ''asset_id'', ''geoid'']"

definition system_field_keys :: "string list" where
  "system_field_keys = [''geoid'', ''external_id'', ''asset_id'', ''geometry_hash'', ''attributes_hash'', ''validity'',
     ''transaction_time'', ''deleted_at'', ''write_id'', ''access_owner'']"

definition system_only_field_names :: "string list" where
  "system_only_field_names = [k \<leftarrow> system_field_keys. k \<notin> set identity_field_names]"

definition metadata_field_names :: "string list" where
  "metadata_field_names = [''title'', ''description'', ''keywords'', ''item_title'', ''item_description'', ''item_keywords'']"

definition geometry_stat_base_names :: "string list" where
  "geometry_stat_base_names = [''area'', ''volume'', ''perimeter'', ''length'', ''centroid'', ''bbox'', ''vertex_count'',
     ''hole_count'', ''circularity'', ''convexity'', ''aspect_ratio'', ''surface_area'', ''surface_to_volume_ratio'',
     ''net_floor_area'', ''centroid_3d'', ''z_range'', ''vertical_gradient'', ''temporal_duration'']"

text \<open>
  The spatial-cell pattern as a test: after one of the prefixes \<open>s2_\<close>, \<open>h3_\<close>, \<open>geohash_\<close> and an optional
  \<open>res\<close> or \<open>res_\<close> there are digits only, and possibly a final line break.
\<close>

definition strip_start :: "string \<Rightarrow> string \<Rightarrow> string option" where
  "strip_start p s = (if take (length p) s = p then Some (drop (length p) s) else None)"

definition all_digits :: "string \<Rightarrow> bool" where
  "all_digits s \<longleftrightarrow> (let t = (if s \<noteq> [] \<and> last s = CHR 0x0A then butlast s else s) in t \<noteq> [] \<and> list_all is_digit t)"

definition cell_resolution :: "string \<Rightarrow> bool" where
  "cell_resolution s \<longleftrightarrow> all_digits s \<or>
     (case strip_start ''res_'' s of Some t \<Rightarrow> all_digits t | None \<Rightarrow> False) \<or>
     (case strip_start ''res'' s of Some t \<Rightarrow> all_digits t | None \<Rightarrow> False)"

definition spatial_cell_pattern :: "string \<Rightarrow> bool" where
  "spatial_cell_pattern name \<longleftrightarrow>
     list_ex (\<lambda>p. case strip_start p name of Some s \<Rightarrow> cell_resolution s | None \<Rightarrow> False) [''s2_'', ''h3_'', ''geohash_'']"

definition classify_container :: "string \<Rightarrow> field_def \<Rightarrow> string" where
  "classify_container name fd =
     (if name \<in> set identity_field_names then ''identity''
      else if name \<in> set system_only_field_names then ''system''
      else if container fd \<noteq> ''properties'' then container fd
      else if name \<in> set metadata_field_names then ''metadata''
      else if name \<in> set geometry_stat_base_names then ''stats''
      else if spatial_cell_pattern name then ''stats''
      else ''properties'')"

section \<open>Field mappings\<close>

definition envelope_field_paths :: "(string \<times> string) list" where
  "envelope_field_paths = [(''external_id'', ''external_id''), (''asset_id'', ''asset_id''), (''geoid'', ''geoid''),
     (''id'', ''id''), (''geometry'', ''geometry''), (''datetime'', ''properties.datetime'')]"

definition keyword_subfield_data_types :: "string list" where
  "keyword_subfield_data_types = [''string'', ''uuid'']"

text \<open>\<open>low\<close> is \<open>str.lower\<close>.\<close>

definition field_path :: "(string \<Rightarrow> string) \<Rightarrow> bool \<Rightarrow> string \<Rightarrow> field_def \<Rightarrow> string" where
  "field_path low private name fd =
     (let dt = low (data_type fd);
          suffix = (if dt \<in> set keyword_subfield_data_types then ''.keyword'' else [])
      in if take 8 dt = ''geometry'' then ''geometry''
         else if name = ''datetime'' then ''properties.datetime''
         else (case map_of envelope_field_paths name of
                 Some p \<Rightarrow> p
               | None \<Rightarrow>
                   (let c = classify_container name fd in
                    if c = ''stats'' then ''stats.'' @ name
                    else if c = ''system'' then ''system.'' @ name
                    else if c = ''identity'' then name
                    else if private \<or> expose fd then ''properties.'' @ name @ suffix
                    else ''properties.extras.'' @ name @ suffix)))"

definition build_es_field_mapping :: "(string \<Rightarrow> string) \<Rightarrow> (string \<times> field_def) list \<Rightarrow> bool \<Rightarrow> (string \<times> string) list" where
  "build_es_field_mapping low queryable_fields private =
     map (\<lambda>(name, fd). (name, field_path low private name fd)) queryable_fields"

definition offers_fulltext :: "(string \<Rightarrow> string) \<Rightarrow> string \<Rightarrow> field_def \<Rightarrow> bool" where
  "offers_fulltext low name fd \<longleftrightarrow>
     fulltext fd \<and> low (data_type fd) \<in> set keyword_subfield_data_types \<and> map_of envelope_field_paths name = None"

definition fulltext_path :: "bool \<Rightarrow> string \<Rightarrow> field_def \<Rightarrow> string" where
  "fulltext_path private name fd =
     (if private \<or> expose fd then ''properties.'' @ name @ ''.text'' else ''properties.extras.'' @ name @ ''.text'')"

definition build_es_fulltext_mapping :: "(string \<Rightarrow> string) \<Rightarrow> (string \<times> field_def) list \<Rightarrow> bool \<Rightarrow> (string \<times> string) list" where
  "build_es_fulltext_mapping low queryable_fields private =
     [(name, fulltext_path private name fd). (name, fd) \<leftarrow> queryable_fields, offers_fulltext low name fd]"

section \<open>Sort paths\<close>

definition resolve_es_field_path :: "(string \<times> field_def) list \<Rightarrow> string \<Rightarrow> string" where
  "resolve_es_field_path known_fields stac_path =
     (case strip_start ''properties.'' stac_path of
        None \<Rightarrow> stac_path
      | Some tail \<Rightarrow>
          (let head = takeWhile (\<lambda>c. c \<noteq> CHR ''.'') tail in
           if head = ''extras'' then stac_path
           else (case map_of known_fields head of
                   None \<Rightarrow> ''properties.extras.'' @ tail
                 | Some fd \<Rightarrow>
                     (let c = classify_container head fd in
                      if c = ''stats'' then ''stats.'' @ tail
                      else if c = ''system'' then ''system.'' @ tail
                      else if c = ''identity'' then tail
                      else stac_path))))"

section \<open>Consistency\<close>

lemma map_of_mapping:
  "map_of (build_es_field_mapping low fs private) name = map_option (field_path low private name) (map_of fs name)"
  by (induction fs) (auto simp: build_es_field_mapping_def)

lemma identity_in_envelope: "name \<in> set identity_field_names \<Longrightarrow> map_of envelope_field_paths name = Some name"
  by (auto simp: identity_field_names_def envelope_field_paths_def)

text \<open>
  Filters and sorting address the same field: for a known field that is exposed or lives in a
  private document, is neither a geometry nor one of the envelope fields and has no dot in its name,
  the filter path is the sort path, followed by the keyword suffix exactly for text among the
  properties.
\<close>

theorem filter_and_sort_paths_agree:
  assumes "map_of fs name = Some fd" "private \<or> expose fd" "CHR ''.'' \<notin> set name" "name \<noteq> ''extras''"
    "take 8 (low (data_type fd)) \<noteq> ''geometry''" "map_of envelope_field_paths name = None"
  shows "map_of (build_es_field_mapping low fs private) name = Some (resolve_es_field_path fs (''properties.'' @ name) @
    (if classify_container name fd \<notin> {''stats'', ''system'', ''identity''} \<and>
        low (data_type fd) \<in> set keyword_subfield_data_types then ''.keyword'' else []))"
proof -
  have head: "takeWhile (\<lambda>c. c \<noteq> CHR ''.'') name = name" using assms(3) by (auto simp: takeWhile_eq_all_conv)
  have "name \<noteq> ''datetime''" using assms(6) by (auto simp: envelope_field_paths_def)
  then show ?thesis using assms
    by (simp add: head map_of_mapping field_path_def resolve_es_field_path_def strip_start_def Let_def)
qed

definition sample_field :: field_def where
  "sample_field = \<lparr>data_type = ''string'', container = ''properties'', expose = True, fulltext = True\<rparr>"

theorem filter_and_sort_paths_agree_witness:
  "map_of (build_es_field_mapping (\<lambda>s. s) [(''name'', sample_field)] False) ''name'' =
     Some (resolve_es_field_path [(''name'', sample_field)] (''properties.'' @ ''name'') @ ''.keyword'')"
proof -
  have "classify_container ''name'' sample_field = ''properties''"
    by (simp add: classify_container_def sample_field_def identity_field_names_def system_only_field_names_def system_field_keys_def
        metadata_field_names_def geometry_stat_base_names_def spatial_cell_pattern_def strip_start_def)
  then show ?thesis
    using filter_and_sort_paths_agree [of "[(''name'', sample_field)]" "''name''" sample_field False "\<lambda>s. s"]
    by (simp add: sample_field_def keyword_subfield_data_types_def envelope_field_paths_def)
qed

text \<open>
  The analysed path is documented as the exact path with the other suffix.  For a text field that is
  classified as a statistic the exact path is below \<open>stats\<close>, but the analysed path below \<open>properties\<close>.
\<close>

theorem fulltext_path_drifts:
  "map_of (build_es_field_mapping (\<lambda>s. s) [(''area'', sample_field)] True) ''area'' = Some ''stats.area'' \<and>
   map_of (build_es_fulltext_mapping (\<lambda>s. s) [(''area'', sample_field)] True) ''area'' = Some ''properties.area.text''"
  by (simp add: build_es_field_mapping_def build_es_fulltext_mapping_def field_path_def fulltext_path_def offers_fulltext_def sample_field_def
      classify_container_def identity_field_names_def system_only_field_names_def system_field_keys_def metadata_field_names_def
      geometry_stat_base_names_def envelope_field_paths_def keyword_subfield_data_types_def Let_def)

text \<open>
  An unknown property never reaches the engine: the translator built from the mapping refuses every
  comparison with a property that is not queryable.
\<close>

theorem unknown_property_refused:
  assumes "map_of fs name = None"
  shows "cql_ast_to_es_query sp (PCompare opr (EAttr name) r) (build_es_field_mapping low fs private) ft =
    Inl UntranslatableFilterError"
  using assms by (simp add: cql_ast_to_es_query_def map_of_mapping)

theorem unknown_property_refused_witness:
  "cql_ast_to_es_query (\<lambda>_. False) (PCompare EQ (EAttr ''other'') (ELit (LScal (SInt 1)))) (build_es_field_mapping (\<lambda>s. s) [(''name'', sample_field)] True) None =
    Inl UntranslatableFilterError"
  by (rule unknown_property_refused) simp

end
