(* ===== verification/Es_Bulk.thy ===== *)
theory Es_Bulk
  imports Py_Values "HOL-Library.Multiset"
begin

text \<open>
  The bulk-write path into the search index: the classifier of \<open>_bulk\<close> responses
  (\<open>modules/elasticsearch/bulk_classify.py\<close>), the geometry degradation ladder
  (\<open>modules/elasticsearch/geo_shape_ladder.py\<close>), the platform alias
  (\<open>modules/elasticsearch/aliases.py\<close>) and the adapter the storage drain calls
  (\<open>tasks/workclass_drain/es_indexer_adapter.py\<close>).  The cluster is a record of computations on a
  world \<open>'w\<close>; the drivers' geometry routines are parameters.
\<close>

section \<open>Loops and handlers over a world\<close>

fun fold_r :: "('a \<Rightarrow> 's \<Rightarrow> ('w, 'e, 's) run) \<Rightarrow> 'a list \<Rightarrow> 's \<Rightarrow> ('w, 'e, 's) run" where
  "fold_r f [] s = ret s"
| "fold_r f (x # xs) s = bind_r (f x s) (fold_r f xs)"

text \<open>\<open>try: x = m() except Exception: x = None\<close>.\<close>

definition swallow :: "('w, 'e, 'a) run \<Rightarrow> ('w, 'e, 'a option) run" where
  "swallow m = (\<lambda>w. case m w of (Inl e, w') \<Rightarrow> (Inr None, w') | (Inr x, w') \<Rightarrow> (Inr (Some x), w'))"

text \<open>A computation on the second half of a paired state.\<close>

definition on_world :: "('w, 'e, 'a) run \<Rightarrow> ('s \<times> 'w, 'e, 'a) run" where
  "on_world m = (\<lambda>(s, w). let (r, w') = m w in (r, (s, w')))"

section \<open>Classification of a bulk response\<close>

definition transient_error_types :: "string list" where
  "transient_error_types =
     [''es_rejected_execution_exception'', ''cluster_block_exception'', ''circuit_breaking_exception'',
      ''node_not_connected_exception'', ''process_cluster_event_timeout_exception'']"

definition poison_error_types :: "string list" where
  "poison_error_types =
     [''mapper_parsing_exception'', ''illegal_argument_exception'', ''version_conflict_engine_exception'',
      ''document_missing_exception'', ''type_missing_exception'', ''invalid_shape_exception'']"

text \<open>\<open>_format_error_reason\<close>: at most five hops of the \<open>caused_by\<close> chain, cut at 2000 characters.\<close>

fun error_parts :: "pylib \<Rightarrow> nat \<Rightarrow> json \<Rightarrow> string list" where
  "error_parts L (Suc n) (JObj d) =
     (lib_str L (jget_or d ''type'' (JStr ''unknown'')) @ '': '' @
      lib_str L (jget_or d ''reason'' (JStr ''no reason''))) # error_parts L n (jget d ''caused_by'')"
| "error_parts L _ _ = []"

fun join_text :: "string \<Rightarrow> string list \<Rightarrow> string" where
  "join_text sep [] = []"
| "join_text sep [x] = x"
| "join_text sep (x # y # xs) = x @ sep @ join_text sep (y # xs)"

definition format_error_reason :: "pylib \<Rightarrow> json \<Rightarrow> string" where
  "format_error_reason L err =
     (case err of
        JObj d \<Rightarrow>
          (let text = join_text '' | caused by: '' (error_parts L 5 err)
           in if length text > 2000 then take 2000 text @ ''...(truncated)'' else text)
      | JScalar SNone \<Rightarrow> ''no reason''
      | _ \<Rightarrow> lib_str L err)"

text \<open>\<open>x in frozenset\<close>: a list or a dict is unhashable.\<close>

fun in_frozenset :: "json \<Rightarrow> string list \<Rightarrow> py_exn + bool" where
  "in_frozenset (JScalar (SStr s)) xs = Inr (s \<in> set xs)"
| "in_frozenset (JScalar _) xs = Inr False"
| "in_frozenset _ xs = Inl TypeError"

text \<open>\<open>items[idx] if idx < len(items) else None\<close>, for whatever value \<open>items\<close> is.\<close>

fun item_at :: "json \<Rightarrow> nat \<Rightarrow> py_exn + json" where
  "item_at (JList xs) i = Inr (if i < length xs then xs ! i else JNone)"
| "item_at (JScalar (SStr s)) i = Inr (if i < length s then JStr [s ! i] else JNone)"
| "item_at (JObj d) i = (if i < length d then Inl KeyError else Inr JNone)"
| "item_at _ i = Inl TypeError"

datatype bucket = Passed json | Transient json string | Poison json string

text \<open>The body of the loop of \<open>classify_bulk_response\<close> for one submitted id.\<close>

definition entry_of :: "json \<Rightarrow> dict" where
  "entry_of raw = (case raw of JObj ((_, JObj e) # _) \<Rightarrow> e | _ \<Rightarrow> [])"

definition err_type_of :: "json \<Rightarrow> json" where
  "err_type_of err = (case err of JObj d \<Rightarrow> jget_or d ''type'' (JStr ''unknown'') | _ \<Rightarrow> JStr ''unknown'')"

definition classify_failed :: "pylib \<Rightarrow> json \<Rightarrow> json \<Rightarrow> int \<Rightarrow> json \<Rightarrow> py_exn + bucket" where
  "classify_failed L err st code iid =
     (let reason = format_error_reason L err; text = lib_str L st @ '' '' @ reason
      in if code = 429 then Inr (Transient iid (''429 rate-limited: '' @ reason))
         else bind_e (in_frozenset (err_type_of err) transient_error_types) (\<lambda>tr.
           if tr \<or> code \<ge> 500 then Inr (Transient iid text)
           else bind_e (in_frozenset (err_type_of err) poison_error_types) (\<lambda>po.
             if po \<or> (400 \<le> code \<and> code < 500) then Inr (Poison iid text)
             else Inr (Transient iid text))))"

definition classify_item :: "pylib \<Rightarrow> json \<Rightarrow> string \<Rightarrow> py_exn + bucket" where
  "classify_item L raw doc_id =
     (if raw = JNone
      then Inr (Transient (JStr doc_id) ''no bulk response entry for submitted id (truncated response)'')
      else
        (let entry = entry_of raw;
             st = jget_or entry ''status'' (JInt 200);
             err = jget entry ''error'';
             iid = (if truthy (jget entry ''_id'') then jget entry ''_id'' else JStr doc_id)
         in bind_e (lib_int L st) (\<lambda>code.
              if \<not> truthy err \<and> 200 \<le> code \<and> code < 300 then Inr (Passed iid)
              else classify_failed L err st code iid)))"

fun classify_loop :: "pylib \<Rightarrow> json \<Rightarrow> nat \<Rightarrow> string list \<Rightarrow> py_exn + bucket list" where
  "classify_loop L its i [] = Inr []"
| "classify_loop L its i (d # ds) =
     bind_e (item_at its i) (\<lambda>raw.
     bind_e (classify_item L raw d) (\<lambda>b.
     bind_e (classify_loop L its (Suc i) ds) (\<lambda>bs. Inr (b # bs))))"

definition passed_of :: "bucket list \<Rightarrow> json list" where
  "passed_of bs = concat (map (\<lambda>b. case b of Passed i \<Rightarrow> [i] | _ \<Rightarrow> []) bs)"

definition transient_of :: "bucket list \<Rightarrow> (json \<times> string) list" where
  "transient_of bs = concat (map (\<lambda>b. case b of Transient i r \<Rightarrow> [(i, r)] | _ \<Rightarrow> []) bs)"

definition poison_of :: "bucket list \<Rightarrow> (json \<times> string) list" where
  "poison_of bs = concat (map (\<lambda>b. case b of Poison i r \<Rightarrow> [(i, r)] | _ \<Rightarrow> []) bs)"

definition response_items :: "json \<Rightarrow> json" where
  "response_items resp = (case resp of JObj d \<Rightarrow> jget_or d ''items'' (JList []) | _ \<Rightarrow> JList [])"

definition classify_bulk_response ::
    "pylib \<Rightarrow> json \<Rightarrow> string list \<Rightarrow> py_exn + (json list \<times> (json \<times> string) list \<times> (json \<times> string) list)" where
  "classify_bulk_response L resp ids =
     bind_e (classify_loop L (response_items resp) 0 ids) (\<lambda>bs. Inr (passed_of bs, transient_of bs, poison_of bs))"

section \<open>The geometry ladder\<close>

text \<open>The four rung functions, the first two of \<open>tools/geometry_normalize.py\<close>; all of them call shapely.\<close>

record geo_lib =
  orient_and_validate :: "json \<Rightarrow> py_exn + json option"
  split_antimeridian :: "json \<Rightarrow> py_exn + json option"
  aggressive_simplify :: "json \<Rightarrow> py_exn + json option"
  bbox_envelope :: "json \<Rightarrow> py_exn + json option"

definition ladder_rungs :: "geo_lib \<Rightarrow> (string \<times> (json \<Rightarrow> py_exn + json option)) list" where
  "ladder_rungs G =
     [(''orient_validate'', orient_and_validate G), (''antimeridian_split'', split_antimeridian G),
      (''aggressive_simplify'', aggressive_simplify G), (''bbox_envelope'', bbox_envelope G)]"

fun degrade_from :: "(string \<times> (json \<Rightarrow> py_exn + json option)) list \<Rightarrow> json \<Rightarrow> (string \<times> json) list" where
  "degrade_from [] cur = []"
| "degrade_from ((name, f) # rs) cur =
     (case f cur of
        Inr (Some cand) \<Rightarrow> (name, cand) # degrade_from rs cand
      | _ \<Rightarrow> degrade_from rs cur)"

definition degrade_rungs :: "geo_lib \<Rightarrow> json \<Rightarrow> (string \<times> json) list" where
  "degrade_rungs G geometry = degrade_from (ladder_rungs G) geometry"

text \<open>
  The client: \<open>bulk(body)\<close>, \<open>index(index, id, body, routing)\<close> and the \<open>add\<close> action of
  \<open>indices.update_aliases\<close>.
\<close>

record 'w es_client =
  es_bulk :: "json list \<Rightarrow> ('w, py_exn, json) run"
  es_index :: "string \<Rightarrow> string \<Rightarrow> dict \<Rightarrow> string option \<Rightarrow> ('w, py_exn, unit) run"
  es_add_alias :: "string \<Rightarrow> string \<Rightarrow> ('w, py_exn, unit) run"

fun try_rungs ::
    "'w es_client \<Rightarrow> string \<Rightarrow> string \<Rightarrow> dict \<Rightarrow> string option \<Rightarrow> (string \<times> json) list \<Rightarrow>
     ('w, py_exn, bool \<times> string option) run" where
  "try_rungs es idx did d rt [] w = (Inr (False, None), w)"
| "try_rungs es idx did d rt ((name, cand) # rs) w =
     (case es_index es idx did (dset ''geometry'' cand d) rt w of
        (Inl e, w') \<Rightarrow> try_rungs es idx did d rt rs w'
      | (Inr _, w') \<Rightarrow> (Inr (True, Some name), w'))"

definition retry_doc_with_ladder ::
    "geo_lib \<Rightarrow> 'w es_client \<Rightarrow> string \<Rightarrow> string \<Rightarrow> dict \<Rightarrow> string option \<Rightarrow>
     ('w, py_exn, bool \<times> string option) run" where
  "retry_doc_with_ladder G es idx did d routing =
     (if \<not> truthy (jget d ''geometry'') then ret (False, None)
      else try_rungs es idx did d (if routing = Some '''' then None else routing)
             (degrade_rungs G (jget d ''geometry'')))"

section \<open>Index names and the platform alias\<close>

definition get_tenant_items_index :: "string \<Rightarrow> string \<Rightarrow> string" where
  "get_tenant_items_index pfx cat = pfx @ ''-'' @ cat @ ''-items''"

definition get_envelope_index_name :: "string \<Rightarrow> string \<Rightarrow> string" where
  "get_envelope_index_name pfx cat = pfx @ ''-'' @ cat @ ''-envelope-items''"

definition get_public_items_alias :: "string \<Rightarrow> string" where
  "get_public_items_alias pfx = pfx @ ''-items''"

definition starts_with :: "string \<Rightarrow> string \<Rightarrow> bool" where
  "starts_with h s \<longleftrightarrow> take (length h) s = h"

definition ends_with :: "string \<Rightarrow> string \<Rightarrow> bool" where
  "ends_with t s \<longleftrightarrow> length t \<le> length s \<and> drop (length s - length t) s = t"

definition catalog_id_from_index :: "string \<Rightarrow> string \<Rightarrow> string option" where
  "catalog_id_from_index index_name pfx =
     (let head = pfx @ ''-''; tail = ''-items''
      in if \<not> (starts_with head index_name \<and> ends_with tail index_name) then None
         else (let cat = drop (length head) (take (length index_name - length tail) index_name)
               in if cat = [] then None else Some cat))"

text \<open>\<open>add_index_to_public_alias\<close>: without a client, or when the call fails, it logs and returns.\<close>

definition add_index_to_public_alias :: "string \<Rightarrow> 'w es_client option \<Rightarrow> string \<Rightarrow> ('w, py_exn, unit) run" where
  "add_index_to_public_alias pfx client index_name =
     (case client of
        None \<Rightarrow> ret ()
      | Some es \<Rightarrow> bind_r (swallow (es_add_alias es index_name (get_public_items_alias pfx))) (\<lambda>_. ret ()))"

section \<open>The bulk adapter\<close>

record indexable_op =
  op_uuid :: nat
  op_op :: string
  op_catalog :: string
  op_collection :: string
  op_instance :: string
  op_item :: "string option"
  op_payload :: dict
  op_key :: string

record bulk_result =
  passed :: "nat list"
  transient :: "(nat \<times> string) list"
  poison :: "(nat \<times> string) list"

type_synonym simplify_cfg = "bool \<times> int \<times> bool \<times> pyfloat"

text \<open>
  The two wrapped items drivers: the standard one and the access-aware envelope one.  What the
  adapter calls on them beyond the index name and the routing key is the rest of the record:
  \<open>ensure_storage\<close>, the resolvers of the simplification settings and the simplification itself.
\<close>

datatype driver_kind = Standard | Envelope

record 'w items_driver =
  drv_kind :: driver_kind
  drv_ensure_storage :: "string \<Rightarrow> ('w, py_exn, unit) run"
  drv_simplify_cfg :: "string \<Rightarrow> string \<Rightarrow> ('w, py_exn, simplify_cfg) run"
  drv_simplify :: "simplify_cfg \<Rightarrow> dict \<Rightarrow> dict"

definition items_index_name :: "string \<Rightarrow> driver_kind \<Rightarrow> string \<Rightarrow> string" where
  "items_index_name pfx k cat =
     (case k of Standard \<Rightarrow> get_tenant_items_index pfx cat | Envelope \<Rightarrow> get_envelope_index_name pfx cat)"

definition collection_routing :: "driver_kind \<Rightarrow> string \<Rightarrow> string option" where
  "collection_routing k coll = (case k of Standard \<Rightarrow> Some coll | Envelope \<Rightarrow> None)"

text \<open>What the process fixes: the index prefix, the client if it has started, and the text services.\<close>

record 'w es_env =
  env_prefix :: string
  env_client :: "'w es_client option"
  env_lib :: pylib
  env_exn_text :: "py_exn \<Rightarrow> string"
  env_geo :: geo_lib

record adapter =
  storage_ensured :: "string list"
  simplify_cache :: "((string \<times> string) \<times> simplify_cfg) list"

definition new_adapter :: adapter where
  "new_adapter = \<lparr>storage_ensured = [], simplify_cache = []\<rparr>"

type_synonym ('w, 'a) adapter_run = "(adapter \<times> 'w, py_exn, 'a) run"

definition ensure_one :: "'w items_driver \<Rightarrow> string \<Rightarrow> unit \<Rightarrow> ('w, unit) adapter_run" where
  "ensure_one drv cat _ = (\<lambda>(a, w).
     if cat \<in> set (storage_ensured a) then (Inr (), (a, w))
     else (let (_, w') = swallow (drv_ensure_storage drv cat) w
           in (Inr (), (a\<lparr>storage_ensured := cat # storage_ensured a\<rparr>, w'))))"

definition ensure_storage_once :: "'w items_driver \<Rightarrow> indexable_op list \<Rightarrow> ('w, unit) adapter_run" where
  "ensure_storage_once drv ops = fold_r (ensure_one drv) (remdups (map op_catalog ops)) ()"

definition resolve_simplify_config ::
    "'w items_driver \<Rightarrow> string \<Rightarrow> string \<Rightarrow> ('w, simplify_cfg) adapter_run" where
  "resolve_simplify_config drv cat coll = (\<lambda>(a, w).
     case map_of (simplify_cache a) (cat, coll) of
       Some c \<Rightarrow> (Inr c, (a, w))
     | None \<Rightarrow>
         (case drv_simplify_cfg drv cat coll w of
            (Inl e, w') \<Rightarrow> (Inl e, (a, w'))
          | (Inr c, w') \<Rightarrow> (Inr c, (a\<lparr>simplify_cache := dset (cat, coll) c (simplify_cache a)\<rparr>, w'))))"

definition simplify_payload :: "'w items_driver \<Rightarrow> indexable_op \<Rightarrow> ('w, dict) adapter_run" where
  "simplify_payload drv opn =
     bind_r (resolve_simplify_config drv (op_catalog opn) (op_collection opn))
       (\<lambda>c. ret (drv_simplify drv c (op_payload opn)))"

definition action_meta :: "driver_kind \<Rightarrow> string \<Rightarrow> string \<Rightarrow> indexable_op \<Rightarrow> json" where
  "action_meta k idx did opn =
     JObj ([(''_index'', JStr idx), (''_id'', JStr did)] @
           (case collection_routing k (op_collection opn) of None \<Rightarrow> [] | Some r \<Rightarrow> [(''routing'', JStr r)]))"

definition add_bulk_op ::
    "'w es_env \<Rightarrow> 'w items_driver \<Rightarrow> indexable_op \<Rightarrow> json list \<times> (string \<times> dict) list \<Rightarrow>
     ('w, json list \<times> (string \<times> dict) list) adapter_run" where
  "add_bulk_op E drv opn acc =
     (let idx = items_index_name (env_prefix E) (drv_kind drv) (op_catalog opn);
          meta = action_meta (drv_kind drv) idx (op_key opn) opn;
          (body, docs) = acc
      in if op_op opn = ''delete'' then ret (body @ [JObj [(''delete'', meta)]], docs)
         else bind_r (simplify_payload drv opn)
                (\<lambda>p. ret (body @ [JObj [(''index'', meta)], JObj p], dset (op_key opn) p docs)))"

definition enrol_one :: "'w es_env \<Rightarrow> 'w items_driver \<Rightarrow> string \<Rightarrow> unit \<Rightarrow> ('w, unit) adapter_run" where
  "enrol_one E drv cat _ =
     on_world (add_index_to_public_alias (env_prefix E) (env_client E)
                 (items_index_name (env_prefix E) (drv_kind drv) cat))"

definition get_client :: "'w es_env \<Rightarrow> ('s, py_exn, 'w es_client) run" where
  "get_client E = (case env_client E of None \<Rightarrow> throw RuntimeError | Some es \<Rightarrow> ret es)"

text \<open>
  A dict comprehension over the ops keeps the last op of a key; the lookups hash the id read from the
  response.
\<close>

definition op_by_key :: "indexable_op list \<Rightarrow> (string \<times> indexable_op) list" where
  "op_by_key ops = rev (map (\<lambda>opn. (op_key opn, opn)) ops)"

fun by_key :: "(string \<times> 'a) list \<Rightarrow> json \<Rightarrow> py_exn + 'a option" where
  "by_key m (JScalar (SStr s)) = Inr (map_of m s)"
| "by_key m (JScalar _) = Inr None"
| "by_key m _ = Inl TypeError"

fun str_of :: "json \<Rightarrow> string" where
  "str_of (JScalar (SStr s)) = s"
| "str_of _ = []"

definition ladder_one ::
    "'w es_env \<Rightarrow> 'w items_driver \<Rightarrow> 'w es_client \<Rightarrow> (string \<times> indexable_op) list \<Rightarrow> (string \<times> dict) list \<Rightarrow>
     json \<times> string \<Rightarrow> json list \<times> (json \<times> string) list \<Rightarrow>
     ('w, json list \<times> (json \<times> string) list) adapter_run" where
  "ladder_one E drv es ops docs pr acc =
     (let (sid, reason) = pr; (recovered, remaining) = acc
      in bind_r (lift_r (by_key ops sid)) (\<lambda>mo.
         bind_r (lift_r (by_key docs sid)) (\<lambda>md.
           (case (mo, md) of
              (Some opn, Some d) \<Rightarrow>
                bind_r (on_world (retry_doc_with_ladder (env_geo E) es
                          (items_index_name (env_prefix E) (drv_kind drv) (op_catalog opn))
                          (str_of sid) d (Some (op_collection opn))))
                  (\<lambda>(ok, _). if ok then ret (recovered @ [sid], remaining)
                             else ret (recovered, remaining @ [(sid, reason)]))
            | _ \<Rightarrow> ret (recovered, remaining @ [(sid, reason)])))))"

definition resolve_ids :: "(string \<times> indexable_op) list \<Rightarrow> json list \<Rightarrow> py_exn + nat list" where
  "resolve_ids ops sids =
     bind_e (map_e (by_key ops) sids) (\<lambda>ms. Inr (map op_uuid (concat (map (\<lambda>m. case m of None \<Rightarrow> [] | Some x \<Rightarrow> [x]) ms))))"

definition resolve_pairs ::
    "(string \<times> indexable_op) list \<Rightarrow> (json \<times> string) list \<Rightarrow> py_exn + (nat \<times> string) list" where
  "resolve_pairs ops prs =
     bind_e (map_e (\<lambda>(sid, r). bind_e (by_key ops sid) (\<lambda>m. Inr (m, r))) prs)
       (\<lambda>ms. Inr (concat (map (\<lambda>(m, r). case m of None \<Rightarrow> [] | Some x \<Rightarrow> [(op_uuid x, r)]) ms)))"

definition classify_response ::
    "'w es_env \<Rightarrow> 'w items_driver \<Rightarrow> indexable_op list \<Rightarrow> json \<Rightarrow> (string \<times> dict) list \<Rightarrow>
     ('w, bulk_result) adapter_run" where
  "classify_response E drv ops resp docs =
     (let keyed = op_by_key ops
      in bind_r (lift_r (classify_bulk_response (env_lib E) resp (map op_key ops))) (\<lambda>(ps, ts, qs).
         bind_r (if qs = [] then ret ([], [])
                 else bind_r (get_client E) (\<lambda>es. fold_r (ladder_one E drv es keyed docs) qs ([], []))) (\<lambda>(recovered, qs').
         bind_r (lift_r (resolve_ids keyed (ps @ recovered))) (\<lambda>p.
         bind_r (lift_r (resolve_pairs keyed ts)) (\<lambda>t.
         bind_r (lift_r (resolve_pairs keyed qs')) (\<lambda>q.
           ret \<lparr>passed = p, transient = t, poison = q\<rparr>))))))"

definition index_bulk ::
    "'w es_env \<Rightarrow> 'w items_driver \<Rightarrow> indexable_op list \<Rightarrow> ('w, bulk_result) adapter_run" where
  "index_bulk E drv ops =
     (if ops = [] then ret \<lparr>passed = [], transient = [], poison = []\<rparr>
      else
        bind_r (ensure_storage_once drv ops) (\<lambda>_.
        bind_r (fold_r (add_bulk_op E drv) ops ([], [])) (\<lambda>(body, docs).
        bind_r (fold_r (enrol_one E drv) (remdups (map op_catalog ops)) ()) (\<lambda>_.
        bind_r (get_client E) (\<lambda>es. \<lambda>s.
          (case on_world (es_bulk es body) s of
             (Inl e, s') \<Rightarrow>
               (Inr \<lparr>passed = [], transient = map (\<lambda>opn. (op_uuid opn, env_exn_text E e)) ops, poison = []\<rparr>, s')
           | (Inr resp, s') \<Rightarrow> classify_response E drv ops resp docs s'))))))"

section \<open>A cluster for the examples\<close>

text \<open>
  The client is a parameter of every definition above and of the theorems below, which state what
  they rely on as laws of it (\<open>bulk_echo\<close>, \<open>delete_laws\<close>, \<open>alias_laws\<close>).  The examples instantiate it
  with a small store of documents and alias memberships that satisfies these laws: \<open>index\<close> overwrites
  and answers 201, \<open>delete\<close> answers 200 for a stored document and 404 for an absent one, and a bulk
  response has one entry per action, in order.
\<close>

record es_store =
  es_docs :: "((string \<times> string) \<times> dict) list"
  es_aliases :: "(string \<times> string) list"

definition bulk_action :: "json \<Rightarrow> (string \<times> dict) option" where
  "bulk_action a = (case a of JObj [(verb, JObj m)] \<Rightarrow> Some (verb, m) | _ \<Rightarrow> None)"

definition meta_key :: "dict \<Rightarrow> string \<times> string" where
  "meta_key m = (str_of (jget m ''_index''), str_of (jget m ''_id''))"

definition bulk_entry :: "string \<Rightarrow> dict \<Rightarrow> int \<Rightarrow> json" where
  "bulk_entry verb m code = JObj [(verb, JObj [(''_id'', JStr (snd (meta_key m))), (''status'', JInt code)])]"

fun es_apply :: "json list \<Rightarrow> es_store \<Rightarrow> json list \<times> es_store" where
  "es_apply [] s = ([], s)"
| "es_apply (a # rest) s =
     (case bulk_action a of
        None \<Rightarrow> ([], s)
      | Some (verb, m) \<Rightarrow>
          if verb = ''delete'' then
            (let found = map_of (es_docs s) (meta_key m) \<noteq> None;
                 (items, s') = es_apply rest (s\<lparr>es_docs := filter (\<lambda>kv. fst kv \<noteq> meta_key m) (es_docs s)\<rparr>)
             in (bulk_entry verb m (if found then 200 else 404) # items, s'))
          else
            (case rest of
               JObj d # rest' \<Rightarrow>
                 (let (items, s') = es_apply rest' (s\<lparr>es_docs := dset (meta_key m) d (es_docs s)\<rparr>)
                  in (bulk_entry verb m 201 # items, s'))
             | _ \<Rightarrow> ([], s)))"

definition live_es :: "es_store es_client" where
  "live_es = \<lparr>
     es_bulk = (\<lambda>body s. let (items, s') = es_apply body s in (Inr (JObj [(''items'', JList items)]), s')),
     es_index = (\<lambda>idx did d rt s. (Inr (), s\<lparr>es_docs := dset (idx, did) d (es_docs s)\<rparr>)),
     es_add_alias = (\<lambda>idx al s. (Inr (), s\<lparr>es_aliases := List.insert (idx, al) (es_aliases s)\<rparr>))\<rparr>"

text \<open>The ids of the actions of a bulk body, and a client whose responses name them in order.\<close>

fun body_ids :: "json list \<Rightarrow> string list" where
  "body_ids [] = []"
| "body_ids (a # rest) =
     (case bulk_action a of
        None \<Rightarrow> []
      | Some (verb, m) \<Rightarrow>
          if verb = ''delete'' then snd (meta_key m) # body_ids rest
          else (case rest of JObj d # rest' \<Rightarrow> snd (meta_key m) # body_ids rest' | _ \<Rightarrow> []))"

definition echoes :: "json \<Rightarrow> string list \<Rightarrow> bool" where
  "echoes its ids \<longleftrightarrow>
     (\<forall>i < length ids. case item_at its i of
        Inr raw \<Rightarrow> jget (entry_of raw) ''_id'' \<in> {JNone, JStr (ids ! i)} | Inl _ \<Rightarrow> True)"

definition bulk_echo :: "'w es_client \<Rightarrow> bool" where
  "bulk_echo es \<longleftrightarrow>
     (\<forall>body w resp w'. es_bulk es body w = (Inr resp, w') \<longrightarrow> echoes (response_items resp) (body_ids body))"

section \<open>The classifier accounts for every submitted id\<close>

fun bucket_id :: "bucket \<Rightarrow> json" where
  "bucket_id (Passed i) = i"
| "bucket_id (Transient i _) = i"
| "bucket_id (Poison i _) = i"

lemma classify_loop_length: "classify_loop L its i ids = Inr bs \<Longrightarrow> length bs = length ids"
  by (induction ids arbitrary: i bs) (auto elim!: bind_e_InrE)

lemma classify_failed_id: "classify_failed L err st code iid = Inr b \<Longrightarrow> bucket_id b = iid"
  by (auto simp: classify_failed_def Let_def split: if_splits elim!: bind_e_InrE)

lemma classify_item_id:
  assumes "classify_item L raw d = Inr b" "jget (entry_of raw) ''_id'' \<in> {JNone, JStr d}"
  shows "bucket_id b = JStr d"
  using assms
  by (auto simp: classify_item_def Let_def split: if_splits elim!: bind_e_InrE dest!: classify_failed_id)

lemma classify_loop_ids:
  assumes "classify_loop L its i ids = Inr bs"
    and "\<And>j. j < length ids \<Longrightarrow>
           (case item_at its (i + j) of Inr raw \<Rightarrow> jget (entry_of raw) ''_id'' \<in> {JNone, JStr (ids ! j)} | Inl _ \<Rightarrow> True)"
  shows "map bucket_id bs = map JStr ids"
  using assms
proof (induction ids arbitrary: i bs)
  case (Cons d ds)
  from Cons.prems(1) obtain raw b cs where
      r: "item_at its i = Inr raw" and b: "classify_item L raw d = Inr b"
      and cs: "classify_loop L its (Suc i) ds = Inr cs" and bs: "bs = b # cs"
    by (auto elim!: bind_e_InrE)
  have "bucket_id b = JStr d" using classify_item_id [OF b] Cons.prems(2) [of 0] r by auto
  moreover have "map bucket_id cs = map JStr ds"
  proof (rule Cons.IH [OF cs])
    fix j
    assume "j < length ds"
    then show "case item_at its (Suc i + j) of Inr raw \<Rightarrow> jget (entry_of raw) ''_id'' \<in> {JNone, JStr (ds ! j)} | Inl _ \<Rightarrow> True"
      using Cons.prems(2) [of "Suc j"] by (auto split: sum.splits)
  qed
  ultimately show ?case using bs by simp
qed simp

lemma bucket_mset:
  "mset (passed_of bs) + mset (map fst (transient_of bs)) + mset (map fst (poison_of bs)) = mset (map bucket_id bs)"
  by (induction bs) (auto simp: passed_of_def transient_of_def poison_of_def split: bucket.splits)

lemma classify_response_mset:
  assumes "classify_bulk_response L resp ids = Inr (p, t, q)" "echoes (response_items resp) ids"
  shows "mset p + mset (map fst t) + mset (map fst q) = mset (map JStr ids)"
proof -
  from assms(1) obtain bs where bs: "classify_loop L (response_items resp) 0 ids = Inr bs"
      "p = passed_of bs" "t = transient_of bs" "q = poison_of bs"
    by (auto simp: classify_bulk_response_def elim!: bind_e_InrE)
  have "map bucket_id bs = map JStr ids"
    by (rule classify_loop_ids [OF bs(1)]) (use assms(2) in \<open>auto simp: echoes_def\<close>)
  then show ?thesis using bucket_mset [of bs] bs by simp
qed

section \<open>The adapter accounts for every op\<close>

lemma bind_r_InrE [elim!]:
  assumes "bind_r m k w = (Inr y, w2)"
  obtains x w1 where "m w = (Inr x, w1)" "k x w1 = (Inr y, w2)"
  using assms by (auto simp: bind_r_def split: prod.splits sum.splits)

lemma lift_r_Inr [simp]: "lift_r r w = (Inr x, w') \<longleftrightarrow> r = Inr x \<and> w' = w"
  by (auto simp: lift_r_def)

lemma ret_Inr [simp]: "ret x w = (Inr y, w') \<longleftrightarrow> y = x \<and> w' = w"
  by (auto simp: ret_def)

lemma map_of_op_by_key:
  assumes "distinct (map op_key ops)" "opn \<in> set ops"
  shows "map_of (op_by_key ops) (op_key opn) = Some opn"
proof (rule map_of_is_SomeI)
  have "map fst (op_by_key ops) = rev (map op_key ops)" by (simp add: op_by_key_def rev_map comp_def)
  then show "distinct (map fst (op_by_key ops))" using assms(1) by simp
qed (use assms(2) in \<open>auto simp: op_by_key_def\<close>)

definition key_uuid :: "indexable_op list \<Rightarrow> json \<Rightarrow> nat" where
  "key_uuid ops sid = op_uuid (the (map_of (op_by_key ops) (str_of sid)))"

definition known_sids :: "indexable_op list \<Rightarrow> json set" where
  "known_sids ops = (\<lambda>opn. JStr (op_key opn)) ` set ops"

lemma by_key_known:
  assumes "distinct (map op_key ops)" "sid \<in> known_sids ops"
  obtains opn where "by_key (op_by_key ops) sid = Inr (Some opn)" "key_uuid ops sid = op_uuid opn"
  using assms by (auto simp: known_sids_def key_uuid_def map_of_op_by_key)

lemma resolve_ids_known:
  assumes "distinct (map op_key ops)" "set sids \<subseteq> known_sids ops"
  shows "resolve_ids (op_by_key ops) sids = Inr (map (key_uuid ops) sids)"
  using assms(2)
proof (induction sids)
  case (Cons sid sids)
  then obtain ms where ms: "map_e (by_key (op_by_key ops)) sids = Inr ms"
      "map (key_uuid ops) sids = map op_uuid (concat (map (\<lambda>m. case m of None \<Rightarrow> [] | Some x \<Rightarrow> [x]) ms))"
    by (auto simp: resolve_ids_def elim!: bind_e_InrE)
  have "sid \<in> known_sids ops" using Cons.prems by simp
  then obtain opn where "by_key (op_by_key ops) sid = Inr (Some opn)" "key_uuid ops sid = op_uuid opn"
    using by_key_known [OF assms(1)] by blast
  then show ?case using ms by (simp add: resolve_ids_def)
qed (simp add: resolve_ids_def)

lemma resolve_pairs_known:
  assumes "distinct (map op_key ops)" "fst ` set prs \<subseteq> known_sids ops"
  shows "resolve_pairs (op_by_key ops) prs = Inr (map (\<lambda>(s, r). (key_uuid ops s, r)) prs)"
  using assms(2)
proof (induction prs)
  case (Cons p prs)
  obtain sid r where p: "p = (sid, r)" by force
  from Cons obtain ms where ms:
      "map_e (\<lambda>(sid, r). bind_e (by_key (op_by_key ops) sid) (\<lambda>m. Inr (m, r))) prs = Inr ms"
      "map (\<lambda>(s, r). (key_uuid ops s, r)) prs =
       concat (map (\<lambda>(m, r). case m of None \<Rightarrow> [] | Some x \<Rightarrow> [(op_uuid x, r)]) ms)"
    by (auto simp: resolve_pairs_def elim!: bind_e_InrE)
  have "sid \<in> known_sids ops" using Cons.prems p by simp
  then obtain opn where "by_key (op_by_key ops) sid = Inr (Some opn)" "key_uuid ops sid = op_uuid opn"
    using by_key_known [OF assms(1)] by blast
  then show ?case using ms p by (simp add: resolve_pairs_def)
qed (simp add: resolve_pairs_def)

lemma ladder_fold_mset:
  assumes "fold_r (ladder_one E drv es ops docs) qs (ok, bad) s = (Inr (ok', bad'), s')"
  shows "mset ok' + mset (map fst bad') = mset ok + mset (map fst bad) + mset (map fst qs)"
  using assms
proof (induction qs arbitrary: ok bad s)
  case (Cons q qs)
  obtain sid r where q: "q = (sid, r)" by force
  from Cons.prems obtain ok1 bad1 s1 where
      1: "ladder_one E drv es ops docs q (ok, bad) s = (Inr (ok1, bad1), s1)"
      and 2: "fold_r (ladder_one E drv es ops docs) qs (ok1, bad1) s1 = (Inr (ok', bad'), s')"
    by auto
  have "mset ok1 + mset (map fst bad1) = mset ok + mset (map fst bad) + {#sid#}"
    using 1 q by (auto simp: ladder_one_def split: option.splits if_splits)
  then show ?case using Cons.IH [OF 2] q by simp
qed simp

lemma body_ids_lines [simp]:
  "body_ids (JObj [(''delete'', action_meta k idx did opn)] # rest) = did # body_ids rest"
  "body_ids (JObj [(''index'', action_meta k idx did opn)] # JObj p # rest) = did # body_ids rest"
  by (simp_all add: bulk_action_def action_meta_def meta_key_def jget_def)

declare body_ids.simps(2) [simp del]

lemma add_bulk_op_lines:
  assumes "add_bulk_op E drv opn (body, docs) s = (Inr (body', docs'), s')"
  shows "\<exists>ls. body' = body @ ls \<and> (\<forall>rest. body_ids (ls @ rest) = op_key opn # body_ids rest)"
  using assms by (auto simp: add_bulk_op_def Let_def split: if_splits)

lemma bulk_body_ids:
  assumes "fold_r (add_bulk_op E drv) ops (body, docs) s = (Inr (body', docs'), s')"
  shows "\<exists>more. body' = body @ more \<and> body_ids more = map op_key ops"
  using assms
proof (induction ops arbitrary: body docs s)
  case (Cons opn ops)
  from Cons.prems obtain body1 docs1 s1 where
      1: "add_bulk_op E drv opn (body, docs) s = (Inr (body1, docs1), s1)"
      and 2: "fold_r (add_bulk_op E drv) ops (body1, docs1) s1 = (Inr (body', docs'), s')"
    by auto
  from add_bulk_op_lines [OF 1] obtain ls where
      ls: "body1 = body @ ls" "\<forall>rest. body_ids (ls @ rest) = op_key opn # body_ids rest" by blast
  from Cons.IH [OF 2] obtain more where "body' = body1 @ more" "body_ids more = map op_key ops" by auto
  then have "body' = body @ (ls @ more) \<and> body_ids (ls @ more) = map op_key (opn # ops)" using ls by simp
  then show ?case by blast
qed auto

lemma classify_response_accounts:
  assumes d: "distinct (map op_key ops)" and e: "echoes (response_items resp) (map op_key ops)"
    and r: "classify_response E drv ops resp docs s = (Inr r, s')"
  shows "mset (passed r) + mset (map fst (transient r)) + mset (map fst (poison r)) = mset (map op_uuid ops)"
proof -
  let ?K = "op_by_key ops" and ?g = "key_uuid ops"
  from r obtain ps ts qs ok qs' p t q where
      c: "classify_bulk_response (env_lib E) resp (map op_key ops) = Inr (ps, ts, qs)"
      and l: "mset ok + mset (map fst qs') = mset (map fst qs)"
      and p: "resolve_ids ?K (ps @ ok) = Inr p" and t: "resolve_pairs ?K ts = Inr t"
      and q: "resolve_pairs ?K qs' = Inr q" and res: "r = \<lparr>passed = p, transient = t, poison = q\<rparr>"
    by (auto simp: classify_response_def Let_def split: if_splits dest!: ladder_fold_mset)
  have m: "mset ps + mset (map fst ts) + mset (map fst qs) = mset (map JStr (map op_key ops))"
    by (rule classify_response_mset [OF c e])
  let ?all = "ps @ map fst ts @ ok @ map fst qs'"
  have all: "mset ?all = mset (map JStr (map op_key ops))" using l m by (simp add: add.assoc add.commute add.left_commute)
  then have "set ?all = known_sids ops" by (simp add: known_sids_def image_image flip: set_mset_mset)
  then have sub: "set (ps @ ok) \<subseteq> known_sids ops" "fst ` set ts \<subseteq> known_sids ops" "fst ` set qs' \<subseteq> known_sids ops" by auto
  have p': "p = map ?g (ps @ ok)" using resolve_ids_known [OF d sub(1)] p by simp
  have t': "map fst t = map ?g (map fst ts)" using resolve_pairs_known [OF d sub(2)] t by (auto simp: case_prod_beta)
  have q': "map fst q = map ?g (map fst qs')" using resolve_pairs_known [OF d sub(3)] q by (auto simp: case_prod_beta)
  have "mset p + mset (map fst t) + mset (map fst q) = image_mset ?g (mset ?all)"
    by (simp add: p' t' q' multiset.map_comp add.assoc add.commute add.left_commute)
  also have "\<dots> = mset (map (\<lambda>opn. ?g (JStr (op_key opn))) ops)" unfolding all by (simp add: multiset.map_comp comp_def)
  also have "\<dots> = mset (map op_uuid ops)"
    by (rule arg_cong [where f = mset]) (auto simp: key_uuid_def map_of_op_by_key [OF d])
  finally show ?thesis using res by simp
qed

lemma get_client_Inr: "get_client E s = (Inr es, s') \<longleftrightarrow> env_client E = Some es \<and> s' = s"
  by (auto simp: get_client_def throw_def split: option.splits)

lemma entry_bulk_entry [simp]:
  "jget (entry_of (bulk_entry verb m code)) ''_id'' = JStr (snd (meta_key m))"
  by (simp add: bulk_entry_def entry_of_def jget_def)

lemma es_apply_ids:
  "map (\<lambda>raw. jget (entry_of raw) ''_id'') (fst (es_apply body s)) = map JStr (body_ids body)"
proof (induction body s rule: es_apply.induct)
  case (2 a rest s)
  show ?case
  proof (cases "bulk_action a")
    case None
    then show ?thesis by (simp add: body_ids.simps(2))
  next
    case (Some vm)
    obtain verb m where vm: "vm = (verb, m)" by force
    show ?thesis
    proof (cases "verb = ''delete''")
      case True
      then show ?thesis
        using 2(1) [OF Some vm [symmetric] True refl] Some vm by (simp add: body_ids.simps(2) case_prod_beta Let_def)
    next
      case False
      then show ?thesis
        using 2(2) [OF Some vm [symmetric] False] Some vm
        by (cases rest) (auto simp: body_ids.simps(2) case_prod_beta Let_def split: json.splits)
    qed
  qed
qed simp

lemma live_es_echo: "bulk_echo live_es"
proof (unfold bulk_echo_def, intro allI impI)
  fix body w resp w'
  assume "es_bulk live_es body w = (Inr resp, w')"
  then have r: "response_items resp = JList (fst (es_apply body w))"
    by (auto simp: live_es_def response_items_def dget_or_def Let_def split: prod.splits)
  have m: "map (\<lambda>raw. jget (entry_of raw) ''_id'') (fst (es_apply body w)) = map JStr (body_ids body)"
    by (rule es_apply_ids)
  then have "length (fst (es_apply body w)) = length (body_ids body)" by (metis length_map)
  moreover have "jget (entry_of (fst (es_apply body w) ! i)) ''_id'' = JStr (body_ids body ! i)"
    if "i < length (body_ids body)" for i
    using m that calculation by (metis (no_types, lifting) nth_map)
  ultimately show "echoes (response_items resp) (body_ids body)" by (simp add: r echoes_def)
qed

text \<open>
  C16.  The adapter reports every op exactly once: when the keys of a batch are distinct and the
  cluster answers each action under its own id, the op ids of the three result lists together are
  the op ids of the batch, whatever the cluster rejects and whatever the ladder recovers.
\<close>

theorem index_bulk_accounts:
  assumes d: "distinct (map op_key ops)" and cl: "env_client E = Some es" and e: "bulk_echo es"
    and r: "index_bulk E drv ops s = (Inr r, s')"
  shows "mset (passed r) + mset (map fst (transient r)) + mset (map fst (poison r)) = mset (map op_uuid ops)"
proof (cases "ops = []")
  case True
  then show ?thesis using r by (simp add: index_bulk_def)
next
  case False
  then obtain s1 body docs s2 s3 where
      f: "fold_r (add_bulk_op E drv) ops ([], []) s1 = (Inr (body, docs), s2)"
      and b: "(case on_world (es_bulk es body) s3 of
          (Inl x, s') \<Rightarrow> (Inr \<lparr>passed = [], transient = map (\<lambda>opn. (op_uuid opn, env_exn_text E x)) ops, poison = []\<rparr>, s')
        | (Inr resp, s') \<Rightarrow> classify_response E drv ops resp docs s') = (Inr r, s')"
    using r by (auto simp: index_bulk_def get_client_Inr cl)
  have ids: "body_ids body = map op_key ops" using bulk_body_ids [OF f] by simp
  obtain a w where s3: "s3 = (a, w)" by force
  show ?thesis
  proof (cases "es_bulk es body w")
    case (Pair res w')
    show ?thesis
    proof (cases res)
      case (Inl x)
      then show ?thesis using b Pair by (auto simp: on_world_def s3 multiset.map_comp comp_def)
    next
      case (Inr resp)
      then have ec: "echoes (response_items resp) (map op_key ops)" using e Pair ids by (metis (no_types) bulk_echo_def)
      have "classify_response E drv ops resp docs (a, w') = (Inr r, s')" using b Pair Inr by (simp add: on_world_def s3)
      then show ?thesis by (rule classify_response_accounts [OF d ec])
    qed
  qed
qed

text \<open>A running process on the cluster above, and the two drivers with settings that change nothing.\<close>

definition live_env :: "string \<Rightarrow> es_store es_env" where
  "live_env pfx = \<lparr>env_prefix = pfx, env_client = Some live_es, env_lib = plain_lib, env_exn_text = (\<lambda>_. ''error''),
     env_geo = \<lparr>orient_and_validate = (\<lambda>_. Inr None), split_antimeridian = (\<lambda>_. Inr None),
                aggressive_simplify = (\<lambda>_. Inr None), bbox_envelope = Inr \<circ> Some\<rparr>\<rparr>"

definition plain_driver :: "driver_kind \<Rightarrow> 'w items_driver" where
  "plain_driver k = \<lparr>drv_kind = k, drv_ensure_storage = (\<lambda>_. ret ()),
     drv_simplify_cfg = (\<lambda>_ _. ret (False, 0, False, Fin 0)), drv_simplify = (\<lambda>_ d. d)\<rparr>"

definition mk_op :: "nat \<Rightarrow> string \<Rightarrow> string \<Rightarrow> dict \<Rightarrow> indexable_op" where
  "mk_op n verb key d = \<lparr>op_uuid = n, op_op = verb, op_catalog = ''c'', op_collection = ''k'',
     op_instance = ''i'', op_item = Some key, op_payload = d, op_key = key\<rparr>"

abbreviation empty_store :: es_store where
  "empty_store \<equiv> \<lparr>es_docs = [], es_aliases = []\<rparr>"

lemma demo_bulk:
  "fst (index_bulk (live_env ''p'') (plain_driver Standard) [mk_op 1 ''delete'' ''a'' [], mk_op 2 ''upsert'' ''b'' []]
          (new_adapter, empty_store))
   = Inr \<lparr>passed = [2], transient = [], poison = [(1, ''404 no reason'')]\<rparr>"
  by code_simp

lemma index_bulk_accounts_witness:
  "\<exists>r s'. index_bulk (live_env ''p'') (plain_driver Standard) [mk_op 1 ''delete'' ''a'' [], mk_op 2 ''upsert'' ''b'' []]
            (new_adapter, empty_store) = (Inr r, s') \<and>
     mset (passed r) + mset (map fst (transient r)) + mset (map fst (poison r)) = mset [1, 2]"
proof -
  obtain s' where run: "index_bulk (live_env ''p'') (plain_driver Standard)
      [mk_op 1 ''delete'' ''a'' [], mk_op 2 ''upsert'' ''b'' []] (new_adapter, empty_store)
    = (Inr \<lparr>passed = [2], transient = [], poison = [(1, ''404 no reason'')]\<rparr>, s')"
    using demo_bulk by (metis prod.collapse)
  have "mset (map op_uuid [mk_op 1 ''delete'' ''a'' [], mk_op 2 ''upsert'' ''b'' []]) = mset [1, 2]"
    by (simp add: mk_op_def)
  then show ?thesis
    using run index_bulk_accounts [OF _ _ live_es_echo run] by (simp add: mk_op_def live_env_def)
qed

section \<open>Two ops with one key\<close>

lemma resolve_ids_sub:
  "resolve_ids m sids = Inr p \<Longrightarrow> set p \<subseteq> op_uuid ` {x. \<exists>k. map_of m k = Some x}"
proof (induction sids arbitrary: p)
  case (Cons sid sids)
  from Cons.prems obtain x ms where
      x: "by_key m sid = Inr x" and ms: "map_e (by_key m) sids = Inr ms"
      and p: "p = map op_uuid (concat (map (\<lambda>m. case m of None \<Rightarrow> [] | Some x \<Rightarrow> [x]) (x # ms)))"
    by (auto simp: resolve_ids_def elim!: bind_e_InrE split: sum.splits)
  have "set (map op_uuid (concat (map (\<lambda>m. case m of None \<Rightarrow> [] | Some x \<Rightarrow> [x]) ms))) \<subseteq> op_uuid ` {x. \<exists>k. map_of m k = Some x}"
    by (rule Cons.IH) (simp add: resolve_ids_def ms)
  moreover have "x = Some y \<Longrightarrow> \<exists>k. map_of m k = Some y" for y
    using x by (cases "(m, sid)" rule: by_key.cases) auto
  ultimately show ?case using p by (auto split: option.splits)
qed (simp add: resolve_ids_def)

lemma resolve_pairs_ids:
  "resolve_pairs m prs = Inr q \<Longrightarrow> resolve_ids m (map fst prs) = Inr (map fst q)"
proof (induction prs arbitrary: q)
  case (Cons pr prs)
  obtain sid r where pr: "pr = (sid, r)" by force
  from Cons.prems obtain x ms where
      x: "by_key m sid = Inr x" and
      ms: "map_e (\<lambda>(sid, r). bind_e (by_key m sid) (\<lambda>m. Inr (m, r))) prs = Inr ms"
      and q: "q = concat (map (\<lambda>(m, r). case m of None \<Rightarrow> [] | Some x \<Rightarrow> [(op_uuid x, r)]) ((x, r) # ms))"
    by (auto simp: resolve_pairs_def pr elim!: bind_e_InrE split: sum.splits)
  have "resolve_ids m (map fst prs) =
      Inr (map fst (concat (map (\<lambda>(m, r). case m of None \<Rightarrow> [] | Some x \<Rightarrow> [(op_uuid x, r)]) ms)))"
    by (rule Cons.IH) (simp add: resolve_pairs_def ms)
  then show ?case using x q pr by (auto simp: resolve_ids_def elim!: bind_e_InrE split: option.splits)
qed (simp add: resolve_ids_def resolve_pairs_def)

lemma classify_response_sub:
  assumes "classify_response E drv ops resp docs s = (Inr r, s')"
  shows "set (passed r) \<union> fst ` set (poison r) \<subseteq> op_uuid ` {x. \<exists>k. map_of (op_by_key ops) k = Some x}"
proof -
  from assms obtain sids p prs t prs' q where
      p: "resolve_ids (op_by_key ops) sids = Inr p" and q: "resolve_pairs (op_by_key ops) prs' = Inr q"
      and r: "r = \<lparr>passed = p, transient = t, poison = q\<rparr>"
    by (auto simp: classify_response_def Let_def)
  show ?thesis
    using resolve_ids_sub [OF p] resolve_ids_sub [OF resolve_pairs_ids [OF q]] r by auto
qed

lemma shadowed_key:
  assumes d: "distinct (map op_uuid (xs @ a # ys))" and b: "b \<in> set ys" "op_key b = op_key a"
    and x: "map_of (op_by_key (xs @ a # ys)) k = Some x"
  shows "op_uuid x \<noteq> op_uuid a"
proof
  assume eq: "op_uuid x = op_uuid a"
  have "(k, x) \<in> set (op_by_key (xs @ a # ys))" using x by (rule map_of_SomeD)
  then have xin: "x \<in> set (xs @ a # ys)" and k: "k = op_key x" by (auto simp: op_by_key_def)
  have inj: "inj_on op_uuid (set (xs @ a # ys))" using d by (simp only: distinct_map)
  have "x = a" by (rule inj_onD [OF inj eq xin]) simp
  have "(op_key b, b) \<in> set (op_by_key ys)" using b(1) by (auto simp: op_by_key_def)
  then have "\<exists>b'. map_of (op_by_key ys) (op_key a) = Some b'" unfolding b(2) by (rule weak_map_of_SomeI)
  then obtain b' where b': "map_of (op_by_key ys) (op_key a) = Some b'" by blast
  have "op_by_key (xs @ a # ys) = op_by_key ys @ op_by_key (xs @ [a])" by (simp add: op_by_key_def)
  then have "x = b'" using x k \<open>x = a\<close> b' by (simp add: map_add_Some_iff)
  moreover have "b' \<in> set ys" using map_of_SomeD [OF b'] by (auto simp: op_by_key_def)
  moreover have "a \<notin> set ys" using d by auto
  ultimately show False using \<open>x = a\<close> by simp
qed

text \<open>
  When two ops of a batch have the same key, the earlier one is reported neither as passed nor
  as poison, even when the cluster accepted its action: the response ids are mapped back through a
  dict that keeps the last op of each key.
\<close>

theorem shadowed_op_unreported:
  assumes d: "distinct (map op_uuid (xs @ a # ys))" and b: "b \<in> set ys" "op_key b = op_key a"
    and r: "index_bulk E drv (xs @ a # ys) s = (Inr r, s')"
  shows "op_uuid a \<notin> set (passed r) \<and> op_uuid a \<notin> fst ` set (poison r)"
proof -
  let ?S = "op_uuid ` {x. \<exists>k. map_of (op_by_key (xs @ a # ys)) k = Some x}"
  have "passed r = [] \<and> poison r = [] \<or> (\<exists>resp docs t. classify_response E drv (xs @ a # ys) resp docs t = (Inr r, s'))"
    using r by (auto simp: index_bulk_def split: prod.splits sum.splits)
  then have "set (passed r) \<union> fst ` set (poison r) \<subseteq> ?S"
  proof
    assume "\<exists>resp docs t. classify_response E drv (xs @ a # ys) resp docs t = (Inr r, s')"
    then show ?thesis by (elim exE) (rule classify_response_sub)
  qed simp
  moreover have "op_uuid a \<notin> ?S"
  proof
    assume "op_uuid a \<in> ?S"
    then obtain x k where "map_of (op_by_key (xs @ a # ys)) k = Some x" "op_uuid x = op_uuid a" by auto
    then show False using shadowed_key [OF d b] by blast
  qed
  ultimately show ?thesis by blast
qed

lemma demo_duplicate:
  "fst (index_bulk (live_env ''p'') (plain_driver Standard) [mk_op 1 ''upsert'' ''a'' [], mk_op 2 ''upsert'' ''a'' []]
          (new_adapter, empty_store))
   = Inr \<lparr>passed = [2, 2], transient = [], poison = []\<rparr>"
  by code_simp

lemma shadowed_op_unreported_witness:
  "\<exists>r s'. index_bulk (live_env ''p'') (plain_driver Standard) [mk_op 1 ''upsert'' ''a'' [], mk_op 2 ''upsert'' ''a'' []]
            (new_adapter, empty_store) = (Inr r, s') \<and> 1 \<notin> set (passed r) \<and> 1 \<notin> fst ` set (poison r)"
proof -
  obtain s' where run: "index_bulk (live_env ''p'') (plain_driver Standard)
      ([] @ mk_op 1 ''upsert'' ''a'' [] # [mk_op 2 ''upsert'' ''a'' []]) (new_adapter, empty_store)
    = (Inr \<lparr>passed = [2, 2], transient = [], poison = []\<rparr>, s')"
    using demo_duplicate by (metis append_Nil prod.collapse)
  show ?thesis
    using run shadowed_op_unreported [OF _ _ _ run, of "mk_op 2 ''upsert'' ''a'' []"] by (simp add: mk_op_def)
qed

section \<open>Replayed deletes\<close>

text \<open>
  The documented answers of a cluster to the deletion of one document: the response has one entry,
  which names the document; its status is 200 when the document was stored and 404 without an error
  when it was not; and afterwards it is not stored.  Alias actions do not touch documents.
  \<open>stored w m\<close> says that the document addressed by the action metadata \<open>m\<close> (index, id, routing) is there.
\<close>

definition delete_laws :: "'w es_client \<Rightarrow> ('w \<Rightarrow> dict \<Rightarrow> bool) \<Rightarrow> bool" where
  "delete_laws es stored \<longleftrightarrow>
     (\<forall>m did w. jget m ''_id'' = JStr did \<longrightarrow> (\<exists>resp e w'.
        es_bulk es [JObj [(''delete'', JObj m)]] w = (Inr resp, w') \<and>
        response_items resp = JList [JObj [(''delete'', JObj e)]] \<and>
        dget e ''_id'' = Some (JStr did) \<and> dget e ''error'' = None \<and>
        dget e ''status'' = Some (JInt (if stored w m then 200 else 404)) \<and> \<not> stored w' m)) \<and>
     (\<forall>idx al w m. stored (snd (es_add_alias es idx al w)) m = stored w m)"

lemma classify_one_delete:
  assumes "\<And>n. lib_int L (JInt n) = Inr n" "response_items resp = JList [JObj [(''delete'', JObj e)]]"
    "dget e ''_id'' = Some (JStr did)" "dget e ''error'' = None" "dget e ''status'' = Some (JInt (if b then 200 else 404))"
  shows "\<exists>reason. classify_bulk_response L resp [did] =
    Inr (if b then ([JStr did], [], []) else ([], [], [(JStr did, reason)]))"
proof -
  let ?raw = "JObj [(''delete'', JObj e)]"
  have e: "entry_of ?raw = e" "jget e ''_id'' = JStr did" "jget e ''error'' = JNone"
    "jget_or e ''status'' (JInt 200) = JInt (if b then 200 else 404)"
    using assms(3-5) by (simp_all add: entry_of_def jget_def dget_or_def)
  show ?thesis
  proof (cases b)
    case True
    then have "classify_item L ?raw did = Inr (Passed (JStr did))"
      using assms(1) e by (simp add: classify_item_def Let_def)
    then show ?thesis using True assms(2)
      by (simp add: classify_bulk_response_def passed_of_def transient_of_def poison_of_def)
  next
    case False
    have "classify_failed L JNone (JInt 404) 404 (JStr did) =
        Inr (Poison (JStr did) (lib_str L (JInt 404) @ '' '' @ format_error_reason L JNone))"
      by (simp add: classify_failed_def err_type_of_def transient_error_types_def poison_error_types_def Let_def)
    then have "classify_item L ?raw did =
        Inr (Poison (JStr did) (lib_str L (JInt 404) @ '' '' @ format_error_reason L JNone))"
      using False assms(1) e by (cases "did = []") (simp_all add: classify_item_def Let_def)
    then show ?thesis using False assms(2)
      by (simp add: classify_bulk_response_def passed_of_def transient_of_def poison_of_def)
  qed
qed

text \<open>Preparing the storage and enrolling the index swallow their errors.\<close>

lemma swallow_run: "\<exists>x. swallow m w = (Inr x, snd (m w))"
  by (auto simp: swallow_def split: prod.splits sum.splits)

lemma ensure_one_run:
  "ensure_one drv c u (a, w) =
     (Inr (), if c \<in> set (storage_ensured a) then (a, w)
              else (a\<lparr>storage_ensured := c # storage_ensured a\<rparr>, snd (drv_ensure_storage drv c w)))"
  using swallow_run [of "drv_ensure_storage drv c" w] by (auto simp: ensure_one_def)

lemma enrol_one_run:
  assumes "env_client E = Some es"
  shows "enrol_one E drv c u (a, w) =
    (Inr (), a, snd (es_add_alias es (items_index_name (env_prefix E) (drv_kind drv) c)
                      (get_public_items_alias (env_prefix E)) w))"
  using swallow_run [of "es_add_alias es (items_index_name (env_prefix E) (drv_kind drv) c)
      (get_public_items_alias (env_prefix E))" w]
  by (auto simp: enrol_one_def on_world_def add_index_to_public_alias_def bind_r_def ret_def assms)

text \<open>The adapter on a one-element batch that deletes.\<close>

lemma delete_batch:
  assumes "op_op opn = ''delete''" "env_client E = Some es" "delete_laws es stored"
    "\<forall>c w m. stored (snd (drv_ensure_storage drv c w)) m = stored w m" "\<forall>n. lib_int (env_lib E) (JInt n) = Inr n"
    "action_meta (drv_kind drv) (items_index_name (env_prefix E) (drv_kind drv) (op_catalog opn)) (op_key opn) opn = JObj m"
  shows "\<exists>reason a' w'. index_bulk E drv [opn] (a, w) =
      (Inr (if stored w m then \<lparr>passed = [op_uuid opn], transient = [], poison = []\<rparr>
            else \<lparr>passed = [], transient = [], poison = [(op_uuid opn, reason)]\<rparr>), a', w') \<and> \<not> stored w' m"
proof -
  obtain a1 w1 where 1: "ensure_storage_once drv [opn] (a, w) = (Inr (), a1, w1)" "stored w1 m = stored w m"
    using assms(4) by (cases "op_catalog opn \<in> set (storage_ensured a)")
      (simp_all add: ensure_storage_once_def bind_r_def ret_def ensure_one_run)
  define w2 where "w2 = snd (es_add_alias es (items_index_name (env_prefix E) (drv_kind drv) (op_catalog opn))
      (get_public_items_alias (env_prefix E)) w1)"
  have 2: "enrol_one E drv (op_catalog opn) () (a1, w1) = (Inr (), a1, w2)" "stored w2 m = stored w1 m"
    using assms(3) by (simp_all add: enrol_one_run [OF assms(2)] w2_def delete_laws_def)
  have "jget m ''_id'' = JStr (op_key opn)" using assms(6) by (auto simp: action_meta_def jget_def)
  then obtain resp e w3 where 3: "es_bulk es [JObj [(''delete'', JObj m)]] w2 = (Inr resp, w3)"
      "response_items resp = JList [JObj [(''delete'', JObj e)]]" "dget e ''_id'' = Some (JStr (op_key opn))"
      "dget e ''error'' = None" "dget e ''status'' = Some (JInt (if stored w2 m then 200 else 404))" "\<not> stored w3 m"
    using assms(3) unfolding delete_laws_def by blast
  obtain reason where c: "classify_bulk_response (env_lib E) resp [op_key opn] =
      Inr (if stored w2 m then ([JStr (op_key opn)], [], []) else ([], [], [(JStr (op_key opn), reason)]))"
    using classify_one_delete [OF _ 3(2-5), of "env_lib E"] assms(5) by blast
  have r: "resolve_ids [(op_key opn, opn)] [JStr (op_key opn)] = Inr [op_uuid opn]"
      "resolve_pairs [(op_key opn, opn)] [(JStr (op_key opn), x)] = Inr [(op_uuid opn, x)]"
      "resolve_ids [(op_key opn, opn)] [] = Inr []" "resolve_pairs [(op_key opn, opn)] [] = Inr []" for x
    by (simp_all add: resolve_ids_def resolve_pairs_def)
  have "classify_response E drv [opn] resp [] st =
      (Inr (if stored w2 m then \<lparr>passed = [op_uuid opn], transient = [], poison = []\<rparr>
            else \<lparr>passed = [], transient = [], poison = [(op_uuid opn, reason)]\<rparr>), st)" for st
    using c by (cases "stored w2 m") (simp_all add: classify_response_def assms(2) lift_r_def bind_r_def ret_def r
        get_client_def Let_def ladder_one_def op_by_key_def)
  then have "index_bulk E drv [opn] (a, w) =
      (Inr (if stored w m then \<lparr>passed = [op_uuid opn], transient = [], poison = []\<rparr>
            else \<lparr>passed = [], transient = [], poison = [(op_uuid opn, reason)]\<rparr>), a1, w3)"
    using 1 2 3(1) assms(1,2,6)
    by (simp add: index_bulk_def bind_r_def add_bulk_op_def Let_def ret_def get_client_def on_world_def)
  with 3(6) show ?thesis by blast
qed

text \<open>
  C33.  A delete that the drain replays is dead-lettered.  On any cluster with the documented answers
  to deletes, the first submission of a delete of a stored document passes; the same op submitted
  again, as after a worker that stopped between the bulk call and its ledger write, is classified as
  poison.
\<close>

theorem replayed_delete_poisoned:
  assumes "op_op opn = ''delete''" "env_client E = Some es" "delete_laws es stored"
    and "\<forall>c w m. stored (snd (drv_ensure_storage drv c w)) m = stored w m"
    and "\<forall>n. lib_int (env_lib E) (JInt n) = Inr n"
    and "action_meta (drv_kind drv) (items_index_name (env_prefix E) (drv_kind drv) (op_catalog opn)) (op_key opn) opn = JObj m"
    and "stored w m"
  shows "\<exists>st reason. index_bulk E drv [opn] (a, w) =
                (Inr \<lparr>passed = [op_uuid opn], transient = [], poison = []\<rparr>, st) \<and>
             fst (index_bulk E drv [opn] st) =
                Inr \<lparr>passed = [], transient = [], poison = [(op_uuid opn, reason)]\<rparr>"
proof -
  obtain a1 w1 where 1: "index_bulk E drv [opn] (a, w) =
      (Inr \<lparr>passed = [op_uuid opn], transient = [], poison = []\<rparr>, a1, w1)" "\<not> stored w1 m"
    using delete_batch [OF assms(1-6), of a w] assms(7) by auto
  then show ?thesis using delete_batch [OF assms(1-6), of a1 w1] by auto
qed

definition live_stored :: "es_store \<Rightarrow> dict \<Rightarrow> bool" where
  "live_stored s m \<longleftrightarrow> map_of (es_docs s) (meta_key m) \<noteq> None"

lemma live_delete_laws: "delete_laws live_es live_stored"
proof -
  have "\<exists>resp e w'. es_bulk live_es [JObj [(''delete'', JObj m)]] w = (Inr resp, w') \<and>
        response_items resp = JList [JObj [(''delete'', JObj e)]] \<and>
        dget e ''_id'' = Some (JStr did) \<and> dget e ''error'' = None \<and>
        dget e ''status'' = Some (JInt (if live_stored w m then 200 else 404)) \<and> \<not> live_stored w' m"
    if "jget m ''_id'' = JStr did" for m did w
    using that
    by (auto simp: live_es_def bulk_action_def bulk_entry_def response_items_def dget_or_def live_stored_def Let_def
        map_of_eq_None_iff image_iff meta_key_def)
  then show ?thesis by (auto simp: delete_laws_def live_es_def live_stored_def)
qed

lemma live_simps:
  "env_prefix (live_env pfx) = pfx" "env_client (live_env pfx) = Some live_es" "env_lib (live_env pfx) = plain_lib"
  "drv_kind (plain_driver k) = k" "drv_ensure_storage (plain_driver k) c = ret ()"
  "drv_simplify (plain_driver k) cfg d = d"
  by (simp_all add: live_env_def plain_driver_def)

lemma replayed_delete_poisoned_witness:
  "\<exists>st reason. index_bulk (live_env ''p'') (plain_driver Standard) [mk_op 1 ''delete'' ''a'' []]
            (new_adapter, \<lparr>es_docs = [((''p-c-items'', ''a''), [])], es_aliases = []\<rparr>) =
          (Inr \<lparr>passed = [1], transient = [], poison = []\<rparr>, st) \<and>
        fst (index_bulk (live_env ''p'') (plain_driver Standard) [mk_op 1 ''delete'' ''a'' []] st) =
          Inr \<lparr>passed = [], transient = [], poison = [(1, reason)]\<rparr>"
proof -
  let ?o = "mk_op 1 ''delete'' ''a'' []" and ?s = "\<lparr>es_docs = [((''p-c-items'', ''a''), [])], es_aliases = []\<rparr>"
  have "live_stored ?s [(''_index'', JStr ''p-c-items''), (''_id'', JStr ''a''), (''routing'', JStr ''k'')]"
    by (simp add: live_stored_def meta_key_def jget_def)
  moreover have "action_meta Standard (items_index_name ''p'' Standard (op_catalog ?o)) (op_key ?o) ?o =
      JObj [(''_index'', JStr ''p-c-items''), (''_id'', JStr ''a''), (''routing'', JStr ''k'')]"
    by (simp add: action_meta_def mk_op_def items_index_name_def get_tenant_items_index_def collection_routing_def)
  moreover have "\<forall>n. lib_int plain_lib (JInt n) = Inr n" by (simp add: plain_lib_def)
  moreover have "\<forall>c w m. live_stored (snd (drv_ensure_storage (plain_driver Standard) c w)) m = live_stored w m"
    by (simp add: live_simps ret_def)
  ultimately show ?thesis
    using replayed_delete_poisoned [of ?o "live_env ''p''" live_es live_stored "plain_driver Standard" _ ?s new_adapter]
      live_delete_laws
    by (simp add: live_simps) (simp add: mk_op_def)
qed

section \<open>Index names and the public alias\<close>

lemma take_drop_middle: "drop (length h) (take (length (h @ m @ t) - length t) (h @ m @ t)) = m"
  by simp

lemma ends_with_append: "ends_with t (h @ t)"
  by (simp add: ends_with_def)

lemma catalog_id_between:
  "catalog_id_from_index (pfx @ ''-'' @ cat @ ''-items'') pfx = (if cat = [] then None else Some cat)"
proof -
  have "ends_with ''-items'' ((pfx @ ''-'' @ cat) @ ''-items'')" by (rule ends_with_append)
  then show ?thesis
    using take_drop_middle [of "pfx @ ''-''" cat "''-items''"]
    by (simp add: catalog_id_from_index_def starts_with_def Let_def)
qed

text \<open>A public index name gives back its catalog; the name of an envelope index is read as another one.\<close>

lemma catalog_id_roundtrip: "cat \<noteq> [] \<Longrightarrow> catalog_id_from_index (get_tenant_items_index pfx cat) pfx = Some cat"
  using catalog_id_between [of pfx cat] by (simp add: get_tenant_items_index_def)

lemma catalog_id_envelope: "catalog_id_from_index (get_envelope_index_name pfx cat) pfx = Some (cat @ ''-envelope'')"
  using catalog_id_between [of pfx "cat @ ''-envelope''"] by (simp add: get_envelope_index_name_def)

lemma fold_r_preserves:
  assumes "\<And>x acc s. P s \<Longrightarrow> P (snd (f x acc s))" "P s"
  shows "P (snd (fold_r f xs acc s))"
  using assms(2)
proof (induction xs arbitrary: acc s)
  case (Cons x xs)
  have "P (snd (f x acc s))" by (rule assms(1) [OF Cons.prems])
  then show ?case using Cons.IH by (cases "f x acc s") (auto simp: bind_r_def split: sum.splits)
qed (simp add: ret_def)

text \<open>
  The documented effect of alias actions: an accepted \<open>add\<close> makes the index a member of the alias, and
  membership is kept by every further \<open>add\<close> and by bulk and single-document writes.
\<close>

definition alias_laws :: "'w es_client \<Rightarrow> ('w \<Rightarrow> string \<Rightarrow> string \<Rightarrow> bool) \<Rightarrow> bool" where
  "alias_laws es member \<longleftrightarrow>
     (\<forall>idx al w w'. es_add_alias es idx al w = (Inr (), w') \<longrightarrow> member w' idx al) \<and>
     (\<forall>i al w j bl. member w i al \<longrightarrow> member (snd (es_add_alias es j bl w)) i al) \<and>
     (\<forall>i al w body. member w i al \<longrightarrow> member (snd (es_bulk es body w)) i al) \<and>
     (\<forall>i al w idx did d rt. member w i al \<longrightarrow> member (snd (es_index es idx did d rt w)) i al)"

lemma try_rungs_preserves:
  assumes "\<And>w idx did d rt. P w \<Longrightarrow> P (snd (es_index es idx did d rt w))" "P w"
  shows "P (snd (try_rungs es idx did d rt rs w))"
  using assms(2)
proof (induction rs arbitrary: w)
  case (Cons r rs)
  obtain name cand where r: "r = (name, cand)" by force
  have "P (snd (es_index es idx did (dset ''geometry'' cand d) rt w))" by (rule assms(1) [OF Cons.prems])
  then show ?case using Cons.IH
    by (cases "es_index es idx did (dset ''geometry'' cand d) rt w") (auto simp: r split: sum.splits)
qed simp

lemma ladder_one_preserves:
  assumes "\<And>w idx did d rt. P w \<Longrightarrow> P (snd (es_index es idx did d rt w))" "P (snd st)"
  shows "P (snd (snd (ladder_one E drv es ops docs pr acc st)))"
proof -
  obtain a w where st: "st = (a, w)" by force
  have "P (snd (retry_doc_with_ladder G es idx did d rt w))" for G idx did d rt
    using try_rungs_preserves [of P es, OF assms(1)] assms(2) by (simp add: st retry_doc_with_ladder_def ret_def)
  then show ?thesis
    using assms(2)
    by (auto simp: st ladder_one_def bind_r_def lift_r_def ret_def on_world_def case_prod_beta Let_def
        split: prod.splits sum.splits option.splits; metis snd_conv)
qed

lemma classify_response_preserves:
  assumes "env_client E = Some es" "\<And>w idx did d rt. P w \<Longrightarrow> P (snd (es_index es idx did d rt w))" "P (snd st)"
  shows "P (snd (snd (classify_response E drv ops resp docs st)))"
proof -
  have f: "P (snd (snd (fold_r (ladder_one E drv es m docs) qs acc st)))" for m qs acc
    by (rule fold_r_preserves [where P = "\<lambda>s. P (snd s)"])
       (auto intro: ladder_one_preserves [of P es, OF assms(2)] assms(3))
  show ?thesis
    using f assms(3)
    by (auto simp: classify_response_def Let_def bind_r_def lift_r_def ret_def get_client_def assms(1)
        split: prod.splits sum.splits if_splits) (metis snd_conv)+
qed

lemma enrol_fold_member:
  assumes "env_client E = Some es" "alias_laws es member"
    "\<And>w. fst (es_add_alias es (items_index_name (env_prefix E) (drv_kind drv) c) (get_public_items_alias (env_prefix E)) w) = Inr ()"
    "fold_r (enrol_one E drv) cats () (a, w) = (Inr u, a', w')" "c \<in> set cats"
  shows "member w' (items_index_name (env_prefix E) (drv_kind drv) c) (get_public_items_alias (env_prefix E))"
proof -
  let ?m = "\<lambda>w. member w (items_index_name (env_prefix E) (drv_kind drv) c) (get_public_items_alias (env_prefix E))"
  have keep: "?m (snd (snd (fold_r (enrol_one E drv) cs () (a, w))))" if "?m w" for cs a w
    by (rule fold_r_preserves [where P = "\<lambda>s. ?m (snd s)"])
       (use that assms(2) in \<open>auto simp: enrol_one_run [OF assms(1)] alias_laws_def\<close>)
  have add: "?m (snd (es_add_alias es (items_index_name (env_prefix E) (drv_kind drv) c) (get_public_items_alias (env_prefix E)) w))" for w
    using assms(2) assms(3) [of w] unfolding alias_laws_def by (metis prod.collapse)
  show ?thesis
    using assms(4,5)
  proof (induction cats arbitrary: a w)
    case (Cons x cats)
    show ?case
    proof (cases "c \<in> set cats")
      case True
      with Cons show ?thesis by (auto simp: bind_r_def enrol_one_run [OF assms(1)])
    next
      case False
      with Cons.prems have x: "x = c" by simp
      let ?w1 = "snd (es_add_alias es (items_index_name (env_prefix E) (drv_kind drv) c) (get_public_items_alias (env_prefix E)) w)"
      have "fold_r (enrol_one E drv) cats () (a, ?w1) = (Inr u, a', w')"
        using Cons.prems(1) by (simp add: x bind_r_def enrol_one_run [OF assms(1)])
      then show ?thesis using keep [OF add, of cats a w] by simp
    qed
  qed simp
qed

text \<open>
  C32.  Draining any op of an access-aware driver enrols that driver's index in the platform's public
  alias, next to the public indexes, on every cluster that accepts this alias action (a refusal is
  logged and ignored); a hit of it is then attributed to a catalog that does not exist.
\<close>

theorem envelope_index_made_public:
  assumes cl: "env_client E = Some es" and laws: "alias_laws es member"
    and accepts: "\<And>w. fst (es_add_alias es (get_envelope_index_name (env_prefix E) (op_catalog opn))
                     (get_public_items_alias (env_prefix E)) w) = Inr ()"
    and k: "drv_kind drv = Envelope" and o: "opn \<in> set ops"
    and r: "index_bulk E drv ops st = (Inr r, a', w')"
  shows "member w' (get_envelope_index_name (env_prefix E) (op_catalog opn)) (get_public_items_alias (env_prefix E))
    \<and> catalog_id_from_index (get_envelope_index_name (env_prefix E) (op_catalog opn)) (env_prefix E)
        = Some (op_catalog opn @ ''-envelope'')"
proof -
  let ?m = "\<lambda>w. member w (get_envelope_index_name (env_prefix E) (op_catalog opn)) (get_public_items_alias (env_prefix E))"
  from o have "ops \<noteq> []" by auto
  with r obtain a2 w2 body docs a3 w3 where
      f: "fold_r (enrol_one E drv) (remdups (map op_catalog ops)) () (a2, w2) = (Inr (), a3, w3)"
      and b: "(case on_world (es_bulk es body) (a3, w3) of
          (Inl x, s') \<Rightarrow> (Inr \<lparr>passed = [], transient = map (\<lambda>opn. (op_uuid opn, env_exn_text E x)) ops, poison = []\<rparr>, s')
        | (Inr resp, s') \<Rightarrow> classify_response E drv ops resp docs s') = (Inr r, a', w')"
    by (auto simp: index_bulk_def get_client_Inr cl)
  have idx: "items_index_name (env_prefix E) (drv_kind drv) (op_catalog opn) =
      get_envelope_index_name (env_prefix E) (op_catalog opn)"
    by (simp add: items_index_name_def k)
  have "?m w3"
    using enrol_fold_member [OF cl laws _ f, of "op_catalog opn"] accepts o unfolding idx by auto
  then have bulk: "?m (snd (es_bulk es body w3))" using laws unfolding alias_laws_def by blast
  have "?m w'"
  proof (cases "es_bulk es body w3")
    case (Pair res w4)
    then have w4: "?m w4" using bulk by simp
    show ?thesis
    proof (cases res)
      case (Inl x)
      then show ?thesis using b Pair w4 by (simp add: on_world_def)
    next
      case (Inr resp)
      have "?m (snd (snd (classify_response E drv ops resp docs (a3, w4))))"
        by (rule classify_response_preserves [OF cl]) (use laws w4 in \<open>auto simp: alias_laws_def\<close>)
      then show ?thesis using b Pair Inr by (simp add: on_world_def)
    qed
  qed
  then show ?thesis by (simp add: catalog_id_envelope)
qed

definition live_member :: "es_store \<Rightarrow> string \<Rightarrow> string \<Rightarrow> bool" where
  "live_member s idx al \<longleftrightarrow> (idx, al) \<in> set (es_aliases s)"

lemma es_apply_aliases: "es_aliases (snd (es_apply body s)) = es_aliases s"
  by (induction body s rule: es_apply.induct)
     (auto simp: case_prod_beta Let_def split: option.splits list.splits json.splits prod.splits)

lemma live_alias_laws: "alias_laws live_es live_member"
  by (auto simp: alias_laws_def live_member_def live_es_def case_prod_beta Let_def es_apply_aliases)

lemma envelope_index_made_public_witness:
  "(''p-c-envelope-items'', ''p-items'') \<in> set (es_aliases (snd (snd
      (index_bulk (live_env ''p'') (plain_driver Envelope) [mk_op 1 ''delete'' ''a'' []] (new_adapter, empty_store)))))"
proof -
  let ?run = "index_bulk (live_env ''p'') (plain_driver Envelope) [mk_op 1 ''delete'' ''a'' []] (new_adapter, empty_store)"
  have "fst ?run = Inr \<lparr>passed = [], transient = [], poison = [(1, ''404 no reason'')]\<rparr>" by code_simp
  then have run: "?run = (Inr \<lparr>passed = [], transient = [], poison = [(1, ''404 no reason'')]\<rparr>,
      fst (snd ?run), snd (snd ?run))" by (metis prod.collapse)
  have "live_member (snd (snd ?run)) (get_envelope_index_name (env_prefix (live_env ''p'')) (op_catalog (mk_op 1 ''delete'' ''a'' [])))
      (get_public_items_alias (env_prefix (live_env ''p'')))"
    using envelope_index_made_public [OF _ live_alias_laws _ _ _ run, of "mk_op 1 ''delete'' ''a'' []"]
    by (simp add: live_simps live_es_def)
  then show ?thesis
    by (simp add: live_member_def live_simps mk_op_def get_envelope_index_name_def get_public_items_alias_def)
qed

text \<open>The ladder never raises, and reports success only under the name of a rung it submitted.\<close>

lemma try_rungs_total: "\<exists>ok name w'. try_rungs es idx did d rt rs w = (Inr (ok, name), w') \<and>
    (case name of None \<Rightarrow> \<not> ok | Some n \<Rightarrow> ok \<and> n \<in> fst ` set rs)"
proof (induction rs arbitrary: w)
  case (Cons r rs)
  obtain name cand where r: "r = (name, cand)" by force
  obtain ok n w' where ih: "try_rungs es idx did d rt rs (snd (es_index es idx did (dset ''geometry'' cand d) rt w))
      = (Inr (ok, n), w')" "case n of None \<Rightarrow> \<not> ok | Some n \<Rightarrow> ok \<and> n \<in> fst ` set rs"
    using Cons.IH by blast
  show ?case
    using ih by (cases "es_index es idx did (dset ''geometry'' cand d) rt w") (auto simp: r split: sum.splits option.splits)
qed auto

lemma ladder_never_raises: "\<exists>r w'. retry_doc_with_ladder G es idx did d rt w = (Inr r, w')"
proof -
  obtain ok n w' where "try_rungs es idx did d (if rt = Some '''' then None else rt)
      (degrade_rungs G (jget d ''geometry'')) w = (Inr (ok, n), w')"
    using try_rungs_total by metis
  then show ?thesis unfolding retry_doc_with_ladder_def by (auto simp: ret_def)
qed

end
