(* ===== verification/Storage_Ledger.thy ===== *)
theory Storage_Ledger
  imports Task_Queue Es_Bulk "HOL-Library.Product_Lexorder"
begin

text \<open>
  The storage ledger \<open>tasks.storage\<close>: how item writes enqueue obligations and arm the drain
  (\<open>modules/storage/storage_emit.py\<close>), how a worker claims a batch and settles its rows under a
  fence (\<open>tasks/workclass_drain/storage_drain_task.py\<close>), and the leader's recovery tick
  (\<open>modules/tasks/drain_spawner.py\<close>).  The ledger is a list of rows; a statement is a function on it,
  \<open>now()\<close> an argument, and the rows other transactions have locked a predicate.  The lemmas cover every
  interleaving of the statements of any number of workers.
\<close>

section \<open>Rows\<close>

datatype storage_status = Ready | InFlight | Done | Dead

record storage_row =
  s_op :: nat
  s_day :: int
  s_catalog :: string
  s_driver :: string
  s_collection :: "string option"
  s_entity :: "string option"
  s_verb :: string
  s_status :: storage_status
  s_ready_at :: time
  s_write_id :: "string option"
  s_key :: "string option"
  s_version :: nat
  s_claimed_by :: "string option"
  s_claimed_at :: "time option"
  s_attempts :: nat
  s_created_at :: time
  s_finished_at :: "time option"

type_synonym ledger = "storage_row list"

definition pk :: "storage_row \<Rightarrow> int \<times> nat" where
  "pk r = (s_day r, s_op r)"

section \<open>Enqueueing obligations\<close>

record outbox_record =
  ob_op :: nat
  ob_driver :: string
  ob_instance :: string
  ob_collection :: string
  ob_verb :: string
  ob_item :: "string option"
  ob_key :: string

record write_outbox_record =
  wo_op :: nat
  wo_driver :: string
  wo_instance :: string
  wo_collection :: string
  wo_verb :: string
  wo_write_id :: string
  wo_key :: string

text \<open>The column defaults of the table.\<close>

definition fresh_storage_row :: "time \<Rightarrow> int \<Rightarrow> nat \<Rightarrow> string \<Rightarrow> string \<Rightarrow> string \<Rightarrow> string \<Rightarrow> string \<Rightarrow> storage_row" where
  "fresh_storage_row now today oid cat drv coll verb key = \<lparr>
     s_op = oid, s_day = today, s_catalog = cat, s_driver = drv, s_collection = Some coll, s_entity = None,
     s_verb = verb, s_status = Ready, s_ready_at = now, s_write_id = None, s_key = Some key, s_version = 0,
     s_claimed_by = None, s_claimed_at = None, s_attempts = 0, s_created_at = now, s_finished_at = None\<rparr>"

text \<open>\<open>_coalesce_id_only_rows\<close> and \<open>_coalesce_write_id_rows\<close>: a dict keyed by the target, last row kept.\<close>

definition id_only_key :: "outbox_record \<Rightarrow> string \<times> string \<times> string option" where
  "id_only_key r = (ob_driver r, ob_collection r, ob_item r)"

definition coalesce_id_only_rows :: "outbox_record list \<Rightarrow> outbox_record list" where
  "coalesce_id_only_rows rows = map snd (fold (\<lambda>r d. dset (id_only_key r) r d) rows [])"

definition write_id_key :: "write_outbox_record \<Rightarrow> string \<times> string \<times> string \<times> string" where
  "write_id_key r = (wo_driver r, wo_collection r, wo_verb r, wo_write_id r)"

definition coalesce_write_id_rows :: "write_outbox_record list \<Rightarrow> write_outbox_record list" where
  "coalesce_write_id_rows rows = map snd (fold (\<lambda>r d. dset (write_id_key r) r d) rows [])"


definition enqueue_storage_write_id :: "time \<Rightarrow> int \<Rightarrow> string \<Rightarrow> write_outbox_record list \<Rightarrow> ledger \<Rightarrow> ledger" where
  "enqueue_storage_write_id now today cat rows tbl =
     tbl @ map (\<lambda>r. (fresh_storage_row now today (wo_op r) cat (wo_driver r) (wo_collection r) (wo_verb r) (wo_key r))
                      \<lparr>s_write_id := Some (wo_write_id r)\<rparr>) rows"

text \<open>
  \<open>_enqueue_drain_trigger\<close>: one pending task of the given type on the platform catalog, unless a row
  of the same deduplication key is not terminal; with a grace period, only rows that can still make
  progress block.  The savepoint around the statement swallows a conflict with the unique index.
\<close>

definition trigger_live :: "time \<Rightarrow> time option \<Rightarrow> string \<Rightarrow> task_row \<Rightarrow> bool" where
  "trigger_live now grace key r \<longleftrightarrow>
     dedup_key r = Some key \<and> catalog_id r = ''platform'' \<and>
     status r \<notin> {COMPLETED, FAILED, DISMISSED, DEAD_LETTER} \<and>
     (case grace of
        None \<Rightarrow> True
      | Some g \<Rightarrow> (status r = PENDING \<and> timestamp r > now - g) \<or>
          (status r = ACTIVE \<and> (case locked_until r of None \<Rightarrow> False | Some t \<Rightarrow> t > now)) \<or>
          status r \<notin> {PENDING, ACTIVE})"

definition trigger_row :: "time \<Rightarrow> nat \<Rightarrow> string \<Rightarrow> string \<Rightarrow> task_row" where
  "trigger_row now tid tt key =
     (default_row tid ''platform'' tt now) \<lparr>scope := ''platform'', inputs := Some [], dedup_key := Some key\<rparr>"

definition enqueue_drain_trigger ::
    "time \<Rightarrow> nat \<Rightarrow> time option \<Rightarrow> string \<Rightarrow> string \<Rightarrow> table \<Rightarrow> table" where
  "enqueue_drain_trigger now tid grace tt key tasks =
     (if list_ex (trigger_live now grace key) tasks then tasks
      else if index_conflict (trigger_row now tid tt key) tasks then tasks
      else tasks @ [trigger_row now tid tt key])"


definition enqueue_storage_op_write_id ::
    "time \<Rightarrow> int \<Rightarrow> nat \<Rightarrow> string \<Rightarrow> write_outbox_record list \<Rightarrow> ledger \<times> table \<Rightarrow> ledger \<times> table" where
  "enqueue_storage_op_write_id now today tid cat rows st =
     (let co = coalesce_write_id_rows rows; (tbl, tasks) = st
      in if co = [] then st
         else (enqueue_storage_write_id now today cat co tbl,
               enqueue_drain_trigger now tid None ''storage_drain'' ''storage_drain'' tasks))"

section \<open>Claiming\<close>

definition claimable :: "time \<Rightarrow> time \<Rightarrow> storage_row \<Rightarrow> bool" where
  "claimable now lease r \<longleftrightarrow>
     (s_status r = Ready \<and> s_ready_at r \<le> now) \<or>
     (s_status r = InFlight \<and> (case s_claimed_at r of None \<Rightarrow> False | Some t \<Rightarrow> t < now - lease))"

definition claim_order :: "storage_row \<Rightarrow> time \<times> nat" where
  "claim_order r = (s_ready_at r, s_op r)"

text \<open>\<open>held\<close> are the rows other transactions have locked, which \<open>SKIP LOCKED\<close> passes over.\<close>

definition claimed_rows :: "time \<Rightarrow> time \<Rightarrow> nat \<Rightarrow> (storage_row \<Rightarrow> bool) \<Rightarrow> ledger \<Rightarrow> storage_row list" where
  "claimed_rows now lease n held tbl =
     take n (sort_key claim_order (filter (\<lambda>r. claimable now lease r \<and> \<not> held r) tbl))"

definition storage_claim_set :: "time \<Rightarrow> string \<Rightarrow> storage_row \<Rightarrow> storage_row" where
  "storage_claim_set now own r =
     r\<lparr>s_status := InFlight, s_claimed_at := Some now, s_claimed_by := Some own, s_version := s_version r + 1\<rparr>"

definition ledger_update :: "(storage_row \<Rightarrow> bool) \<Rightarrow> (storage_row \<Rightarrow> storage_row) \<Rightarrow> ledger \<Rightarrow> ledger" where
  "ledger_update g f tbl = map (\<lambda>r. if g r then f r else r) tbl"

text \<open>
  \<open>_claim_batch\<close>.  \<open>RETURNING\<close> promises no order; the rows are returned in table order.
\<close>

definition storage_claim_batch ::
    "time \<Rightarrow> time \<Rightarrow> nat \<Rightarrow> string \<Rightarrow> (storage_row \<Rightarrow> bool) \<Rightarrow> ledger \<Rightarrow> storage_row list \<times> ledger" where
  "storage_claim_batch now lease n own held tbl =
     (let ks = map pk (claimed_rows now lease n held tbl); g = (\<lambda>r. pk r \<in> set ks)
      in (map (storage_claim_set now own) (filter g tbl), ledger_update g (storage_claim_set now own) tbl))"

section \<open>Fenced terminal writes\<close>

text \<open>\<open>make_interval(secs => n)\<close>, in the microseconds of the task table.\<close>

definition secs :: "int \<Rightarrow> time" where
  "secs n = n * 1000000"

definition backoff_seconds :: "int list" where
  "backoff_seconds = [1, 5, 30, 300, 1800]"

definition backoff :: "nat \<Rightarrow> int" where
  "backoff attempts = backoff_seconds ! min attempts (length backoff_seconds - 1)"

definition fence :: "string \<Rightarrow> storage_row \<Rightarrow> storage_row \<Rightarrow> bool" where
  "fence own row r \<longleftrightarrow> pk r = pk row \<and> s_claimed_by r = Some own \<and> s_version r = s_version row"

definition done_set :: "time \<Rightarrow> storage_row \<Rightarrow> storage_row" where
  "done_set now r = r\<lparr>s_status := Done, s_finished_at := Some now\<rparr>"

definition storage_retry_set :: "time \<Rightarrow> nat \<Rightarrow> storage_row \<Rightarrow> storage_row" where
  "storage_retry_set now attempts r =
     r\<lparr>s_status := Ready, s_attempts := s_attempts r + 1, s_claimed_by := None, s_claimed_at := None,
       s_ready_at := now + secs (backoff attempts)\<rparr>"

definition dead_set :: "time \<Rightarrow> storage_row \<Rightarrow> storage_row" where
  "dead_set now r = r\<lparr>s_status := Dead, s_finished_at := Some now\<rparr>"

definition mark_done :: "time \<Rightarrow> string \<Rightarrow> storage_row \<Rightarrow> ledger \<Rightarrow> ledger" where
  "mark_done now own row = ledger_update (fence own row) (done_set now)"

definition mark_retry :: "time \<Rightarrow> string \<Rightarrow> storage_row \<Rightarrow> ledger \<Rightarrow> ledger" where
  "mark_retry now own row = ledger_update (fence own row) (storage_retry_set now (s_attempts row))"

definition mark_dead :: "time \<Rightarrow> string \<Rightarrow> storage_row \<Rightarrow> ledger \<Rightarrow> ledger" where
  "mark_dead now own row = ledger_update (fence own row) (dead_set now)"

section \<open>The recovery tick\<close>

text \<open>\<open>_storage_backlog_exists\<close> and \<open>_spawn_storage_drain\<close>, on provisioned tables.\<close>

definition storage_backlog_exists :: "time \<Rightarrow> ledger \<Rightarrow> bool" where
  "storage_backlog_exists now tbl = list_ex (claimable now (secs 300)) tbl"

definition spawn_storage_drain :: "time \<Rightarrow> nat \<Rightarrow> time \<Rightarrow> ledger \<Rightarrow> table \<Rightarrow> table" where
  "spawn_storage_drain now tid grace tbl tasks =
     (if storage_backlog_exists now tbl
      then enqueue_drain_trigger now tid (Some grace) ''storage_drain'' ''storage_drain'' tasks else tasks)"

section \<open>Interleaved statements\<close>

text \<open>
  One statement of some worker: an insert (rejected when the primary key is taken), a claim, or one of
  the three terminal writes for a row the worker was handed earlier.
\<close>

datatype ledger_op =
    LInsert storage_row
  | LClaim time time nat string "storage_row \<Rightarrow> bool"
  | LDone time string storage_row
  | LRetry time string storage_row
  | LDead time string storage_row

fun ledger_exec :: "ledger_op \<Rightarrow> ledger \<Rightarrow> ledger" where
  "ledger_exec (LInsert r) tbl = (if pk r \<in> pk ` set tbl then tbl else tbl @ [r])"
| "ledger_exec (LClaim now lease n own held) tbl = snd (storage_claim_batch now lease n own held tbl)"
| "ledger_exec (LDone now own row) tbl = mark_done now own row tbl"
| "ledger_exec (LRetry now own row) tbl = mark_retry now own row tbl"
| "ledger_exec (LDead now own row) tbl = mark_dead now own row tbl"

definition ledger_run :: "ledger_op list \<Rightarrow> ledger \<Rightarrow> ledger" where
  "ledger_run ops tbl = fold ledger_exec ops tbl"

definition unique_pks :: "ledger \<Rightarrow> bool" where
  "unique_pks tbl \<longleftrightarrow> distinct (map pk tbl)"

definition row_of :: "int \<times> nat \<Rightarrow> ledger \<Rightarrow> storage_row option" where
  "row_of k tbl = find (\<lambda>r. pk r = k) tbl"

lemma pk_sets [simp]:
  "pk (storage_claim_set now own r) = pk r" "pk (done_set now r) = pk r"
  "pk (storage_retry_set now n r) = pk r" "pk (dead_set now r) = pk r"
  by (simp_all add: pk_def storage_claim_set_def done_set_def storage_retry_set_def dead_set_def)

lemma map_pk_update [simp]: "(\<And>r. pk (f r) = pk r) \<Longrightarrow> map pk (ledger_update g f tbl) = map pk tbl"
  by (simp add: ledger_update_def)

lemma row_of_update:
  assumes "\<And>r. pk (f r) = pk r"
  shows "row_of k (ledger_update g f tbl) = map_option (\<lambda>r. if g r then f r else r) (row_of k tbl)"
  using assms by (induction tbl) (auto simp: row_of_def ledger_update_def)

lemma pk_exec: "map pk (ledger_exec opn tbl) = map pk tbl \<or> (\<exists>r. opn = LInsert r \<and> pk r \<notin> pk ` set tbl \<and> ledger_exec opn tbl = tbl @ [r])"
  by (cases opn) (auto simp: storage_claim_batch_def Let_def mark_done_def mark_retry_def mark_dead_def)

lemma unique_exec: "unique_pks tbl \<Longrightarrow> unique_pks (ledger_exec opn tbl)"
  using pk_exec [of opn tbl] by (auto simp: unique_pks_def)

lemma unique_run: "unique_pks tbl \<Longrightarrow> unique_pks (ledger_run ops tbl)"
  unfolding ledger_run_def by (induction ops arbitrary: tbl) (auto simp: unique_exec)

lemma row_of_unique: "unique_pks tbl \<Longrightarrow> row_of k tbl = Some r \<longleftrightarrow> r \<in> set tbl \<and> pk r = k"
  by (induction tbl) (auto simp: row_of_def unique_pks_def)

lemma row_of_pk: "row_of k tbl = Some r \<Longrightarrow> pk r = k"
  by (auto simp: row_of_def find_Some_iff)

text \<open>What a statement does to the row of one key.\<close>

definition claims_row :: "time \<Rightarrow> time \<Rightarrow> nat \<Rightarrow> (storage_row \<Rightarrow> bool) \<Rightarrow> ledger \<Rightarrow> storage_row \<Rightarrow> bool" where
  "claims_row now lease n held tbl r \<longleftrightarrow> pk r \<in> pk ` set (claimed_rows now lease n held tbl)"

lemma row_of_claim:
  "row_of k (snd (storage_claim_batch now lease n own held tbl)) =
     map_option (\<lambda>r. if claims_row now lease n held tbl r then storage_claim_set now own r else r) (row_of k tbl)"
  by (simp add: storage_claim_batch_def Let_def row_of_update claims_row_def)

lemma row_of_marks:
  "row_of k (mark_done now own row tbl) = map_option (\<lambda>r. if fence own row r then done_set now r else r) (row_of k tbl)"
  "row_of k (mark_retry now own row tbl) =
     map_option (\<lambda>r. if fence own row r then storage_retry_set now (s_attempts row) r else r) (row_of k tbl)"
  "row_of k (mark_dead now own row tbl) = map_option (\<lambda>r. if fence own row r then dead_set now r else r) (row_of k tbl)"
  by (simp_all add: mark_done_def mark_retry_def mark_dead_def row_of_update)

lemma claimed_subset: "r \<in> set (claimed_rows now lease n held tbl) \<Longrightarrow> r \<in> set tbl \<and> claimable now lease r \<and> \<not> held r"
  by (auto simp: claimed_rows_def dest: in_set_takeD)

lemma claims_row_claimable:
  assumes "unique_pks tbl" "row_of k tbl = Some r" "claims_row now lease n held tbl r"
  shows "claimable now lease r"
proof -
  from assms(3) obtain r' where r': "r' \<in> set (claimed_rows now lease n held tbl)" "pk r' = pk r" by (auto simp: claims_row_def)
  then have "r' \<in> set tbl" "claimable now lease r'" by (auto dest: claimed_subset)
  moreover have "row_of k tbl = Some r'" using row_of_unique [OF assms(1), of k] assms(2) r' calculation by auto
  ultimately show ?thesis using assms(2) by simp
qed

lemma claim_returns:
  assumes "unique_pks tbl" "r \<in> set (fst (storage_claim_batch now lease n own held tbl))"
  obtains r0 where "row_of (pk r) tbl = Some r0" "claimable now lease r0" "claims_row now lease n held tbl r0"
    "r = storage_claim_set now own r0" "row_of (pk r) (snd (storage_claim_batch now lease n own held tbl)) = Some r"
proof -
  from assms(2) obtain r0 where r0: "r0 \<in> set tbl" "claims_row now lease n held tbl r0" "r = storage_claim_set now own r0"
    by (auto simp: storage_claim_batch_def Let_def claims_row_def)
  have 1: "row_of (pk r) tbl = Some r0" using row_of_unique [OF assms(1)] r0 by simp
  moreover have "claimable now lease r0" using claims_row_claimable [OF assms(1) 1] r0 by simp
  ultimately show ?thesis using that r0 by (simp add: row_of_claim)
qed

section \<open>The fence\<close>

lemma row_of_append: "row_of k (xs @ ys) = (case row_of k xs of None \<Rightarrow> row_of k ys | Some r \<Rightarrow> Some r)"
  by (induction xs) (auto simp: row_of_def)

lemma version_sets [simp]:
  "s_version (storage_claim_set now own r) = s_version r + 1" "s_version (done_set now r) = s_version r"
  "s_version (storage_retry_set now n r) = s_version r" "s_version (dead_set now r) = s_version r"
  by (simp_all add: storage_claim_set_def done_set_def storage_retry_set_def dead_set_def)

lemma version_exec:
  "row_of k tbl = Some r \<Longrightarrow> \<exists>r'. row_of k (ledger_exec opn tbl) = Some r' \<and> s_version r \<le> s_version r'"
  by (cases opn) (auto simp: row_of_append row_of_claim row_of_marks)

lemma version_run:
  "row_of k tbl = Some r \<Longrightarrow> \<exists>r'. row_of k (ledger_run ops tbl) = Some r' \<and> s_version r \<le> s_version r'"
  unfolding ledger_run_def
proof (induction ops arbitrary: tbl r)
  case (Cons opn ops)
  obtain r1 where r1: "row_of k (ledger_exec opn tbl) = Some r1" "s_version r \<le> s_version r1"
    using version_exec [OF Cons.prems] by blast
  show ?case using Cons.IH [OF r1(1)] r1(2) by auto
qed auto

lemma marks_noop:
  assumes "unique_pks tbl" "row_of (pk row) tbl = Some r" "\<not> fence own row r"
  shows "mark_done now own row tbl = tbl" "mark_retry now own row tbl = tbl" "mark_dead now own row tbl = tbl"
proof -
  have "\<not> fence own row x" if "x \<in> set tbl" for x
  proof
    assume f: "fence own row x"
    then have "row_of (pk row) tbl = Some x" using row_of_unique [OF assms(1)] that by (simp add: fence_def)
    then show False using assms(2,3) f by simp
  qed
  then show "mark_done now own row tbl = tbl" "mark_retry now own row tbl = tbl" "mark_dead now own row tbl = tbl"
    by (auto simp: mark_done_def mark_retry_def mark_dead_def ledger_update_def intro: map_idI)
qed

text \<open>
  C12.  Once a row has been claimed again, no terminal write of the earlier claimant changes the
  ledger, whatever the workers do in between and afterwards: the claim version only grows and every
  claim moves it past the one the earlier worker holds.
\<close>

theorem stale_claim_fenced:
  assumes u: "unique_pks tbl"
    and r: "r \<in> set (fst (storage_claim_batch ta lease n own held tbl))"
    and r2: "r2 \<in> set (fst (storage_claim_batch tb lease2 m own2 held2
               (ledger_run ops (snd (storage_claim_batch ta lease n own held tbl)))))" "pk r2 = pk r"
    and tbl': "tbl' = ledger_run ops' (snd (storage_claim_batch tb lease2 m own2 held2
               (ledger_run ops (snd (storage_claim_batch ta lease n own held tbl)))))"
  shows "mark_done now own r tbl' = tbl' \<and> mark_retry now own r tbl' = tbl' \<and> mark_dead now own r tbl' = tbl'"
proof -
  let ?L1 = "snd (storage_claim_batch ta lease n own held tbl)"
  let ?L2 = "ledger_run ops ?L1" and ?L3 = "snd (storage_claim_batch tb lease2 m own2 held2 (ledger_run ops ?L1))"
  have u1: "unique_pks ?L1" using unique_exec [OF u, of "LClaim ta lease n own held"] by simp
  have u2: "unique_pks ?L2" by (rule unique_run [OF u1])
  have u3: "unique_pks ?L3" using unique_exec [OF u2, of "LClaim tb lease2 m own2 held2"] by simp
  have 1: "row_of (pk r) ?L1 = Some r" by (rule claim_returns [OF u r])
  obtain ra where ra: "row_of (pk r) ?L2 = Some ra" "s_version r \<le> s_version ra" using version_run [OF 1] by blast
  obtain r0 where r0: "row_of (pk r2) ?L2 = Some r0" "r2 = storage_claim_set tb own2 r0" "row_of (pk r2) ?L3 = Some r2"
    by (rule claim_returns [OF u2 r2(1)]) (rule that)
  then have v2: "row_of (pk r) ?L3 = Some r2" "s_version r < s_version r2" using ra r2(2) by auto
  obtain rb where rb: "row_of (pk r) tbl' = Some rb" "s_version r2 \<le> s_version rb" using version_run [OF v2(1)] tbl' by blast
  have "unique_pks tbl'" unfolding tbl' by (rule unique_run [OF u3])
  moreover have "\<not> fence own r rb" using rb v2(2) by (simp add: fence_def)
  ultimately show ?thesis using marks_noop rb(1) by blast
qed

text \<open>A ledger of one row, claimed by one worker and, after the lease, by another.\<close>

definition demo_row :: storage_row where
  "demo_row = (fresh_storage_row 0 7 1 ''c'' ''es'' ''k'' ''upsert'' ''x'')\<lparr>s_entity := Some ''x''\<rparr>"

definition demo_row2 :: storage_row where
  "demo_row2 = demo_row\<lparr>s_op := 2, s_ready_at := 1\<rparr>"

lemma stale_claim_fenced_witness:
  "let tbl1 = snd (storage_claim_batch 0 (secs 300) 10 ''a'' (\<lambda>_. False) [demo_row]);
       tbl2 = snd (storage_claim_batch (secs 301) (secs 300) 10 ''b'' (\<lambda>_. False) tbl1);
       r = storage_claim_set 0 ''a'' demo_row
   in s_version r = 1 \<and> map s_version tbl2 = [2] \<and> mark_done (secs 302) ''a'' r tbl2 = tbl2"
proof -
  let ?r = "storage_claim_set 0 ''a'' demo_row"
  have 1: "storage_claim_batch 0 (secs 300) 10 ''a'' (\<lambda>_. False) [demo_row] = ([?r], [?r])"
    by code_simp
  have 2: "storage_claim_batch (secs 301) (secs 300) 10 ''b'' (\<lambda>_. False) [?r]
      = ([storage_claim_set (secs 301) ''b'' ?r], [storage_claim_set (secs 301) ''b'' ?r])"
    by code_simp
  let ?b = "storage_claim_set (secs 301) ''b'' ?r"
  have u: "unique_pks [demo_row]" by (simp add: unique_pks_def)
  have m1: "?r \<in> set (fst (storage_claim_batch 0 (secs 300) 10 ''a'' (\<lambda>_. False) [demo_row]))" unfolding 1 by simp
  have run1: "ledger_run [] (snd (storage_claim_batch 0 (secs 300) 10 ''a'' (\<lambda>_. False) [demo_row])) = [?r]"
    unfolding 1 by (simp add: ledger_run_def)
  have m2: "?b \<in> set (fst (storage_claim_batch (secs 301) (secs 300) 10 ''b'' (\<lambda>_. False)
      (ledger_run [] (snd (storage_claim_batch 0 (secs 300) 10 ''a'' (\<lambda>_. False) [demo_row])))))"
    unfolding run1 2 by simp
  have t2: "[?b] = ledger_run [] (snd (storage_claim_batch (secs 301) (secs 300) 10 ''b'' (\<lambda>_. False)
      (ledger_run [] (snd (storage_claim_batch 0 (secs 300) 10 ''a'' (\<lambda>_. False) [demo_row])))))"
    unfolding run1 2 by (simp add: ledger_run_def)
  have "mark_done (secs 302) ''a'' ?r [?b] = [?b]"
    by (rule stale_claim_fenced [OF u m1 m2 _ t2, THEN conjunct1]) simp
  moreover have "s_version ?r = 1" "s_version ?b = 2" by (simp_all add: demo_row_def fresh_storage_row_def)
  ultimately show ?thesis unfolding 1 Let_def snd_conv 2 by simp
qed

section \<open>The lease\<close>

text \<open>
  A statement that leaves a claim alone: a claim whose staleness threshold is not past the claim time,
  or a terminal write under another claim.
\<close>

fun respects_claim :: "storage_row \<Rightarrow> time \<Rightarrow> string \<Rightarrow> ledger_op \<Rightarrow> bool" where
  "respects_claim r t own (LInsert _) = True"
| "respects_claim r t own (LClaim now lease _ _ _) = (now - lease \<le> t)"
| "respects_claim r t own (LDone _ o' row) = (\<not> (o' = own \<and> pk row = pk r \<and> s_version row = s_version r))"
| "respects_claim r t own (LRetry _ o' row) = (\<not> (o' = own \<and> pk row = pk r \<and> s_version row = s_version r))"
| "respects_claim r t own (LDead _ o' row) = (\<not> (o' = own \<and> pk row = pk r \<and> s_version row = s_version r))"

lemma claim_kept_exec:
  assumes u: "unique_pks tbl" and r: "row_of (pk r) tbl = Some r" "s_status r = InFlight" "s_claimed_at r = Some t"
      "s_claimed_by r = Some own"
    and q: "respects_claim r t own opn"
  shows "row_of (pk r) (ledger_exec opn tbl) = Some r"
proof (cases opn)
  case (LClaim now lease n o' held)
  have "\<not> claimable now lease r" using r q LClaim by (simp add: claimable_def)
  then show ?thesis using claims_row_claimable [OF u r(1)] r(1) LClaim by (auto simp: row_of_claim)
qed (use r q in \<open>auto simp: row_of_append row_of_marks fence_def\<close>)

lemma claim_kept_run:
  assumes "unique_pks tbl" "row_of (pk r) tbl = Some r" "s_status r = InFlight" "s_claimed_at r = Some t"
      "s_claimed_by r = Some own" "list_all (respects_claim r t own) ops"
  shows "row_of (pk r) (ledger_run ops tbl) = Some r"
  using assms(1,2,6) unfolding ledger_run_def
proof (induction ops arbitrary: tbl)
  case (Cons opn ops)
  have "row_of (pk r) (ledger_exec opn tbl) = Some r"
    by (rule claim_kept_exec [OF Cons.prems(1,2) assms(3-5)]) (use Cons.prems(3) in simp)
  then show ?case using Cons.IH [OF unique_exec [OF Cons.prems(1)]] Cons.prems(3) by simp
qed simp

text \<open>
  C14.  A claimed row is handed to nobody else while its lease runs: until a terminal write of the
  claimant, and as long as every later claim applies a threshold not past the claim time, no claim
  returns the row again.
\<close>

theorem claim_exclusive_in_lease:
  assumes u: "unique_pks tbl"
    and r: "r \<in> set (fst (storage_claim_batch ta lease n own held tbl))"
    and q: "list_all (respects_claim r ta own) ops"
    and t: "tb - lease2 \<le> ta"
    and r2: "r2 \<in> set (fst (storage_claim_batch tb lease2 m own2 held2
               (ledger_run ops (snd (storage_claim_batch ta lease n own held tbl)))))"
  shows "pk r2 \<noteq> pk r"
proof
  let ?L1 = "snd (storage_claim_batch ta lease n own held tbl)"
  assume eq: "pk r2 = pk r"
  have u1: "unique_pks ?L1" using unique_exec [OF u, of "LClaim ta lease n own held"] by simp
  obtain r0 where r0: "r = storage_claim_set ta own r0" "row_of (pk r) ?L1 = Some r"
    by (rule claim_returns [OF u r]) (rule that)
  have kept: "row_of (pk r) (ledger_run ops ?L1) = Some r"
    by (rule claim_kept_run [OF u1 r0(2) _ _ _ q]) (simp_all add: r0(1) storage_claim_set_def)
  obtain r3 where r3: "row_of (pk r2) (ledger_run ops ?L1) = Some r3" "claimable tb lease2 r3"
    by (rule claim_returns [OF unique_run [OF u1] r2]) (rule that)
  have "r3 = r" using r3(1) kept eq by simp
  then show False using r3(2) t r0(1) by (simp add: claimable_def storage_claim_set_def)
qed

lemma claim_exclusive_in_lease_witness:
  "storage_claim_set (secs 300) ''b'' demo_row2 \<in> set (fst (storage_claim_batch (secs 300) (secs 300) 10 ''b'' (\<lambda>_. False)
      (ledger_run [LDead 7 ''c'' demo_row]
        (snd (storage_claim_batch 0 (secs 300) 1 ''a'' (\<lambda>_. False) [demo_row, demo_row2]))))) \<and>
   pk (storage_claim_set (secs 300) ''b'' demo_row2) \<noteq> pk (storage_claim_set 0 ''a'' demo_row)"
proof -
  let ?r = "storage_claim_set 0 ''a'' demo_row"
  have 1: "storage_claim_batch 0 (secs 300) 1 ''a'' (\<lambda>_. False) [demo_row, demo_row2] = ([?r], [?r, demo_row2])"
    by code_simp
  have 2: "storage_claim_batch (secs 300) (secs 300) 10 ''b'' (\<lambda>_. False) (ledger_run [LDead 7 ''c'' demo_row] [?r, demo_row2])
      = ([storage_claim_set (secs 300) ''b'' demo_row2], [?r, storage_claim_set (secs 300) ''b'' demo_row2])"
    by code_simp
  have u: "unique_pks [demo_row, demo_row2]" by (simp add: unique_pks_def pk_def demo_row_def demo_row2_def fresh_storage_row_def)
  have m: "?r \<in> set (fst (storage_claim_batch 0 (secs 300) 1 ''a'' (\<lambda>_. False) [demo_row, demo_row2]))" unfolding 1 by simp
  have m2: "storage_claim_set (secs 300) ''b'' demo_row2 \<in> set (fst (storage_claim_batch (secs 300) (secs 300) 10 ''b'' (\<lambda>_. False)
      (ledger_run [LDead 7 ''c'' demo_row] (snd (storage_claim_batch 0 (secs 300) 1 ''a'' (\<lambda>_. False) [demo_row, demo_row2])))))"
    unfolding 1 snd_conv 2 by simp
  have "pk (storage_claim_set (secs 300) ''b'' demo_row2) \<noteq> pk ?r"
    by (rule claim_exclusive_in_lease [OF u m _ _ m2]) simp_all
  then show ?thesis using m2 by blast
qed

section \<open>Settled rows\<close>

definition settled :: "storage_row \<Rightarrow> bool" where
  "settled r \<longleftrightarrow> s_status r \<in> {Done, Dead}"

fun foreign_mark :: "storage_row \<Rightarrow> ledger_op \<Rightarrow> bool" where
  "foreign_mark r (LDone _ own row) = (\<not> fence own row r)"
| "foreign_mark r (LRetry _ own row) = (\<not> fence own row r)"
| "foreign_mark r (LDead _ own row) = (\<not> fence own row r)"
| "foreign_mark r _ = True"

lemma settled_exec:
  assumes "unique_pks tbl" "row_of k tbl = Some r" "settled r" "foreign_mark r opn"
  shows "row_of k (ledger_exec opn tbl) = Some r"
proof (cases opn)
  case (LClaim now lease n own held)
  have "\<not> claimable now lease r" using assms(3) by (auto simp: claimable_def settled_def)
  then show ?thesis using claims_row_claimable [OF assms(1,2)] assms(2) LClaim by (auto simp: row_of_claim)
qed (use assms in \<open>auto simp: row_of_append row_of_marks\<close>)

text \<open>
  A settled row is never claimed again and keeps every column, under any sequence of inserts,
  claims and terminal writes except one of the claim that settled it.
\<close>

theorem settled_is_final:
  assumes "unique_pks tbl" "row_of k tbl = Some r" "settled r" "list_all (foreign_mark r) ops"
  shows "row_of k (ledger_run ops tbl) = Some r"
  using assms(1,2,4) unfolding ledger_run_def
proof (induction ops arbitrary: tbl)
  case (Cons opn ops)
  have "row_of k (ledger_exec opn tbl) = Some r"
    by (rule settled_exec [OF Cons.prems(1,2) assms(3)]) (use Cons.prems(3) in simp)
  then show ?case using Cons.IH [OF unique_exec [OF Cons.prems(1)]] Cons.prems(3) by simp
qed simp

lemma settled_is_final_witness:
  "row_of (7, 1) (ledger_run [LClaim (secs 900) (secs 300) 10 ''b'' (\<lambda>_. False), LRetry 9 ''b'' demo_row]
      [(storage_claim_set 0 ''a'' demo_row)\<lparr>s_status := Done\<rparr>])
    = Some ((storage_claim_set 0 ''a'' demo_row)\<lparr>s_status := Done\<rparr>)"
  by (rule settled_is_final)
     (simp_all add: unique_pks_def row_of_def settled_def pk_def demo_row_def fresh_storage_row_def
        storage_claim_set_def fence_def)

text \<open>
  The exception is real: the terminal writes do not test the status, so a worker that marks a
  row done and then for retry, under one claim, puts the finished row back in the queue; marking it
  for retry first makes the later write a no-op.
\<close>

theorem done_then_retry_reopens:
  assumes "unique_pks tbl" "r \<in> set (fst (storage_claim_batch ta lease n own held tbl))"
  shows "\<exists>r'. row_of (pk r) (mark_retry tc own r (mark_done tb own r (snd (storage_claim_batch ta lease n own held tbl))))
                = Some r' \<and> s_status r' = Ready \<and> s_finished_at r' = Some tb"
    and "row_of (pk r) (mark_done tc own r (mark_retry tb own r (snd (storage_claim_batch ta lease n own held tbl))))
           = row_of (pk r) (mark_retry tb own r (snd (storage_claim_batch ta lease n own held tbl)))"
proof -
  obtain r0 where r0: "r = storage_claim_set ta own r0"
      "row_of (pk r) (snd (storage_claim_batch ta lease n own held tbl)) = Some r"
    by (rule claim_returns [OF assms]) (rule that)
  have f: "fence own r r" by (simp add: fence_def r0(1) storage_claim_set_def)
  have f': "fence own r (done_set tb r)" using f by (simp add: fence_def done_set_def pk_def)
  have n: "\<not> fence own r (storage_retry_set tb (s_attempts r) r)" by (simp add: fence_def storage_retry_set_def)
  show "\<exists>r'. row_of (pk r) (mark_retry tc own r (mark_done tb own r (snd (storage_claim_batch ta lease n own held tbl))))
                = Some r' \<and> s_status r' = Ready \<and> s_finished_at r' = Some tb"
    using f f' r0(2) by (simp add: row_of_marks) (simp add: storage_retry_set_def done_set_def)
  show "row_of (pk r) (mark_done tc own r (mark_retry tb own r (snd (storage_claim_batch ta lease n own held tbl))))
           = row_of (pk r) (mark_retry tb own r (snd (storage_claim_batch ta lease n own held tbl)))"
    using f n r0(2) by (simp add: row_of_marks)
qed

section \<open>Retries\<close>

lemma backoff_bounds: "1 \<le> backoff n \<and> backoff n \<le> 1800"
proof -
  consider "n = 0" | "n = 1" | "n = 2" | "n = 3" | "4 \<le> n" by linarith
  then show ?thesis by cases (simp_all add: backoff_def backoff_seconds_def min_def numeral_eq_Suc)
qed

lemma backoff_mono: "m \<le> n \<Longrightarrow> backoff m \<le> backoff n"
proof -
  have s: "sorted backoff_seconds" by (simp add: backoff_seconds_def)
  assume "m \<le> n"
  then show ?thesis
    unfolding backoff_def by (intro sorted_nth_mono [OF s]) (auto simp: backoff_seconds_def)
qed

section \<open>Coalescing and the trigger\<close>

lemma find_snoc: "find P (xs @ [x]) = (case find P xs of None \<Rightarrow> if P x then Some x else None | Some y \<Rightarrow> Some y)"
  by (induction xs) auto

lemma fold_dset_map_of:
  "map_of (fold (\<lambda>r d. dset (f r) r d) rows d) k =
     (case find (\<lambda>r. f r = k) (rev rows) of None \<Rightarrow> map_of d k | Some r \<Rightarrow> Some r)"
proof (induction rows arbitrary: d)
  case (Cons r rows)
  show ?case using Cons.IH by (auto simp: find_snoc split: option.splits)
qed simp

lemma fold_dset_distinct: "distinct (map fst d) \<Longrightarrow> distinct (map fst (fold (\<lambda>r d. dset (f r) r d) rows d))"
  by (induction rows arbitrary: d) simp_all

lemma fold_dset_keys:
  "\<forall>(k, r) \<in> set d. f r = k \<Longrightarrow> \<forall>(k, r) \<in> set (fold (\<lambda>r d. dset (f r) r d) rows d). f r = k"
proof (induction rows arbitrary: d)
  case (Cons r rows)
  have "\<forall>(k, x) \<in> set (dset (f r) r d). f x = k" using Cons.prems set_dset_subset [of "f r" r d] by fastforce
  then show ?case using Cons.IH by simp
qed simp

lemma coalesce_find:
  "find (\<lambda>r. id_only_key r = k) (coalesce_id_only_rows rows) = find (\<lambda>r. id_only_key r = k) (rev rows)"
proof -
  define d where "d = fold (\<lambda>r d. dset (id_only_key r) r d) rows []"
  have keys: "\<forall>(k, r) \<in> set d. id_only_key r = k" unfolding d_def by (rule fold_dset_keys) simp
  have "find (\<lambda>r. id_only_key r = k) (map snd d) = map_of d k"
    using keys by (induction d) auto
  moreover have "map_of d k = find (\<lambda>r. id_only_key r = k) (rev rows)"
    unfolding d_def fold_dset_map_of by (simp split: option.splits)
  ultimately show ?thesis unfolding coalesce_id_only_rows_def d_def [symmetric] by simp
qed

text \<open>
  Within one call, an item of one target gets exactly one obligation, and it is the last
  operation requested for it.
\<close>

theorem coalesce_last_wins:
  "distinct (map id_only_key (coalesce_id_only_rows rows)) \<and>
   find (\<lambda>r. id_only_key r = k) (coalesce_id_only_rows rows) = find (\<lambda>r. id_only_key r = k) (rev rows)"
proof -
  define d where "d = fold (\<lambda>r d. dset (id_only_key r) r d) rows []"
  have keys: "\<forall>(k, r) \<in> set d. id_only_key r = k" unfolding d_def by (rule fold_dset_keys) simp
  have m: "map id_only_key (map snd d) = map fst d" using keys by (auto simp: case_prod_beta)
  have "distinct (map fst d)" unfolding d_def by (rule fold_dset_distinct) simp
  then have "distinct (map id_only_key (map snd d))" unfolding m .
  then have "distinct (map id_only_key (coalesce_id_only_rows rows))"
    unfolding coalesce_id_only_rows_def d_def [symmetric] .
  then show ?thesis by (simp only: coalesce_find simp_thms)
qed

text \<open>A trigger that can still be picked up: not terminal, and not passed over by the grace period.\<close>

lemma trigger_row_simps [simp]:
  "dedup_key (trigger_row now tid tt key) = Some key" "catalog_id (trigger_row now tid tt key) = ''platform''"
  "status (trigger_row now tid tt key) = PENDING" "timestamp (trigger_row now tid tt key) = now"
  "task_type (trigger_row now tid tt key) = tt"
  by (simp_all add: trigger_row_def default_row_def)

lemma trigger_armed:
  assumes "\<forall>r \<in> set tasks. timestamp r < now" "\<And>g. grace = Some g \<Longrightarrow> 0 < g"
  shows "list_ex (trigger_live now grace key) (enqueue_drain_trigger now tid grace tt key tasks)"
proof -
  have "\<not> index_conflict (trigger_row now tid tt key) tasks"
    using assms(1) by (auto simp: index_conflict_def list_ex_iff)
  moreover have "trigger_live now grace key (trigger_row now tid tt key)"
    using assms(2) by (cases grace) (simp_all add: trigger_live_def)
  ultimately show ?thesis by (simp add: enqueue_drain_trigger_def)
qed





section \<open>The recovery tick re-arms the drain\<close>

lemma claimed_rows_Nil_iff:
  "claimed_rows now lease (Suc n) (\<lambda>_. False) tbl = [] \<longleftrightarrow> \<not> list_ex (claimable now lease) tbl"
proof -
  have "set (sort_key claim_order (filter (claimable now lease) tbl)) = {} \<longleftrightarrow> \<not> list_ex (claimable now lease) tbl"
    by (auto simp: list_ex_iff)
  then show ?thesis unfolding claimed_rows_def set_empty by simp
qed

lemma claim_empty_iff:
  "fst (storage_claim_batch now lease n own held tbl) = [] \<longleftrightarrow> claimed_rows now lease n held tbl = []"
proof -
  have "set (claimed_rows now lease n held tbl) \<subseteq> set tbl" using claimed_subset by blast
  then show ?thesis
    by (cases "claimed_rows now lease n held tbl") (auto simp: storage_claim_batch_def Let_def filter_empty_conv)
qed

text \<open>
  A drain task that can still make progress: waiting for a dispatcher since less than the grace time,
  held under a lease that has not expired, or in one of the other two states before the end.
\<close>

definition drain_progressing :: "time \<Rightarrow> time \<Rightarrow> task_row \<Rightarrow> bool" where
  "drain_progressing now grace r \<longleftrightarrow> dedup_key r = Some ''storage_drain'' \<and> catalog_id r = ''platform'' \<and>
     (status r = PENDING \<and> now - timestamp r < grace \<or>
      status r = ACTIVE \<and> (\<exists>t. locked_until r = Some t \<and> now < t) \<or>
      status r = CREATED \<or> status r = RUNNING)"

text \<open>
  C28.  The leader's tick sees a backlog exactly when a claim would return rows.  It then leaves a
  drain task that can still make progress: a wedged one, pending for the grace time or active under an
  expired lease, does not count and is replaced.  Without a backlog it leaves the task table alone.
\<close>

theorem recovery_tick_rearms:
  assumes "\<forall>r \<in> set tasks. timestamp r < now" "0 < grace"
  shows "(storage_backlog_exists now tbl \<longleftrightarrow>
            fst (storage_claim_batch now (secs 300) (Suc n) own (\<lambda>_. False) tbl) \<noteq> []) \<and>
         (if storage_backlog_exists now tbl
          then \<exists>r \<in> set (spawn_storage_drain now tid grace tbl tasks). drain_progressing now grace r
          else spawn_storage_drain now tid grace tbl tasks = tasks)"
proof -
  have "drain_progressing now grace r" if "trigger_live now (Some grace) ''storage_drain'' r" for r
    using that by (cases "status r") (auto simp: trigger_live_def drain_progressing_def split: option.splits)
  then have "\<exists>r \<in> set (enqueue_drain_trigger now tid (Some grace) ''storage_drain'' ''storage_drain'' tasks).
      drain_progressing now grace r"
    using trigger_armed [OF assms(1), of "Some grace"] assms(2) unfolding list_ex_iff by blast
  then show ?thesis
    by (auto simp: storage_backlog_exists_def spawn_storage_drain_def claim_empty_iff claimed_rows_Nil_iff)
qed

text \<open>A wedged trigger: active, its lease long expired.\<close>

lemma recovery_tick_rearms_witness:
  "let wedged = (trigger_row 0 1 ''storage_drain'' ''storage_drain'')\<lparr>status := ACTIVE, locked_until := Some 5\<rparr>
   in list_ex (drain_progressing (secs 900) (secs 300))
        (spawn_storage_drain (secs 900) 2 (secs 300) [demo_row] [wedged]) \<and>
      \<not> drain_progressing (secs 900) (secs 300) wedged"
proof -
  let ?w = "(trigger_row 0 1 ''storage_drain'' ''storage_drain'')\<lparr>status := ACTIVE, locked_until := Some 5\<rparr>"
  have "storage_backlog_exists (secs 900) [demo_row]"
    by (simp add: storage_backlog_exists_def claimable_def demo_row_def fresh_storage_row_def secs_def)
  moreover have "timestamp ?w = 0" by (simp add: trigger_row_def default_row_def)
  ultimately show ?thesis
    using recovery_tick_rearms [of "[?w]" "secs 900" "secs 300" "[demo_row]" 0 "''a''" 2]
    by (simp add: secs_def drain_progressing_def list_ex_iff)
qed

end
