(* ===== verification/Spec2Isabelle.thy ===== *)
theory Spec2Isabelle
  imports Prelude Py_Values Access_Filter Access_Es Access_Pg Attribute_Predicates Usage_Counter Auth_Policy Conditions Policy_Engine
    Read_Filter Listing_Visibility Iam_Middleware Hilbert Pmtiles
    Task_Queue Task_Lifecycle Task_Guarantees Task_Jobs Dispatcher Task_Listing
    Circuit_Breaker Ttl_Gate Cql_Like Cql_Text Cql_Es Cql_Fields Es_Bulk Storage_Ledger
begin

text \<open>
  A verification library for GeoID, a catalog service for geospatial data written in Python.  Paths
  below are relative to \<open>src/packages/core/src/dynastore/\<close> unless they start with \<open>extensions/iam\<close>, which
  is in \<open>src/packages/extensions/iam/src/dynastore/\<close>.

  \<^bold>\<open>The program.\<close>  A request passes the gates of the IAM extension; the gates ask the policy engine,
  whose policies carry conditions, some of them over usage counters.  For listings and searches the
  same policies are compiled into a read scope, which the two storage backends translate into an
  Elasticsearch query and an SQL fragment, next to the filter the user wrote in CQL2.  Work outside a
  request is a row of a task table in PostgreSQL that dispatchers claim, run and settle; writes to the
  search index are rows of a storage ledger that drain tasks claim and push through a bulk adapter.
  Vector tiles are published as PMTiles archives.

  \<^bold>\<open>Conventions.\<close>  A Python function is a HOL function of the same name, an exception a value of
  \<open>py_exn\<close> in a sum type, a coroutine with effects a function on a world (\<open>run\<close> in \<open>Prelude\<close>).  An SQL
  statement is a function on the list of rows, the clock and the rows locked by others its arguments.
  Concurrent code is a type of labelled statements, a function that executes one, and lemmas over
  every sequence of them.  Code outside the repository (\<open>re\<close>, \<open>float\<close>, pygeofilter, shapely, the
  database and search servers) is a parameter; where a theorem needs its documented behaviour, that
  behaviour is a hypothesis, and a witness instantiates it.

  \<^bold>\<open>Foundations.\<close>  \<open>Prelude\<close>: short-circuiting loops that may raise, the exception and state monads,
  dicts as association lists, decimal text.  \<open>Py_Values\<close>: JSON values, floats, truthiness, equality.

  \<^bold>\<open>Read scopes.\<close>  \<open>Access_Filter\<close> (\<open>models/protocols/access_filter.py\<close>) gives the meaning \<open>admits\<close> of a
  scope.  \<open>Access_Es\<close> proves that the Elasticsearch translation and the driver query built from it let
  through exactly the scope with ranges decided by the index's order, which is \<open>admits\<close> where no range
  occurs; the locale \<open>es_engine\<close> states the laws of query evaluation used for that, and is interpreted
  on the evaluator of the model.  \<open>Access_Pg\<close> states what the SQL fragment
  selects, where it falls short of \<open>admits\<close>, and that its bind names are safe.  \<open>Read_Filter\<close>
  (\<open>compile_read_filter\<close> in \<open>modules/iam/\<close>) proves that a compiled scope admits only documents the engine
  would allow, for policies with steady conditions and no regular expressions; \<open>Listing_Visibility\<close> (\<open>modules/storage/access_scope.py\<close> and the listing helpers) that a
  scope compiled for a catalog and collection stays inside them.

  \<^bold>\<open>Policies.\<close>  \<open>Auth_Policy\<close> (\<open>models/auth.py\<close>), \<open>Conditions\<close> (\<open>modules/iam/conditions.py\<close>,
  \<open>audience_handlers.py\<close>, the handler of \<open>filter_inspectors.py\<close>), \<open>Attribute_Predicates\<close>, \<open>Usage_Counter\<close> and \<open>Policy_Engine\<close>
  (\<open>modules/iam/policies.py\<close>): the verdict is characterised by ranks and, for conditions that neither count
  nor raise, does not depend on the order of the policies; attribute operators compile to what they document (locales \<open>predicate_compiler\<close> and
  \<open>compiler_registry\<close>, interpreted on every operator); the two counter backends meet one contract
  (locales \<open>usage_counter\<close> and \<open>window_limit\<close>, interpreted on both), from which the rate limit is exact
  per caller and window over every sequence of requests.
  \<open>Iam_Middleware\<close> (\<open>extensions/iam/middleware.py\<close> and the tenant gate) proves that a request reaches
  its handler only past every gate.

  \<^bold>\<open>Tasks.\<close>  \<open>Task_Queue\<close> holds the statements of \<open>modules/tasks/tasks_module.py\<close> and
  \<open>maintenance.py\<close>; \<open>Task_Lifecycle\<close> makes them a state machine with the locale \<open>queue_invariant\<close>, whose
  interpretations carry lease exclusivity and, in \<open>Task_Guarantees\<close>, finality, the retry budget,
  claimability, deduplication, fairness and progress.  Each of these holds along every run without the
  operations its text names, and lemmas beside them show that the exclusions are needed.  \<open>Task_Jobs\<close>, \<open>Dispatcher\<close> and \<open>Task_Listing\<close> are
  built on the statements: job states, outcome routing with the bound of sixteen on continuation
  chains, and paging.

  \<^bold>\<open>Index writes.\<close>  \<open>Storage_Ledger\<close> models the outbox \<open>tasks.storage\<close>: the producers of
  \<open>modules/storage/storage_emit.py\<close> with the trigger row they add to the task table, the claim and the
  fenced terminal writes of \<open>tasks/workclass_drain/storage_drain_task.py\<close>, and the recovery tick of
  \<open>modules/tasks/drain_spawner.py\<close>.  For every interleaving, a stale claimant cannot write, a running
  lease is exclusive and a settled row is final; a write, and the recovery tick, leave a drain that can
  run.  \<open>Es_Bulk\<close> models the adapter \<open>tasks/workclass_drain/es_indexer_adapter.py\<close>, the response
  classifier \<open>modules/elasticsearch/bulk_classify.py\<close>, the geometry ladder and the public alias: every op
  with a key of its own is reported exactly once, and three defects are stated as theorems.  The search
  client is a parameter with the laws each theorem names; a small store serves the examples.

  \<^bold>\<open>Filters.\<close>  \<open>Cql_Like\<close>, \<open>Cql_Text\<close>, \<open>Cql_Es\<close> and \<open>Cql_Fields\<close> model \<open>modules/tools/cql.py\<close>,
  \<open>modules/storage/drivers/es_common/cql_to_es.py\<close> and the field paths.  The main result is that both
  backends agree on every supported filter wherever the SQL meaning is not unknown; it is proved in
  the locale \<open>cql_engine\<close>, interpreted on an evaluator of the generated queries.

  \<^bold>\<open>Tiles and tools.\<close>  \<open>Hilbert\<close> and \<open>Pmtiles\<close> (\<open>modules/tiles/writers/pmtiles_writer.py\<close>): tile ids are a
  bijection and an independent reader of the format finds every tile.  \<open>Circuit_Breaker\<close>
  (\<open>modules/storage/circuit_breaker.py\<close>) and \<open>Ttl_Gate\<close> (\<open>tools/ttl_gate.py\<close>) are proved over every
  interleaving of their callers.

  \<^bold>\<open>Bounds.\<close>  Recursive definitions terminate by proof, not by fuel, with these exceptions, which are
  bounds of the source: the chain of causes in a bulk error is cut after five hops, and id enumeration
  in listings after ten thousand.  Claim versions, attempts and retry counts are naturals; the columns
  are 32-bit integers, and no theorem needs a value near that limit.

  \<^bold>\<open>Not modelled.\<close>  In the storage drain, the loop between the claim and the terminal writes: it reads
  PostgreSQL, builds documents and dispatches them in chunks, and only its two ends are covered.  The
  event outbox.  The catalog, collection and item services, the storage drivers, the configuration and
  IAM storage layers: their behaviour is the SQL they generate for schemas created at run time.  The
  database access layer, the Google Cloud integration and the autoscaling signals: calls to external
  systems.  Rendering, volumes, coverages and ingestion: numerical work in GDAL, numpy and shapely.
  The HTTP extensions other than the IAM gates: translation of requests into service calls.  The
  geospatial inspector of the \<open>filter\<close> condition: geometry and query parsing of other packages.
\<close>

end
